(* ===== verification/Prelude.thy ===== *)
theory Prelude
  imports Main "HOL-Library.Word"
begin

unbundle bit_operations_syntax

text \<open>
  Shared vocabulary of the development: the C integer types of \<^verbatim>\<open>include/types.h\<close> as
  words, the ways a kernel routine can stop, the state-and-stop monad in which every
  stateful C function is written, a bounded counting loop, and the generic facts about
  that monad and about 32-bit addresses that all component theories use.

  On the build target (\<^verbatim>\<open>--target=i686-pc-none-elf\<close> in the Makefile) both \<open>int\<close> and
  \<open>long\<close> are 32 bits wide, so the names \<open>int32\<close>, \<open>uint32\<close>, \<open>int64\<close> and \<open>uint64\<close> of
  \<^verbatim>\<open>types.h\<close> all denote 32-bit integers; the model keeps them as \<open>u32\<close> and reads them as
  signed with \<open>sint\<close> where the C type is signed.
\<close>

section \<open>Types\<close>

type_synonym u8 = "8 word"
type_synonym u16 = "16 word"
type_synonym u32 = "32 word"

text \<open>
  Why a routine does not return: it called \<open>panic\<close> (the reason is the format string), the
  processor raised a page fault at an address, it used an array element outside its
  array, or it did something whose result the C language leaves undefined.
\<close>

datatype stop =
    Panic string
  | PageFault u32
  | OutOfBounds
  | Undefined

type_synonym ('s, 'a) kernel = "'s \<Rightarrow> (stop \<times> 's) + ('a \<times> 's)"

section \<open>The state-and-stop monad\<close>

definition kreturn :: "'a \<Rightarrow> ('s, 'a) kernel" where
  "kreturn x s = Inr (x, s)"

definition kstop :: "stop \<Rightarrow> ('s, 'a) kernel" where
  "kstop e s = Inl (e, s)"

definition kbind :: "('s, 'a) kernel \<Rightarrow> ('a \<Rightarrow> ('s, 'b) kernel) \<Rightarrow> ('s, 'b) kernel" where
  "kbind m f s = (case m s of Inl e \<Rightarrow> Inl e | Inr (x, s') \<Rightarrow> f x s')"

definition kthen :: "('s, 'a) kernel \<Rightarrow> ('s, 'b) kernel \<Rightarrow> ('s, 'b) kernel" where
  "kthen m k = kbind m (\<lambda>_. k)"

definition kgets :: "('s \<Rightarrow> 'a) \<Rightarrow> ('s, 'a) kernel" where
  "kgets f s = Inr (f s, s)"

definition kmodify :: "('s \<Rightarrow> 's) \<Rightarrow> ('s, unit) kernel" where
  "kmodify f s = Inr ((), f s)"

text \<open>\<open>kfor n f\<close> runs the body for \<open>0, \<dots>, n - 1\<close> in order, as a C counting loop does.\<close>

primrec kfor :: "nat \<Rightarrow> (nat \<Rightarrow> ('s, unit) kernel) \<Rightarrow> ('s, unit) kernel" where
  "kfor 0 f = kreturn ()"
| "kfor (Suc n) f = kthen (kfor n f) (f n)"

text \<open>The same loop over a plain state, for code that cannot stop.\<close>

primrec for_loop :: "nat \<Rightarrow> (nat \<Rightarrow> 's \<Rightarrow> 's) \<Rightarrow> 's \<Rightarrow> 's" where
  "for_loop 0 f s = s"
| "for_loop (Suc n) f s = f n (for_loop n f s)"

named_theorems kernel_simps \<open>evaluation of the monad's operations\<close>
named_theorems addr_nat \<open>addresses and page arithmetic read as natural numbers\<close>

lemma kreturn_run [kernel_simps, simp]: "kreturn x s = Inr (x, s)"
  by (simp add: kreturn_def)

lemma kstop_run [kernel_simps, simp]: "kstop e s = Inl (e, s)"
  by (simp add: kstop_def)

lemma kgets_run [kernel_simps, simp]: "kgets f s = Inr (f s, s)"
  by (simp add: kgets_def)

lemma kmodify_run [kernel_simps, simp]: "kmodify f s = Inr ((), f s)"
  by (simp add: kmodify_def)

lemma kbind_Inr [simp]: "m s = Inr (x, s') \<Longrightarrow> kbind m f s = f x s'"
  by (simp add: kbind_def)

lemma kbind_Inl [simp]: "m s = Inl e \<Longrightarrow> kbind m f s = Inl e"
  by (simp add: kbind_def)

lemma kthen_Inr [simp]: "m s = Inr (x, s') \<Longrightarrow> kthen m k s = k s'"
  by (simp add: kthen_def)

lemma kthen_Inl [simp]: "m s = Inl e \<Longrightarrow> kthen m k s = Inl e"
  by (simp add: kthen_def)

lemma kbind_Inr_iff:
  "kbind m f s = Inr r \<longleftrightarrow> (\<exists>x s'. m s = Inr (x, s') \<and> f x s' = Inr r)"
  by (auto simp: kbind_def split: sum.splits)

lemma kthen_Inr_iff:
  "kthen m k s = Inr r \<longleftrightarrow> (\<exists>x s'. m s = Inr (x, s') \<and> k s' = Inr r)"
  by (auto simp: kthen_def kbind_Inr_iff)

lemma kthen_assoc: "kthen (kthen m k) l = kthen m (kthen k l)"
  by (rule ext) (simp add: kthen_def kbind_def split: sum.splits)

text \<open>
  The loop rule: an invariant indexed by the number of completed rounds, kept by every
  round, holds after the loop, and the loop returns.
\<close>

lemma kfor_invariant:
  assumes "P 0 s"
    and "\<And>i t. i < n \<Longrightarrow> P i t \<Longrightarrow> \<exists>t'. f i t = Inr ((), t') \<and> P (Suc i) t'"
  shows "\<exists>s'. kfor n f s = Inr ((), s') \<and> P n s'"
  using assms(2)
proof (induction n)
  case 0
  show ?case using assms(1) by simp
next
  case (Suc n)
  from Suc.IH Suc.prems obtain s1 where "kfor n f s = Inr ((), s1)" and "P n s1"
    by (meson less_SucI)
  moreover from Suc.prems [of n s1] this(2) obtain s2
    where "f n s1 = Inr ((), s2)" and "P (Suc n) s2" by auto
  ultimately show ?case by simp
qed

section \<open>Little-endian words\<close>

definition le32 :: "u8 \<Rightarrow> u8 \<Rightarrow> u8 \<Rightarrow> u8 \<Rightarrow> u32" where
  "le32 a b c d =
     ucast a OR push_bit 8 (ucast b) OR push_bit 16 (ucast c) OR push_bit 24 (ucast d)"

definition byte_of :: "nat \<Rightarrow> u32 \<Rightarrow> u8" where
  "byte_of k w = ucast (drop_bit (8 * k) w)"

lemma le32_byte_of [simp]:
  "le32 (byte_of 0 w) (byte_of (Suc 0) w) (byte_of 2 w) (byte_of 3 w) = w"
proof (rule bit_word_eqI)
  fix n
  assume "n < LENGTH(32)"
  then show "bit (le32 (byte_of 0 w) (byte_of (Suc 0) w) (byte_of 2 w) (byte_of 3 w)) n = bit w n"
    by (cases "n < 8"; cases "n < 16"; cases "n < 24";
        auto simp: le32_def byte_of_def bit_simps)
qed

lemma byte_of_le32 [simp]:
  "byte_of 0 (le32 a b c d) = a" "byte_of (Suc 0) (le32 a b c d) = b"
  "byte_of 2 (le32 a b c d) = c" "byte_of 3 (le32 a b c d) = d"
  unfolding le32_def byte_of_def
  by (rule bit_eqI; auto simp: bit_simps dest: bit_imp_le_length)+

section \<open>32-bit addresses as natural numbers\<close>

lemma u32_less [simp]: "unat (w :: u32) < 4294967296"
proof -
  have "unat w < 2 ^ LENGTH(32)" by (rule unsigned_less)
  then show ?thesis by simp
qed

lemma page_mask: "(0xFFFFF000 :: u32) = NOT (mask 12)"
  by (simp add: mask_eq_exp_minus_1)

lemma offset_mask: "(0xFFF :: u32) = mask 12"
  by (simp add: mask_eq_exp_minus_1)

lemma and_page_mask: "(w :: u32) AND 0xFFFFF000 = push_bit 12 (drop_bit 12 w)"
  unfolding page_mask by (rule bit_eqI) (auto simp: bit_simps)

lemma and_offset_mask: "(w :: u32) AND 0xFFF = w mod 4096"
  unfolding offset_mask by (simp flip: take_bit_eq_mask add: take_bit_eq_mod)

lemma unat_and_page_mask [addr_nat]:
  "unat ((w :: u32) AND 0xFFFFF000) = unat w div 4096 * 4096"
proof -
  have "unat w div 4096 * 4096 < 2 ^ 32"
    using u32_less [of w] by (simp add: div_less_iff_less_mult)
  then show ?thesis
    unfolding and_page_mask
    by (simp add: push_bit_eq_mult drop_bit_eq_div unat_word_ariths unat_div)
qed

lemma unat_and_offset_mask [addr_nat]: "unat ((w :: u32) AND 0xFFF) = unat w mod 4096"
  by (simp add: and_offset_mask unat_mod)

lemma unat_add_small [addr_nat]:
  "unat (a :: u32) + unat b < 4294967296 \<Longrightarrow> unat (a + b) = unat a + unat b"
  by (simp add: unat_word_ariths)

lemma unat_sub_le [addr_nat]: "b \<le> a \<Longrightarrow> unat (a - b :: u32) = unat a - unat b"
  by (simp add: unat_sub_if' word_le_nat_alt)

lemma unat_of_nat_u32 [addr_nat]: "n < 4294967296 \<Longrightarrow> unat (of_nat n :: u32) = n"
  by (simp add: unat_of_nat)

text \<open>A multiple of four plus less than four stays in the same page.\<close>

lemma page_mod_4: "(a mod 4096) mod 4 = a mod (4 :: nat)"
  by (rule mod_mod_cancel) simp

lemma aligned_offset_less:
  assumes "a mod 4 = 0" and "k < (4 :: nat)"
  shows "a mod 4096 + k < 4096"
proof -
  define r where "r = a mod 4096"
  have "r mod 4 = 0" using assms(1) unfolding r_def by (simp only: page_mod_4)
  then have "4 dvd r" by (rule mod_0_imp_dvd)
  then obtain q where q: "r = 4 * q" by (rule dvdE)
  have "r < 4096" unfolding r_def by (rule mod_less_divisor) simp
  with q have "q < 1024" by simp
  with q assms(2) show ?thesis unfolding r_def [symmetric] by linarith
qed

lemma aligned_add_mod:
  assumes "a mod 4 = 0" and "k < (4 :: nat)"
  shows "(a + k) mod 4096 = a mod 4096 + k"
  using aligned_offset_less [OF assms] by (metis mod_add_left_eq mod_less)

lemma aligned_add_div:
  assumes "a mod 4 = 0" and "k < (4 :: nat)"
  shows "(a + k) div 4096 = a div 4096"
  using aligned_offset_less [OF assms] assms(2) by (subst div_add1_eq) simp

end
