(* ===== verification/Machine.thy ===== *)
theory Machine
  imports Prelude
begin

unbundle bit_operations_syntax

text \<open>
  The part of the i686 processor the C code runs on: physical memory as bytes, the control
  registers \<open>CR0\<close>, \<open>CR2\<close>, \<open>CR3\<close>, the interrupt flag, and the memory management unit
  with its two-level page walk (4 KiB pages, no large pages, supervisor accesses, no stale
  translations). Every C load and store goes through a virtual address; an address the walk
  does not map raises a page fault. The last section states the law the rest of the
  development uses: a region of virtual addresses behaves like plain byte memory as long as
  its translation is injective and does not run through the region itself.
\<close>

section \<open>State and 32-bit words in memory\<close>

record machine =
  mem :: "u32 \<Rightarrow> u8"
  cr0 :: u32
  cr2 :: u32
  cr3 :: u32
  intf :: bool

definition get32 :: "(u32 \<Rightarrow> u8) \<Rightarrow> u32 \<Rightarrow> u32" where
  "get32 m a = le32 (m a) (m (a + 1)) (m (a + 2)) (m (a + 3))"

definition put32 :: "(u32 \<Rightarrow> u8) \<Rightarrow> u32 \<Rightarrow> u32 \<Rightarrow> (u32 \<Rightarrow> u8)" where
  "put32 m a v =
     m(a := byte_of 0 v, a + 1 := byte_of 1 v, a + 2 := byte_of 2 v, a + 3 := byte_of 3 v)"

section \<open>The page walk\<close>

definition paging_on :: "('a machine_scheme) \<Rightarrow> bool" where
  "paging_on s \<longleftrightarrow> cr0 s AND 0x80000000 \<noteq> 0"

definition pde_addr :: "u32 \<Rightarrow> u32 \<Rightarrow> u32" where
  "pde_addr dir va = (dir AND 0xFFFFF000) + 4 * drop_bit 22 va"

definition pte_addr :: "u32 \<Rightarrow> u32 \<Rightarrow> u32" where
  "pte_addr pde va = (pde AND 0xFFFFF000) + 4 * (drop_bit 12 va AND 0x3FF)"

definition mmu_walk :: "('a machine_scheme) \<Rightarrow> u32 \<Rightarrow> u32 option" where
  "mmu_walk s va =
     (if \<not> paging_on s then Some va
      else let pde = get32 (mem s) (pde_addr (cr3 s) va) in
        if pde AND 1 = 0 then None
        else let pte = get32 (mem s) (pte_addr pde va) in
          if pte AND 1 = 0 then None
          else Some ((pte AND 0xFFFFF000) OR (va AND 0xFFF)))"

section \<open>Loads and stores\<close>

definition load8 :: "u32 \<Rightarrow> ('a machine_scheme, u8) kernel" where
  "load8 va s =
     (case mmu_walk s va of
        None \<Rightarrow> Inl (PageFault va, s)
      | Some pa \<Rightarrow> Inr (mem s pa, s))"

definition store8 :: "u32 \<Rightarrow> u8 \<Rightarrow> ('a machine_scheme, unit) kernel" where
  "store8 va b s =
     (case mmu_walk s va of
        None \<Rightarrow> Inl (PageFault va, s)
      | Some pa \<Rightarrow> Inr ((), s\<lparr>mem := (mem s)(pa := b)\<rparr>))"

text \<open>A 32-bit access translates its four bytes; the first byte without a mapping faults.\<close>

fun walk_bytes :: "('a machine_scheme) \<Rightarrow> u32 list \<Rightarrow> u32 + u32 list" where
  "walk_bytes s [] = Inr []"
| "walk_bytes s (va # vas) =
     (case mmu_walk s va of
        None \<Rightarrow> Inl va
      | Some pa \<Rightarrow> (case walk_bytes s vas of Inl bad \<Rightarrow> Inl bad | Inr pas \<Rightarrow> Inr (pa # pas)))"

definition load32 :: "u32 \<Rightarrow> ('a machine_scheme, u32) kernel" where
  "load32 va s =
     (case walk_bytes s [va, va + 1, va + 2, va + 3] of
        Inl bad \<Rightarrow> Inl (PageFault bad, s)
      | Inr pas \<Rightarrow>
          Inr (le32 (mem s (pas ! 0)) (mem s (pas ! 1)) (mem s (pas ! 2)) (mem s (pas ! 3)), s))"

definition store32 :: "u32 \<Rightarrow> u32 \<Rightarrow> ('a machine_scheme, unit) kernel" where
  "store32 va v s =
     (case walk_bytes s [va, va + 1, va + 2, va + 3] of
        Inl bad \<Rightarrow> Inl (PageFault bad, s)
      | Inr pas \<Rightarrow>
          Inr ((), s\<lparr>mem := (mem s)(pas ! 0 := byte_of 0 v, pas ! 1 := byte_of 1 v,
                                    pas ! 2 := byte_of 2 v, pas ! 3 := byte_of 3 v)\<rparr>))"

section \<open>Bytes and words\<close>

lemma get32_put32_same [simp]: "get32 (put32 m a v) a = v"
  by (simp add: get32_def put32_def)

lemma put32_put32 [simp]: "put32 (put32 m a v) a w = put32 m a w"
  by (auto simp: put32_def)

definition aligned4 :: "u32 \<Rightarrow> bool" where
  "aligned4 a \<longleftrightarrow> unat a mod 4 = 0"

lemma aligned4_plus:
  assumes "aligned4 a" and "unat k < 4"
  shows "unat (a + k) = unat a + unat k"
proof -
  have "unat a + unat k < 4294967296"
    using assms u32_less [of a] unfolding aligned4_def by presburger
  then show ?thesis by (rule unat_add_small)
qed

lemma aligned4_bytes_neq:
  assumes "aligned4 a" "aligned4 b" "a \<noteq> b" "unat i < 4" "unat j < 4"
  shows "a + i \<noteq> b + j"
proof
  assume eq: "a + i = b + j"
  have sum: "unat a + unat i = unat b + unat j"
    using aligned4_plus [OF assms(1,4)] aligned4_plus [OF assms(2,5)] eq by simp
  then have "unat a = unat b"
    using assms(1,2,4,5) unfolding aligned4_def by presburger
  with assms(3) show False by (simp add: word_unat_eq_iff)
qed

lemma get32_put32_other:
  assumes "aligned4 a" "aligned4 b" "a \<noteq> b"
  shows "get32 (put32 m a v) b = get32 m b"
proof -
  have ne: "b + j \<noteq> a + i" if "unat i < 4" "unat j < 4" for i j
    using aligned4_bytes_neq [OF assms that] by metis
  have "b + j \<noteq> a" if "unat j < 4" for j using ne [of 0 j] that by simp
  moreover have "b \<noteq> a + i" if "unat i < 4" for i using ne [of i 0] that by simp
  ultimately show ?thesis
    using ne assms(3) by (simp add: get32_def put32_def)
qed

section \<open>What a walk reads\<close>

definition word_bytes :: "u32 \<Rightarrow> u32 set" where
  "word_bytes a = {a, a + 1, a + 2, a + 3}"

definition walk_reads :: "('a machine_scheme) \<Rightarrow> u32 \<Rightarrow> u32 set" where
  "walk_reads s va =
     (if \<not> paging_on s then {}
      else let pde = get32 (mem s) (pde_addr (cr3 s) va) in
        word_bytes (pde_addr (cr3 s) va)
        \<union> (if pde AND 1 = 0 then {} else word_bytes (pte_addr pde va)))"

lemma get32_cong: "(\<And>x. x \<in> word_bytes a \<Longrightarrow> m' x = m x) \<Longrightarrow> get32 m' a = get32 m a"
  by (simp add: get32_def word_bytes_def)

lemma walk_cong:
  assumes "cr0 s' = cr0 s" "cr3 s' = cr3 s"
    and "\<And>x. x \<in> walk_reads s va \<Longrightarrow> mem s' x = mem s x"
  shows "mmu_walk s' va = mmu_walk s va" and "walk_reads s' va = walk_reads s va"
proof -
  have on: "paging_on s' = paging_on s"
    using assms(1) by (simp add: paging_on_def)
  have pde: "get32 (mem s') (pde_addr (cr3 s') va) = get32 (mem s) (pde_addr (cr3 s) va)"
    if "paging_on s"
    using assms(2,3) that by (auto intro!: get32_cong simp: walk_reads_def Let_def)
  have pte: "get32 (mem s') (pte_addr pde va) = get32 (mem s) (pte_addr pde va)"
    if "paging_on s" "pde = get32 (mem s) (pde_addr (cr3 s) va)" "pde AND 1 \<noteq> 0" for pde
    using assms(3) that by (auto intro!: get32_cong simp: walk_reads_def Let_def)
  show "mmu_walk s' va = mmu_walk s va"
    using on pde pte assms(2) by (auto simp: mmu_walk_def Let_def)
  show "walk_reads s' va = walk_reads s va"
    using on pde assms(2) by (auto simp: walk_reads_def Let_def)
qed

section \<open>Pages\<close>

text \<open>The page number and the page offset determine a walk.\<close>

lemma drop_bit_22: "drop_bit 22 (va :: u32) = drop_bit 10 (drop_bit 12 va)"
  by simp

lemma page_eq_iff: "drop_bit 12 (a :: u32) = drop_bit 12 b \<longleftrightarrow> unat a div 4096 = unat b div 4096"
  by (simp add: word_unat_eq_iff drop_bit_eq_div unat_div)

lemma frame_or_offset:
  "(f AND 0xFFFFF000) OR (va AND 0xFFF) = (f AND 0xFFFFF000) + ((va :: u32) AND 0xFFF)"
proof -
  have "(f AND 0xFFFFF000) AND (va AND 0xFFF) = (0 :: u32)"
    unfolding page_mask offset_mask by (rule bit_eqI) (auto simp: bit_simps)
  then show ?thesis by (rule disjunctive_add_eq_or [symmetric])
qed

lemma unat_frame_or_offset [addr_nat]:
  "unat ((f AND 0xFFFFF000) OR ((va :: u32) AND 0xFFF)) = unat f div 4096 * 4096 + unat va mod 4096"
proof -
  have "unat f div 4096 < 1048576" "unat va mod 4096 < 4096"
    using u32_less [of f] by (simp_all add: div_less_iff_less_mult)
  then have "unat f div 4096 * 4096 + unat va mod 4096 < 4294967296" by linarith
  then show ?thesis
    unfolding frame_or_offset
    by (subst unat_add_small) (simp_all add: addr_nat)
qed

lemma mmu_walk_same_page:
  assumes "mmu_walk s va = Some pa" and "unat va' div 4096 = unat va div 4096"
  obtains pa' where "mmu_walk s va' = Some pa'"
    and "unat pa' div 4096 = unat pa div 4096" and "unat pa' mod 4096 = unat va' mod 4096"
proof -
  have page: "drop_bit 12 va' = drop_bit 12 va" using assms(2) by (simp only: page_eq_iff)
  then have dir: "drop_bit 22 va' = drop_bit 22 va" by (simp only: drop_bit_22)
  show ?thesis
  proof (cases "paging_on s")
    case True
    with assms(1) page dir that show ?thesis
      by (auto simp: mmu_walk_def Let_def pde_addr_def pte_addr_def addr_nat split: if_splits)
  next
    case False
    with assms that show ?thesis by (simp add: mmu_walk_def)
  qed
qed

lemma mmu_walk_offset:
  assumes "mmu_walk s va = Some pa"
  shows "unat pa mod 4096 = unat va mod 4096"
  using mmu_walk_same_page [OF assms refl] assms by (metis option.inject)

text \<open>An aligned 32-bit access stays in one page, so its bytes are adjacent physically.\<close>

lemma mmu_walk_aligned4:
  assumes "mmu_walk s va = Some pa" and "aligned4 va" and "unat k < 4"
  shows "mmu_walk s (va + k) = Some (pa + k)"
proof -
  have va_k: "unat (va + k) = unat va + unat k"
    using assms(2,3) by (rule aligned4_plus)
  have off: "unat pa mod 4096 = unat va mod 4096" using assms(1) by (rule mmu_walk_offset)
  then have "aligned4 pa" using assms(2) unfolding aligned4_def by (metis page_mod_4)
  then have pa_k: "unat (pa + k) = unat pa + unat k" using assms(3) by (rule aligned4_plus)
  have "unat (va + k) div 4096 = unat va div 4096"
    using assms(2,3) unfolding va_k aligned4_def by (rule aligned_add_div)
  then obtain pa' where pa': "mmu_walk s (va + k) = Some pa'"
    "unat pa' div 4096 = unat pa div 4096" "unat pa' mod 4096 = unat (va + k) mod 4096"
    by (rule mmu_walk_same_page [OF assms(1)])
  have "(unat va + unat k) mod 4096 = unat va mod 4096 + unat k"
    using assms(2,3) unfolding aligned4_def by (rule aligned_add_mod)
  then have "unat pa' = unat (pa + k)"
    using pa'(2,3) off div_mult_mod_eq [of "unat pa" 4096] div_mult_mod_eq [of "unat pa'" 4096]
    unfolding va_k pa_k by simp
  with pa'(1) show ?thesis by (simp add: word_unat_eq_iff)
qed

lemma load32_walk:
  assumes "mmu_walk s va = Some pa" "aligned4 va"
  shows "load32 va s = Inr (get32 (mem s) pa, s)"
proof -
  have "mmu_walk s (va + 1) = Some (pa + 1)" "mmu_walk s (va + 2) = Some (pa + 2)"
    "mmu_walk s (va + 3) = Some (pa + 3)"
    using mmu_walk_aligned4 [OF assms] by simp_all
  with assms(1) show ?thesis by (simp add: load32_def get32_def eval_nat_numeral)
qed

section \<open>Regions that behave like byte memory\<close>

text \<open>
  \<open>mapped D tr s\<close>: in state \<open>s\<close> the walk sends every address of \<open>D\<close> to its \<open>tr\<close>
  address, no two to the same one, and none of these walks reads a byte that a store into
  \<open>D\<close> could change.
\<close>

definition mapped :: "u32 set \<Rightarrow> (u32 \<Rightarrow> u32) \<Rightarrow> ('a machine_scheme) \<Rightarrow> bool" where
  "mapped D tr s \<longleftrightarrow> inj_on tr D
     \<and> (\<forall>va\<in>D. mmu_walk s va = Some (tr va) \<and> walk_reads s va \<inter> tr ` D = {})"

lemma mapped_frame:
  assumes "mapped D tr s" "cr0 s' = cr0 s" "cr3 s' = cr3 s"
    and "\<And>x. x \<notin> tr ` D \<Longrightarrow> mem s' x = mem s x"
  shows "mapped D tr s'"
  unfolding mapped_def
proof (intro conjI ballI)
  show "inj_on tr D" using assms(1) by (simp add: mapped_def)
  fix va
  assume "va \<in> D"
  with assms(1) have "mmu_walk s va = Some (tr va)" and dis: "walk_reads s va \<inter> tr ` D = {}"
    by (simp_all add: mapped_def)
  moreover have "mem s' x = mem s x" if "x \<in> walk_reads s va" for x
    using that dis assms(4) by blast
  ultimately show "mmu_walk s' va = Some (tr va)" and "walk_reads s' va \<inter> tr ` D = {}"
    using walk_cong [OF assms(2,3)] by metis+
qed

lemma mapped_subset: "mapped D tr s \<Longrightarrow> E \<subseteq> D \<Longrightarrow> mapped E tr s"
  unfolding mapped_def by (meson disjoint_iff image_mono inj_on_subset subsetD)

locale byte_region =
  fixes D :: "u32 set"
    and tr :: "u32 \<Rightarrow> u32"
    and ok :: "('a machine_scheme) \<Rightarrow> bool"
  assumes walk: "ok s \<Longrightarrow> va \<in> D \<Longrightarrow> mmu_walk s va = Some (tr va)"
    and inj: "ok s \<Longrightarrow> inj_on tr D"
    and keep: "ok s \<Longrightarrow> (\<And>x. x \<notin> tr ` D \<Longrightarrow> m x = mem s x) \<Longrightarrow> ok (s\<lparr>mem := m\<rparr>)"
begin

lemma load8_region: "ok s \<Longrightarrow> va \<in> D \<Longrightarrow> load8 va s = Inr (mem s (tr va), s)"
  by (simp add: load8_def walk)

lemma store8_region:
  assumes "ok s" "va \<in> D"
  shows "store8 va b s = Inr ((), s\<lparr>mem := (mem s)(tr va := b)\<rparr>)"
    and "ok (s\<lparr>mem := (mem s)(tr va := b)\<rparr>)"
  using assms by (simp add: store8_def walk) (rule keep [OF assms(1)], use assms(2) in auto)

lemma tr_aligned4:
  assumes "ok s" "aligned4 va" "word_bytes va \<subseteq> D" "unat k < 4" "va + k \<in> D"
  shows "tr (va + k) = tr va + k"
proof -
  have "va \<in> D" using assms(3) by (simp add: word_bytes_def)
  then have "mmu_walk s (va + k) = Some (tr va + k)"
    using assms(1,2,4) walk mmu_walk_aligned4 by blast
  with assms(1,5) walk show ?thesis by simp
qed

lemma tr_word:
  assumes "ok s" "aligned4 va" "word_bytes va \<subseteq> D"
  shows "tr (va + 1) = tr va + 1" "tr (va + 2) = tr va + 2" "tr (va + 3) = tr va + 3"
    and "word_bytes (tr va) \<subseteq> tr ` D"
proof -
  have mems: "va \<in> D" "va + 1 \<in> D" "va + 2 \<in> D" "va + 3 \<in> D"
    using assms(3) by (simp_all add: word_bytes_def)
  show "tr (va + 1) = tr va + 1" "tr (va + 2) = tr va + 2" "tr (va + 3) = tr va + 3"
    using mems by (simp_all add: tr_aligned4 [OF assms])
  then show "word_bytes (tr va) \<subseteq> tr ` D"
    using mems unfolding word_bytes_def by (metis empty_subsetI image_eqI insert_subset)
qed

lemma walk_word:
  assumes "ok s" "aligned4 va" "word_bytes va \<subseteq> D"
  shows "walk_bytes s [va, va + 1, va + 2, va + 3] = Inr [tr va, tr va + 1, tr va + 2, tr va + 3]"
  using assms(3) by (simp add: walk [OF assms(1)] tr_word [OF assms] word_bytes_def)

lemma load32_region:
  assumes "ok s" "aligned4 va" "word_bytes va \<subseteq> D"
  shows "load32 va s = Inr (get32 (mem s) (tr va), s)"
  unfolding load32_def walk_word [OF assms] by (simp add: get32_def eval_nat_numeral)

lemma store32_region:
  assumes "ok s" "aligned4 va" "word_bytes va \<subseteq> D"
  shows "store32 va v s = Inr ((), s\<lparr>mem := put32 (mem s) (tr va) v\<rparr>)"
    and "ok (s\<lparr>mem := put32 (mem s) (tr va) v\<rparr>)"
proof -
  show "store32 va v s = Inr ((), s\<lparr>mem := put32 (mem s) (tr va) v\<rparr>)"
    unfolding store32_def walk_word [OF assms] by (simp add: put32_def eval_nat_numeral)
  have "put32 (mem s) (tr va) v x = mem s x" if "x \<notin> tr ` D" for x
    using tr_word(4) [OF assms] that by (auto simp: put32_def word_bytes_def)
  then show "ok (s\<lparr>mem := put32 (mem s) (tr va) v\<rparr>)" by (rule keep [OF assms(1)])
qed

end

text \<open>
  The two regions of this machine: any mapped set of virtual addresses, and the whole
  address space while paging is off.
\<close>

interpretation vm: byte_region D tr "mapped D tr" for D tr
proof unfold_locales
  fix s :: "'a machine_scheme" and m
  assume ok: "mapped D tr s" and same: "\<And>x. x \<notin> tr ` D \<Longrightarrow> m x = mem s x"
  show "mapped D tr (s\<lparr>mem := m\<rparr>)" by (rule mapped_frame [OF ok]) (simp_all add: same)
qed (simp_all add: mapped_def)

interpretation flat: byte_region UNIV "\<lambda>va. va" "\<lambda>s. \<not> paging_on s"
  by unfold_locales (auto simp: mmu_walk_def paging_on_def)

end
