(* ===== verification/Io.thy ===== *)
theory Io
  imports Prelude
begin

text \<open>
  Port input and output (\<^verbatim>\<open>src/kernel/io.c\<close>): the bytes the kernel sends to the ports, in
  the order it sends them, and the byte each port would return when read.
\<close>

record io =
  port_out :: "(u16 \<times> u8) list"
  port_in :: "u16 \<Rightarrow> u8"

definition outb :: "u16 \<Rightarrow> u8 \<Rightarrow> 'a io_scheme \<Rightarrow> 'a io_scheme" where
  "outb port bytes s = s\<lparr>port_out := port_out s @ [(port, bytes)]\<rparr>"

definition inb :: "u16 \<Rightarrow> 'a io_scheme \<Rightarrow> u8" where
  "inb port s = port_in s port"

lemma port_out_outb [simp]: "port_out (outb p b s) = port_out s @ [(p, b)]"
  by (simp add: outb_def)

lemma inb_outb [simp]: "inb q (outb p b s) = inb q s"
  by (simp add: inb_def outb_def)

end
