(* ===== verification/Vga.thy ===== *)
theory Vga
  imports Io
begin

unbundle bit_operations_syntax

text \<open>
  The VGA text-mode driver (\<^verbatim>\<open>src/drivers/vga.c\<close>, \<^verbatim>\<open>include/vga.h\<close>): the driver's static
  record, the 16-bit cells behind its buffer pointer (indexed by their address, kept apart
  from ordinary memory because the window at \<open>0xB8000\<close> is the adapter's), writing a character,
  starting a new line, scrolling, clearing, and programming the hardware cursor.
\<close>

section \<open>Data\<close>

datatype vga_color =
    COLOR_BLACK | COLOR_BLUE | COLOR_GREEN | COLOR_CYAN
  | COLOR_RED | COLOR_MAGENTA | COLOR_BROWN | COLOR_GREY
  | COLOR_DARK_GREY | COLOR_BRIGHT_BLUE | COLOR_BRIGHT_GREEN | COLOR_BRIGHT_CYAN
  | COLOR_BRIGHT_RED | COLOR_BRIGHT_MAGENTA | COLOR_YELLOW | COLOR_WHITE

fun color_code :: "vga_color \<Rightarrow> u32" where
  "color_code COLOR_BLACK = 0"
| "color_code COLOR_BLUE = 1"
| "color_code COLOR_GREEN = 2"
| "color_code COLOR_CYAN = 3"
| "color_code COLOR_RED = 4"
| "color_code COLOR_MAGENTA = 5"
| "color_code COLOR_BROWN = 6"
| "color_code COLOR_GREY = 7"
| "color_code COLOR_DARK_GREY = 8"
| "color_code COLOR_BRIGHT_BLUE = 9"
| "color_code COLOR_BRIGHT_GREEN = 10"
| "color_code COLOR_BRIGHT_CYAN = 11"
| "color_code COLOR_BRIGHT_RED = 12"
| "color_code COLOR_BRIGHT_MAGENTA = 13"
| "color_code COLOR_YELLOW = 14"
| "color_code COLOR_WHITE = 15"

definition VGA_ADDRESS :: u32 where "VGA_ADDRESS = 0xB8000"
definition VGA_CRTC_INDEX :: u16 where "VGA_CRTC_INDEX = 0x3D4"
definition VGA_CRTC_DATA :: u16 where "VGA_CRTC_DATA = 0x3D5"
definition VGA_MAX :: nat where "VGA_MAX = 320 * 200"
definition VGA_WIDTH :: nat where "VGA_WIDTH = 80"
definition VGA_HEIGHT :: nat where "VGA_HEIGHT = 24"

record vga = io +
  vga_x :: u8
  vga_y :: u8
  vga_ptr :: u32
  vga_pos :: u32
  vram :: "u32 \<Rightarrow> u16"

text \<open>The address of element \<open>i\<close> of a \<open>uint16\<close> array.\<close>

definition cell :: "u32 \<Rightarrow> u32 \<Rightarrow> u32" where
  "cell base i = base + 2 * i"

section \<open>Operations\<close>

definition vga_item_entry :: "u8 \<Rightarrow> vga_color \<Rightarrow> vga_color \<Rightarrow> u16" where
  "vga_item_entry ch fore_color back_color =
     (let ah = ucast (color_code back_color) :: u8;
          ah = push_bit 4 ah;
          ah = ah OR ucast (color_code fore_color);
          ax = ucast ah :: u16;
          ax = push_bit 8 ax;
          al = ch
      in ax OR ucast al)"

definition vga_position_cursor :: "u8 \<Rightarrow> u8 \<Rightarrow> 'a vga_scheme \<Rightarrow> 'a vga_scheme" where
  "vga_position_cursor x y s =
     (let cursorLocation = ucast y * of_nat VGA_WIDTH + ucast x :: u16
      in (outb VGA_CRTC_DATA (ucast cursorLocation)
         \<circ> outb VGA_CRTC_INDEX 15
         \<circ> outb VGA_CRTC_DATA (ucast (drop_bit 8 cursorLocation))
         \<circ> outb VGA_CRTC_INDEX 14) s)"

definition copy_cell :: "nat \<Rightarrow> 'a vga_scheme \<Rightarrow> 'a vga_scheme" where
  "copy_cell i s = s\<lparr>vram := (vram s)(cell (vga_ptr s) (of_nat i) :=
                               vram s (cell (vga_ptr s) (of_nat (i + VGA_WIDTH))))\<rparr>"

definition scroll :: "vga_color \<Rightarrow> vga_color \<Rightarrow> 'a vga_scheme \<Rightarrow> 'a vga_scheme" where
  "scroll fore_color back_color s =
     (let s = for_loop (2200 - 80) copy_cell s;
          s = s\<lparr>vga_x := 0\<rparr>;
          s = s\<lparr>vga_pos := ucast (vga_y s) * of_nat VGA_WIDTH\<rparr>
      in s\<lparr>vga_y := of_nat VGA_HEIGHT\<rparr>)"

definition vga_write_b :: "u8 \<Rightarrow> vga_color \<Rightarrow> vga_color \<Rightarrow> 'a vga_scheme \<Rightarrow> 'a vga_scheme" where
  "vga_write_b ch fore_color back_color s =
     (let s = s\<lparr>vram := (vram s)(cell (vga_ptr s) (vga_pos s) :=
                                  vga_item_entry ch fore_color back_color),
                vga_pos := vga_pos s + 1\<rparr>;
          s = s\<lparr>vga_x := vga_x s + 1\<rparr>
      in vga_position_cursor (vga_x s) (vga_y s) s)"

definition vga_clear :: "vga_color \<Rightarrow> 'a vga_scheme \<Rightarrow> 'a vga_scheme" where
  "vga_clear bg s =
     for_loop VGA_MAX
       (\<lambda>i s. s\<lparr>vram := (vram s)(cell VGA_ADDRESS (of_nat i) := ucast (color_code bg))\<rparr>) s"

definition vga_init :: "vga_color \<Rightarrow> 'a vga_scheme \<Rightarrow> 'a vga_scheme" where
  "vga_init bg s =
     (let s = vga_clear bg s
      in s\<lparr>vga_x := 0, vga_y := 0, vga_pos := 0, vga_ptr := VGA_ADDRESS\<rparr>)"

definition vga_newline :: "vga_color \<Rightarrow> vga_color \<Rightarrow> 'a vga_scheme \<Rightarrow> 'a vga_scheme" where
  "vga_newline fore_color back_color s =
     (if unat (vga_y s) \<ge> VGA_HEIGHT then
        (let s = scroll fore_color back_color s
         in vga_position_cursor (vga_x s) (vga_y s) s)
      else
        (let s = s\<lparr>vga_pos := (ucast (vga_y s) + 1) * of_nat VGA_WIDTH, vga_x := 0,
                   vga_y := vga_y s + 1\<rparr>
         in vga_position_cursor (vga_x s) (vga_y s) s))"

section \<open>The cell format\<close>

lemma color_code_bit: "bit (color_code c) n \<Longrightarrow> n < 4"
proof -
  have "take_bit 4 (color_code c) = color_code c" by (cases c) simp_all
  then show "bit (color_code c) n \<Longrightarrow> n < 4" by (metis bit_take_bit_iff)
qed

lemma item_entry_char: "ucast (vga_item_entry ch f b) = ch"
  by (rule bit_word_eqI) (auto simp: vga_item_entry_def Let_def bit_simps)

lemma item_entry_fore: "ucast (drop_bit 8 (vga_item_entry ch f b)) AND 15 = color_code f"
proof -
  have "ucast (drop_bit 8 (vga_item_entry ch f b)) AND (mask 4 :: u32) = color_code f"
    by (rule bit_word_eqI)
      (auto simp: vga_item_entry_def Let_def bit_simps dest: color_code_bit bit_imp_le_length)
  then show ?thesis by (simp add: mask_eq_exp_minus_1)
qed

lemma item_entry_back: "ucast (drop_bit 12 (vga_item_entry ch f b)) = color_code b"
  by (rule bit_word_eqI)
    (auto simp: vga_item_entry_def Let_def bit_simps dest: color_code_bit bit_imp_le_length)

section \<open>Cells\<close>

lemma cell_eq_iff:
  assumes "i < 2147483648" "j < 2147483648"
  shows "cell b (of_nat i) = cell b (of_nat j) \<longleftrightarrow> i = j"
proof -
  have "cell b (of_nat i) = cell b (of_nat j) \<longleftrightarrow> (of_nat (2 * i) :: u32) = of_nat (2 * j)"
    by (simp add: cell_def)
  also have "\<dots> \<longleftrightarrow> i = j"
    using assms by (simp add: word_unat_eq_iff addr_nat del: of_nat_mult)
  finally show ?thesis .
qed

lemma copy_loop:
  assumes "n \<le> 2120"
  shows "for_loop n copy_cell s =
    s\<lparr>vram := \<lambda>a. if \<exists>j<n. a = cell (vga_ptr s) (of_nat j) then vram s (a + 160) else vram s a\<rparr>"
  using assms
proof (induction n)
  case 0
  show ?case by simp
next
  case (Suc n)
  define p where "p = vga_ptr s"
  define F where "F k = (\<lambda>a. if \<exists>j<k. a = cell p (of_nat j) then vram s (a + 160) else vram s a)"
    for k :: nat
  have next_row: "cell p (of_nat (n + 80)) = cell p (of_nat n) + 160"
    by (simp add: cell_def)
  have "\<not> (\<exists>j<n. cell p (of_nat n) + 160 = cell p (of_nat j))"
    unfolding next_row [symmetric]
  proof safe
    fix j
    assume "j < n" "cell p (of_nat (n + 80)) = cell p (of_nat j)"
    then show False using cell_eq_iff [of "n + 80" j p] Suc.prems by simp
  qed
  then have "(F n)(cell p (of_nat n) := F n (cell p (of_nat (n + 80)))) = F (Suc n)"
    unfolding next_row F_def by (auto simp: fun_eq_iff less_Suc_eq)
  moreover have "for_loop n copy_cell s = s\<lparr>vram := F n\<rparr>"
    using Suc unfolding F_def p_def by simp
  ultimately have "for_loop (Suc n) copy_cell s = s\<lparr>vram := F (Suc n)\<rparr>"
    by (simp add: copy_cell_def VGA_WIDTH_def p_def del: of_nat_add)
  then show ?case unfolding F_def p_def .
qed

text \<open>Scrolling moves the 2120 cells after the first row up by one row, whatever they hold.\<close>

lemma scroll_eq:
  "scroll f b s = s\<lparr>vram := (\<lambda>a. if \<exists>j<2120. a = cell (vga_ptr s) (of_nat j)
                                   then vram s (a + 160) else vram s a),
                    vga_x := 0, vga_pos := ucast (vga_y s) * 80, vga_y := 24\<rparr>"
  by (simp add: scroll_def copy_loop Let_def VGA_WIDTH_def VGA_HEIGHT_def)

section \<open>The cursor\<close>

text \<open>
  \<open>vga_at y c s\<close>: the driver stands on row \<open>y\<close> with \<open>c\<close> characters written since the line
  began, its buffer pointer is the adapter's window, and its three position fields agree.
\<close>

definition vga_at :: "nat \<Rightarrow> nat \<Rightarrow> 'a vga_scheme \<Rightarrow> bool" where
  "vga_at y c s \<longleftrightarrow> y \<le> 24 \<and> vga_ptr s = VGA_ADDRESS \<and> vga_y s = of_nat y
     \<and> vga_x s = of_nat c \<and> vga_pos s = of_nat (80 * y + c)"

definition next_row :: "nat \<Rightarrow> nat" where
  "next_row y = (if y < 24 then Suc y else 24)"

lemma vga_position_cursor_frame [simp]:
  "vga_x (vga_position_cursor x y s) = vga_x s" "vga_y (vga_position_cursor x y s) = vga_y s"
  "vga_ptr (vga_position_cursor x y s) = vga_ptr s"
  "vga_pos (vga_position_cursor x y s) = vga_pos s"
  "vram (vga_position_cursor x y s) = vram s"
  "vga.more (vga_position_cursor x y s) = vga.more s"
  by (simp_all add: vga_position_cursor_def Let_def outb_def)

lemma vga_at_init: "vga_at 0 0 (vga_init bg s)"
  by (simp add: vga_at_def vga_init_def Let_def)

lemma vga_at_write: "vga_at y c s \<Longrightarrow> vga_at y (Suc c) (vga_write_b ch f b s)"
  by (simp add: vga_at_def vga_write_b_def Let_def)

lemma vga_at_newline:
  assumes "vga_at y c s"
  shows "vga_at (next_row y) 0 (vga_newline f b s)"
proof -
  have "y \<le> 24" "vga_y s = of_nat y" using assms by (simp_all add: vga_at_def)
  then have y: "unat (vga_y s) = y" "ucast (vga_y s) = (of_nat y :: u32)" "y \<le> 24"
    by (simp_all add: unat_of_nat unsigned_of_nat take_bit_nat_eq_self)
  with assms show ?thesis
    by (cases "y = 24")
      (simp_all add: vga_at_def next_row_def vga_newline_def Let_def scroll_eq VGA_HEIGHT_def VGA_WIDTH_def)
qed

section \<open>Properties\<close>

text \<open>
  A cell of the text buffer stores exactly what it was built from: the character in its low
  byte, the foreground colour in bits 8 to 11 and the background colour in bits 12 to 15.
\<close>

lemma vga_cell_format:
  "ucast (vga_item_entry ch f b) = ch
   \<and> ucast (drop_bit 8 (vga_item_entry ch f b)) AND 15 = color_code f
   \<and> ucast (drop_bit 12 (vga_item_entry ch f b)) = color_code b"
  using item_entry_char item_entry_fore item_entry_back by blast

lemma cursor_bytes:
  assumes "n < 65536"
  shows "256 * unat (ucast (drop_bit 8 (of_nat n :: u16)) :: u8) + unat (ucast (of_nat n :: u16) :: u8) = n"
proof -
  have n: "unat (of_nat n :: u16) = n" using assms by (simp add: unat_of_nat)
  have "unat (ucast (drop_bit 8 (of_nat n :: u16)) :: u8) = n div 256"
    using assms by (simp add: unsigned_ucast_eq take_bit_eq_mod drop_bit_eq_div unat_div n
        div_less_iff_less_mult)
  moreover have "unat (ucast (of_nat n :: u16) :: u8) = n mod 256"
    by (simp add: unsigned_ucast_eq n take_bit_eq_mod)
  ultimately show ?thesis by simp
qed

text \<open>
  Writing a character programs the hardware cursor: the two bytes sent to the CRT
  controller's cursor registers 14 and 15 are the high and low byte of the position after the
  character, as long as the line holds fewer than 255 characters.
\<close>

lemma vga_cursor_follows:
  assumes "vga_at y c s" "c < 255"
  shows "\<exists>hi lo. port_out (vga_write_b ch f b s) =
      port_out s @ [(0x3D4, 14), (0x3D5, hi), (0x3D4, 15), (0x3D5, lo)]
    \<and> 256 * unat hi + unat lo = unat (vga_pos (vga_write_b ch f b s))"
proof -
  define n where "n = 80 * y + Suc c"
  have y: "y \<le> 24" "vga_y s = of_nat y" "vga_x s + 1 = of_nat (Suc c)" "vga_pos s + 1 = of_nat n"
    using assms(1) by (simp_all add: vga_at_def n_def)
  have n: "n < 65536" using y(1) assms(2) by (simp add: n_def)
  have "ucast (vga_y s) = (of_nat y :: u16)" "ucast (vga_x s + 1) = (of_nat (Suc c) :: u16)"
    unfolding y(2,3) using y(1) assms(2)
    by (simp_all add: unsigned_of_nat take_bit_nat_eq_self del: of_nat_Suc)
  then have "ucast (vga_y s) * of_nat VGA_WIDTH + ucast (vga_x s + 1) = (of_nat n :: u16)"
    by (simp add: n_def VGA_WIDTH_def)
  moreover have "unat (of_nat n :: u32) = n" using n by (simp add: addr_nat)
  ultimately show ?thesis
    using cursor_bytes [OF n] y(4)
    by (simp add: vga_write_b_def vga_position_cursor_def Let_def VGA_CRTC_INDEX_def VGA_CRTC_DATA_def
        outb_def)
qed

definition blank_vga :: vga where
  "blank_vga = \<lparr>port_out = [], port_in = (\<lambda>_. 0), vga_x = 0, vga_y = 0, vga_ptr = VGA_ADDRESS,
                vga_pos = 0, vram = (\<lambda>_. 0)\<rparr>"

end
