(* ===== verification/Screen.thy ===== *)
theory Screen
  imports Vga
begin

unbundle bit_operations_syntax

text \<open>
  The screen (\<^verbatim>\<open>src/kernel/screen.c\<close>): the background colour chosen at initialisation and
  the routing of characters to the VGA driver, a line feed starting a new line and a NUL
  byte being dropped. The locale states what the screen needs of a character device.
\<close>

record console = vga +
  screen_bg :: vga_color

definition screen_init :: "vga_color \<Rightarrow> 'a console_scheme \<Rightarrow> 'a console_scheme" where
  "screen_init bg s = (vga_init bg s)\<lparr>screen_bg := bg\<rparr>"

definition char_process :: "u8 \<Rightarrow> 'a console_scheme \<Rightarrow> 'a console_scheme" where
  "char_process c s =
     (if c = 10 then vga_newline COLOR_WHITE (screen_bg s) s
      else if c = 0 then s
      else vga_write_b c COLOR_WHITE (screen_bg s) s)"

text \<open>The text is the bytes before the terminating NUL.\<close>

fun screen_put_text :: "u8 list \<Rightarrow> 'a console_scheme \<Rightarrow> 'a console_scheme" where
  "screen_put_text [] s = s"
| "screen_put_text (c # chars) s = screen_put_text chars (char_process c s)"

definition screen_put :: "u8 \<Rightarrow> 'a console_scheme \<Rightarrow> 'a console_scheme" where
  "screen_put c s = char_process c s"

definition screen_clean :: "'a console_scheme \<Rightarrow> 'a console_scheme" where
  "screen_clean s = vga_clear (screen_bg s) s"

lemma screen_bg_char_process [simp]: "screen_bg (char_process c s) = screen_bg s"
  by (simp add: char_process_def vga_newline_def vga_write_b_def scroll_eq Let_def
      vga_position_cursor_def outb_def)

lemma screen_bg_put_text [simp]: "screen_bg (screen_put_text t s) = screen_bg s"
  by (induction t s rule: screen_put_text.induct) auto

section \<open>Where text goes\<close>

text \<open>
  The position after a text: a line feed goes to the start of the next row (staying on the
  last one), a NUL byte nowhere, any other byte one column on. Columns are not wrapped.
\<close>

fun advance :: "u8 list \<Rightarrow> nat \<times> nat \<Rightarrow> nat \<times> nat" where
  "advance [] p = p"
| "advance (ch # chars) (y, c) =
     advance chars (if ch = 10 then (next_row y, 0) else if ch = 0 then (y, c) else (y, Suc c))"

locale text_device =
  fixes put :: "u8 \<Rightarrow> 's \<Rightarrow> 's"
    and stands :: "nat \<Rightarrow> nat \<Rightarrow> 's \<Rightarrow> bool"
  assumes put_newline: "stands y c s \<Longrightarrow> stands (next_row y) 0 (put 10 s)"
    and put_nul: "stands y c s \<Longrightarrow> stands y c (put 0 s)"
    and put_char: "stands y c s \<Longrightarrow> ch \<noteq> 10 \<Longrightarrow> ch \<noteq> 0 \<Longrightarrow> stands y (Suc c) (put ch s)"
begin

lemma stands_feed:
  "stands y c s \<Longrightarrow> stands (fst (advance chars (y, c))) (snd (advance chars (y, c))) (fold put chars s)"
proof (induction chars arbitrary: y c s)
  case Nil
  then show ?case by simp
next
  case (Cons ch chars)
  then show ?case by (simp add: put_newline put_nul put_char)
qed

end

interpretation tty: text_device screen_put vga_at
proof unfold_locales
  fix y c and s :: "'a console_scheme"
  assume s: "vga_at y c s"
  show "vga_at (next_row y) 0 (screen_put 10 s)"
    using vga_at_newline [OF s] by (simp add: screen_put_def char_process_def)
  show "vga_at y c (screen_put 0 s)"
    using s by (simp add: screen_put_def char_process_def)
  show "vga_at y (Suc c) (screen_put ch s)" if "ch \<noteq> 10" "ch \<noteq> 0" for ch
    using that vga_at_write [OF s] by (simp add: screen_put_def char_process_def)
qed

lemma screen_put_text_fold: "screen_put_text chars s = fold screen_put chars s"
  by (induction chars s rule: screen_put_text.induct) (simp_all add: screen_put_def)

section \<open>What is on the screen\<close>

definition screen_cell :: "'a console_scheme \<Rightarrow> nat \<Rightarrow> u16" where
  "screen_cell s i = vram s (cell VGA_ADDRESS (of_nat i))"

definition plain :: "u8 \<Rightarrow> bool" where
  "plain ch \<longleftrightarrow> ch \<noteq> 10 \<and> ch \<noteq> 0"

lemma screen_cell_plain:
  assumes "vga_at y c s" "plain ch" "i < 2147483648" "80 * y + c < 2147483648"
  shows "screen_cell (char_process ch s) i =
    (if i = 80 * y + c then vga_item_entry ch COLOR_WHITE (screen_bg s) else screen_cell s i)"
  using assms cell_eq_iff [OF assms(3,4), of VGA_ADDRESS]
  by (simp add: screen_cell_def plain_def char_process_def vga_write_b_def Let_def vga_at_def)

lemma vga_at_plain: "vga_at y c s \<Longrightarrow> plain ch \<Longrightarrow> vga_at y (Suc c) (char_process ch s)"
  using tty.put_char [of y c s ch] by (simp add: plain_def screen_put_def)

lemma screen_cell_text:
  assumes "vga_at y c s" "list_all plain chars" "i < 2147483648"
    "80 * y + c + length chars < 2147483648"
  shows "screen_cell (screen_put_text chars s) i =
    (if 80 * y + c \<le> i \<and> i < 80 * y + c + length chars
     then vga_item_entry (chars ! (i - (80 * y + c))) COLOR_WHITE (screen_bg s)
     else screen_cell s i)"
  using assms
proof (induction chars arbitrary: c s)
  case Nil
  then show ?case by auto
next
  case (Cons ch chars)
  then have "vga_at y (Suc c) (char_process ch s)" by (simp add: vga_at_plain)
  moreover have "80 * y + Suc c + length chars < 2147483648" using Cons.prems by simp
  ultimately have "screen_cell (screen_put_text chars (char_process ch s)) i =
    (if 80 * y + Suc c \<le> i \<and> i < 80 * y + Suc c + length chars
     then vga_item_entry (chars ! (i - (80 * y + Suc c))) COLOR_WHITE (screen_bg s)
     else screen_cell (char_process ch s) i)"
    using Cons.IH [of "Suc c" "char_process ch s"] Cons.prems by simp
  moreover have "screen_cell (char_process ch s) i =
    (if i = 80 * y + c then vga_item_entry ch COLOR_WHITE (screen_bg s) else screen_cell s i)"
    by (rule screen_cell_plain) (use Cons.prems in auto)
  ultimately show ?case by (auto simp: nth_Cons' Suc_diff_le diff_Suc split: nat.splits)
qed

lemma screen_cell_scroll:
  assumes "vga_at 24 c s" "i < 2120"
  shows "screen_cell (char_process 10 s) i = screen_cell s (i + 80)"
proof -
  have "unat (vga_y s) = 24" "vga_ptr s = VGA_ADDRESS" using assms(1) by (simp_all add: vga_at_def)
  moreover have "cell VGA_ADDRESS (of_nat (i + 80)) = cell VGA_ADDRESS (of_nat i) + 160"
    by (simp add: cell_def)
  ultimately show ?thesis
    using assms(2)
    by (auto simp: screen_cell_def char_process_def vga_newline_def VGA_HEIGHT_def Let_def
        scroll_eq simp del: of_nat_add)
qed

section \<open>Properties\<close>


text \<open>
  A text of printing characters appears in the cells from the cursor on, in order, white on
  the screen's background, and no other cell changes.
\<close>

lemma screen_text_shown:
  assumes "vga_at y c s" "list_all plain chars" "i < 2147483648"
    "80 * y + c + length chars < 2147483648"
  shows "screen_cell (screen_put_text chars s) i =
    (if 80 * y + c \<le> i \<and> i < 80 * y + c + length chars
     then vga_item_entry (chars ! (i - (80 * y + c))) COLOR_WHITE (screen_bg s)
     else screen_cell s i)"
  by (rule screen_cell_text [OF assms])

text \<open>
  A line feed on the last row scrolls: every cell of the first 26 rows and a half takes the
  value of the cell one row below it, and the cursor goes to the start of the last row.
\<close>

lemma newline_scrolls:
  assumes "vga_at 24 c s" "i < 2120"
  shows "screen_cell (screen_put 10 s) i = screen_cell s (i + 80) \<and> vga_at 24 0 (screen_put 10 s)"
  using screen_cell_scroll [OF assms] tty.put_newline [OF assms(1)]
  by (simp add: screen_put_def next_row_def)

text \<open>A screen on which the properties are applied.\<close>

definition blank_console :: "u8 \<Rightarrow> console" where
  "blank_console y = \<lparr>port_out = [], port_in = (\<lambda>_. 0), vga_x = 0, vga_y = y, vga_ptr = VGA_ADDRESS,
     vga_pos = 80 * ucast y, vram = (\<lambda>a. ucast a), screen_bg = COLOR_BLUE\<rparr>"

lemma blank_console_at: "vga_at 0 0 (blank_console 0)" "vga_at 24 0 (blank_console 24)"
  by (simp_all add: vga_at_def blank_console_def)


end
