(* ===== verification/Stdio.thy ===== *)
theory Stdio
  imports Screen
begin

unbundle bit_operations_syntax

text \<open>
  Formatted output (\<^verbatim>\<open>src/libc/stdio.c\<close>, \<^verbatim>\<open>include/stdarg.h\<close>). A C string is the list of its
  characters before the terminating NUL. The variable argument area is the sequence of its
  byte-sized units: a byte of a number, or a fragment of a pointer to a string. \<open>va_arg\<close>
  consumes exactly \<open>sizeof(T)\<close> units, as the macro does. Output goes to the screen or is
  stored through the caller's buffer pointer. \<open>render\<close> is the specification: the characters a
  format and its arguments stand for, independent of where they go.
\<close>

section \<open>Output\<close>

datatype sink = Screen console | Buffer string

fun outchar :: "sink \<Rightarrow> char \<Rightarrow> u32 \<times> sink" where
  "outchar (Buffer b) c = (1, Buffer (b @ [c]))"
| "outchar (Screen con) c = (1, Screen (screen_put (of_char c) con))"

text \<open>\<open>cw += outchar(out, c)\<close> on the pair of the count and the output.\<close>

definition emit :: "char \<Rightarrow> u32 \<times> sink \<Rightarrow> u32 \<times> sink" where
  "emit c st = (let (n, out) = outchar (snd st) c in (fst st + n, out))"

text \<open>\<open>while(*string) cw += outchar(out, *string++)\<close>\<close>

primrec put_str :: "string \<Rightarrow> u32 \<times> sink \<Rightarrow> u32 \<times> sink" where
  "put_str [] st = st"
| "put_str (c # cs) st = put_str cs (emit c st)"

text \<open>\<open>while(width--) cw += outchar(out, padc)\<close>\<close>

primrec put_pad :: "char \<Rightarrow> nat \<Rightarrow> u32 \<times> sink \<Rightarrow> u32 \<times> sink" where
  "put_pad c 0 st = st"
| "put_pad c (Suc n) st = put_pad c n (emit c st)"

definition LEFT_JUST :: u32 where "LEFT_JUST = 0x1"
definition SHOW_SIGN :: u32 where "SHOW_SIGN = 0x2"
definition HIDE_SIGN :: u32 where "HIDE_SIGN = 0x4"
definition DISP_HEXD :: u32 where "DISP_HEXD = 0x8"
definition PADW_ZERO :: u32 where "PADW_ZERO = 0x10"
definition DATA_LONG :: u32 where "DATA_LONG = 0x1"
definition DATA_LLGN :: u32 where "DATA_LLGN = 0x2"
definition DATA_SHRT :: u32 where "DATA_SHRT = 0x4"

lemmas stdio_flags = LEFT_JUST_def SHOW_SIGN_def HIDE_SIGN_def DISP_HEXD_def PADW_ZERO_def
  DATA_LONG_def DATA_LLGN_def DATA_SHRT_def

definition prints :: "sink \<Rightarrow> string \<Rightarrow> u32 \<Rightarrow> u32 \<Rightarrow> u32 \<times> sink" where
  "prints out str width flags =
     (let len = of_nat (length str) :: u32;
          hexd = ''0x'';
          fits = sint len \<ge> sint width;
          padc = (if \<not> fits \<and> flags AND PADW_ZERO \<noteq> 0 then CHR ''0'' else CHR '' '');
          width = (if fits then 0 else width - len);
          st = (0, out)
      in if flags AND LEFT_JUST \<noteq> 0 then
           (let st = (if flags AND DISP_HEXD \<noteq> 0 then put_str hexd st else st)
            in if width \<noteq> 0 then
                 (if flags AND PADW_ZERO \<noteq> 0 then put_str str (put_pad padc (unat width) st)
                  else put_pad padc (unat width) (put_str str st))
               else put_str str st)
         else
           (let st =
              (if width \<noteq> 0 \<and> flags AND PADW_ZERO = 0 then
                 (let st = put_pad padc (unat width) st
                  in if flags AND DISP_HEXD \<noteq> 0 then put_str hexd st else st)
               else if width \<noteq> 0 \<and> flags AND PADW_ZERO \<noteq> 0 then
                 (let st = (if flags AND DISP_HEXD \<noteq> 0 then put_str hexd st else st)
                  in put_pad padc (unat width) st)
               else if flags AND DISP_HEXD \<noteq> 0 then put_str hexd st else st)
            in put_str str st))"

section \<open>Numbers\<close>

lemma sint_ge_2_unat:
  assumes "2 \<le> sint (w :: u32)"
  shows "2 \<le> unat w"
proof -
  have "sint w < 2 ^ 32" using sint_lt [of w] by simp
  with assms have "uint w = sint w" by (simp add: uint_sint take_bit_int_eq_self)
  with assms have "nat 2 \<le> nat (uint w)" by (intro nat_mono) simp
  then show ?thesis by simp
qed

text \<open>
  The digit loop writes the buffer from its end towards its start; \<open>buf\<close> is what has been
  written. The loop is entered with a base of at least two only.
\<close>

function digits :: "u32 \<Rightarrow> u32 \<Rightarrow> char \<Rightarrow> string \<Rightarrow> string" where
  "digits u base convbase buf =
     (if u = 0 \<or> sint base < 2 then buf
      else let rem = u mod base;
               c = (if rem \<ge> 10 then char_of (unat rem - 10 + of_char convbase :: nat)
                    else char_of (unat rem + of_char (CHR ''0'') :: nat))
           in digits (u div base) base convbase (c # buf))"
  by pat_completeness auto
termination
proof (relation "measure (\<lambda>(u, base, convbase, buf). unat u)")
  fix u base :: u32 and convbase :: char and buf :: string and x xa
  assume "\<not> (u = 0 \<or> sint base < 2)"
  then have "u \<noteq> 0" "2 \<le> unat base" using sint_ge_2_unat [of base] by auto
  then have "unat u div unat base < unat u" by (simp add: unat_gt_0)
  then show "((u div base, base, convbase, xa # buf), u, base, convbase, buf)
    \<in> measure (\<lambda>(u, base, convbase, buf). unat u)"
    by (simp add: unat_div)
qed simp

declare digits.simps [simp del]

definition printi :: "sink \<Rightarrow> u32 \<Rightarrow> u32 \<Rightarrow> bool \<Rightarrow> u32 \<Rightarrow> u32 \<Rightarrow> char \<Rightarrow> u32 \<times> sink" where
  "printi out num base sign width flags convbase =
     (if sint base < 2 then (0, out)
      else let flags = (if base \<noteq> 16 then flags AND NOT DISP_HEXD else flags)
      in if num = 0 then prints out ''0'' width flags
      else let neg = (sign \<and> base = 10 \<and> sint num < 0);
               u = (if neg then - num else num);
               iter = digits u base convbase []
      in if flags AND HIDE_SIGN = 0 \<and> base = 10 then
           (if flags AND PADW_ZERO \<noteq> 0 then
              (let (st, width) =
                 (if flags AND SHOW_SIGN \<noteq> 0 \<and> \<not> neg then (emit (CHR ''+'') (0, out), width - 1)
                  else ((0, out), width));
                   (st, width) =
                 (if neg then (emit (CHR ''-'') st, width - 1) else (st, width));
                   (n, out) = prints (snd st) iter width flags
               in (fst st + n, out))
            else
              (let iter = (if flags AND SHOW_SIGN \<noteq> 0 \<and> \<not> neg then CHR ''+'' # iter else iter);
                   iter = (if neg then CHR ''-'' # iter else iter)
               in prints out iter width flags))
         else prints out iter width flags)"

section \<open>The argument area\<close>

datatype vunit = Byte u8 | Frag string nat

datatype varg = VInt u32 | VStr string

type_synonym va_list = "vunit list"

fun arg_units :: "varg \<Rightarrow> va_list" where
  "arg_units (VInt w) = [Byte (byte_of 0 w), Byte (byte_of 1 w), Byte (byte_of 2 w), Byte (byte_of 3 w)]"
| "arg_units (VStr str) = [Frag str 0, Frag str 1, Frag str 2, Frag str 3]"

definition va_start :: "varg list \<Rightarrow> va_list" where
  "va_start args = concat (map arg_units args)"

text \<open>\<open>va_arg\<close> of a type of \<open>n\<close> bytes: the units at the pointer, and the pointer advanced.\<close>

definition va_arg :: "nat \<Rightarrow> va_list \<Rightarrow> (va_list \<times> va_list) option" where
  "va_arg n ap = (if length ap < n then None else Some (take n ap, drop n ap))"

fun arg32 :: "va_list \<Rightarrow> varg option" where
  "arg32 [Byte a, Byte b, Byte c, Byte d] = Some (VInt (le32 a b c d))"
| "arg32 [Frag s0 i, Frag s1 j, Frag s2 k, Frag s3 l] =
     (if s1 = s0 \<and> s2 = s0 \<and> s3 = s0 \<and> [i, j, k, l] = [0, 1, 2, 3] then Some (VStr s0) else None)"
| "arg32 us = None"

fun arg16 :: "va_list \<Rightarrow> u16 option" where
  "arg16 [Byte a, Byte b] = Some (ucast a OR push_bit 8 (ucast b))"
| "arg16 us = None"

text \<open>The integer conversions: \<open>long\<close> is as wide as \<open>int\<close>, so only \<open>h\<close> changes the size.\<close>

definition int_arg :: "u32 \<Rightarrow> bool \<Rightarrow> va_list \<Rightarrow> (u32 \<times> va_list) option" where
  "int_arg internal_flags sign ap =
     (if internal_flags AND DATA_LLGN = 0 \<and> internal_flags AND DATA_SHRT \<noteq> 0 then
        (case va_arg 2 ap of None \<Rightarrow> None
         | Some (us, ap') \<Rightarrow>
             (case arg16 us of None \<Rightarrow> None
              | Some h \<Rightarrow> Some (if sign then scast h else ucast h, ap')))
      else
        (case va_arg 4 ap of None \<Rightarrow> None
         | Some (us, ap') \<Rightarrow>
             (case arg32 us of Some (VInt w) \<Rightarrow> Some (w, ap') | _ \<Rightarrow> None)))"

section \<open>Directives\<close>

definition isdigit :: "char \<Rightarrow> bool" where
  "isdigit c \<longleftrightarrow> (of_char (CHR ''0'') :: nat) \<le> of_char c \<and> of_char c \<le> (of_char (CHR ''9'') :: nat)"

fun flags_stage :: "string \<Rightarrow> u32 \<Rightarrow> u32 \<times> string" where
  "flags_stage [] flags = (flags, [])"
| "flags_stage (c # fmt) flags =
     (if c = CHR ''-'' then flags_stage fmt (flags OR LEFT_JUST)
      else if c = CHR ''+'' then flags_stage fmt (flags OR SHOW_SIGN)
      else if c = CHR '' '' then flags_stage fmt (flags OR HIDE_SIGN)
      else if c = CHR ''#'' then flags_stage fmt (flags OR DISP_HEXD)
      else if c = CHR ''0'' then flags_stage fmt (flags OR PADW_ZERO)
      else (flags, c # fmt))"

fun width_stage :: "string \<Rightarrow> u32 \<Rightarrow> u32 \<times> string" where
  "width_stage [] width = (width, [])"
| "width_stage (c # fmt) width =
     (if isdigit c then
        (let width = width + (of_char c - of_char (CHR ''0''));
             width = (case fmt of [] \<Rightarrow> width | d # _ \<Rightarrow> if isdigit d then width * 10 else width)
         in width_stage fmt width)
      else (width, c # fmt))"

fun length_stage :: "string \<Rightarrow> u32 \<Rightarrow> u32 \<times> string" where
  "length_stage [] internal = (internal, [])"
| "length_stage (c # fmt) internal =
     (if c = CHR ''h'' then length_stage fmt (internal OR DATA_SHRT)
      else if c = CHR ''l'' then
        length_stage fmt (if internal AND DATA_LONG \<noteq> 0 then internal OR DATA_LLGN
                          else internal OR DATA_LONG)
      else (internal, c # fmt))"

definition sane_flags :: "u32 \<Rightarrow> u32 \<Rightarrow> u32 \<times> u32" where
  "sane_flags flags internal =
     (let flags = (if flags AND HIDE_SIGN \<noteq> 0 \<and> flags AND SHOW_SIGN \<noteq> 0
                   then flags AND NOT HIDE_SIGN AND NOT SHOW_SIGN else flags);
          internal = (if internal AND DATA_SHRT \<noteq> 0
                        \<and> (internal AND DATA_LONG \<noteq> 0 \<or> internal AND DATA_LLGN \<noteq> 0)
                      then 0 else internal);
          flags = (if flags AND DISP_HEXD \<noteq> 0 \<and> flags AND SHOW_SIGN \<noteq> 0
                   then flags AND NOT DISP_HEXD AND NOT SHOW_SIGN else flags)
      in (flags, internal))"

text \<open>
  The conversion selected by the character \<open>sp\<close>: what it prints and the argument pointer
  after it; no result when the argument area does not hold what the conversion reads.
\<close>

definition print_conv ::
  "char \<Rightarrow> u32 \<Rightarrow> u32 \<Rightarrow> u32 \<Rightarrow> va_list \<Rightarrow> sink \<Rightarrow> ((u32 \<times> sink) \<times> va_list) option" where
  "print_conv sp flags internal width ap out =
     (if sp = CHR ''s'' then
        (case va_arg 4 ap of None \<Rightarrow> None
         | Some (us, ap') \<Rightarrow>
             (case arg32 us of None \<Rightarrow> None
              | Some (VStr str) \<Rightarrow> Some (prints out str width (flags AND LEFT_JUST), ap')
              | Some (VInt w) \<Rightarrow>
                  if w = 0 then Some (prints out ''(null)'' width (flags AND LEFT_JUST), ap')
                  else None))
      else if sp = CHR ''c'' then
        (case va_arg 4 ap of None \<Rightarrow> None
         | Some (us, ap') \<Rightarrow>
             (case arg32 us of
                Some (VInt w) \<Rightarrow>
                  (let c = char_of (unat (ucast w :: u8));
                       buf = (if c = CHR 0x00 then [] else [c])
                   in Some (prints out buf width (flags AND LEFT_JUST), ap'))
              | _ \<Rightarrow> None))
      else if sp = CHR ''d'' \<or> sp = CHR ''i'' then
        (case int_arg internal True ap of None \<Rightarrow> None
         | Some (w, ap') \<Rightarrow> Some (printi out w 10 True width flags (CHR ''a''), ap'))
      else if sp = CHR ''u'' then
        (case int_arg internal False ap of None \<Rightarrow> None
         | Some (w, ap') \<Rightarrow> Some (printi out w 10 False width flags (CHR ''a''), ap'))
      else if sp = CHR ''x'' then
        (case int_arg internal False ap of None \<Rightarrow> None
         | Some (w, ap') \<Rightarrow> Some (printi out w 16 False width flags (CHR ''a''), ap'))
      else if sp = CHR ''p'' \<or> sp = CHR ''X'' then
        (let flags = (if sp = CHR ''p'' then DISP_HEXD OR PADW_ZERO else flags);
             width = (if sp = CHR ''p'' then
                        (if internal AND DATA_LLGN \<noteq> 0 then 4 * 2
                         else if internal AND DATA_SHRT \<noteq> 0 then 2 * 2 else 4 * 2)
                      else width)
         in case int_arg internal False ap of None \<Rightarrow> None
            | Some (w, ap') \<Rightarrow> Some (printi out w 16 False width flags (CHR ''A''), ap'))
      else Some (emit sp (0, out), ap))"

lemma flags_stage_length: "length (snd (flags_stage fmt fl)) \<le> length fmt"
  by (induction fmt fl rule: flags_stage.induct) (auto simp: le_SucI)

lemma width_stage_length: "length (snd (width_stage fmt w)) \<le> length fmt"
  by (induction fmt w rule: width_stage.induct) (auto simp: le_SucI Let_def)

lemma length_stage_length: "length (snd (length_stage fmt i)) \<le> length fmt"
  by (induction fmt i rule: length_stage.induct) (auto simp: le_SucI)

text \<open>
  A directive after its \<open>%\<close>: the flags, the width, the length modifier, with conflicts
  resolved, and the rest of the format from the conversion character on.
\<close>

definition directive :: "string \<Rightarrow> u32 \<times> u32 \<times> u32 \<times> string" where
  "directive fmt =
     (let (flags, fmt) = flags_stage fmt 0;
          (width, fmt) = width_stage fmt 0;
          (internal, fmt) = length_stage fmt 0;
          (flags, internal) = sane_flags flags internal
      in (flags, internal, width, fmt))"

lemma directive_length: "directive fmt = (fl, il, w, fmt') \<Longrightarrow> length fmt' \<le> length fmt"
  using flags_stage_length [of fmt 0] width_stage_length [of "snd (flags_stage fmt 0)" 0]
    length_stage_length [of "snd (width_stage (snd (flags_stage fmt 0)) 0)" 0]
  by (auto simp: directive_def Let_def split: prod.splits)

text \<open>
  A format that ends inside a directive makes the loop print its terminating NUL and step
  past it: the next read is outside the string.
\<close>

function print :: "string \<Rightarrow> va_list \<Rightarrow> u32 \<times> sink \<Rightarrow> (stop \<times> sink) + (u32 \<times> sink)" where
  "print [] ap st = Inr st"
| "print (c # fmt) ap st =
     (if c \<noteq> CHR ''%'' then print fmt ap (emit c st)
      else (case fmt of
              [] \<Rightarrow> Inr st
            | d # rest \<Rightarrow>
                if d = CHR ''%'' then print rest ap (emit d st)
                else (case directive fmt of (flags, internal, width, []) \<Rightarrow>
                        Inl (OutOfBounds, snd (emit (CHR 0x00) st))
                      | (flags, internal, width, sp # fmt') \<Rightarrow>
                        (case print_conv sp flags internal width ap (snd st) of
                           None \<Rightarrow> Inl (Undefined, snd st)
                         | Some ((n, out), ap') \<Rightarrow> print fmt' ap' (fst st + n, out)))))"
  by pat_completeness auto
termination
  by (relation "measure (\<lambda>(fmt, ap, st). length fmt)") (auto dest!: directive_length [OF sym])

section \<open>Entry points\<close>

text \<open>
  The callers pass \<open>None\<close> for a NULL pointer. \<open>sprintf\<close> and \<open>vsprintf\<close> return the count and
  the characters stored from the buffer's start on.
\<close>

definition print_screen :: "string \<Rightarrow> va_list \<Rightarrow> console \<Rightarrow> (stop \<times> console) + console" where
  "print_screen fmt ap con =
     (case print fmt ap (0, Screen con) of
        Inl (e, Screen con') \<Rightarrow> Inl (e, con')
      | Inr (cw, Screen con') \<Rightarrow> Inr con'
      | _ \<Rightarrow> Inl (Undefined, con))"

definition con_printf :: "string option \<Rightarrow> varg list \<Rightarrow> console \<Rightarrow> (stop \<times> console) + console" where
  "con_printf fmt args con =
     (case fmt of None \<Rightarrow> Inr con
      | Some fmt \<Rightarrow> print_screen fmt (va_start args) con)"

definition con_printfln :: "string option \<Rightarrow> varg list \<Rightarrow> console \<Rightarrow> (stop \<times> console) + console" where
  "con_printfln fmt args con =
     (case fmt of None \<Rightarrow> Inr con
      | Some fmt \<Rightarrow>
          (case print_screen fmt (va_start args) con of
             Inl e \<Rightarrow> Inl e
           | Inr con' \<Rightarrow> Inr (screen_put 10 con')))"

definition con_vprintf :: "string option \<Rightarrow> va_list option \<Rightarrow> console \<Rightarrow> (stop \<times> console) + console" where
  "con_vprintf fmt args con =
     (case (fmt, args) of
        (Some fmt, Some ap) \<Rightarrow> print_screen fmt ap con
      | _ \<Rightarrow> Inr con)"

definition print_buffer :: "string \<Rightarrow> va_list \<Rightarrow> (stop \<times> string) + (u32 \<times> string)" where
  "print_buffer fmt ap =
     (case print fmt ap (0, Buffer []) of
        Inl (e, Buffer b) \<Rightarrow> Inl (e, b)
      | Inr (cw, Buffer b) \<Rightarrow> Inr (cw, b)
      | _ \<Rightarrow> Inl (Undefined, []))"

definition sprintf :: "bool \<Rightarrow> string option \<Rightarrow> varg list \<Rightarrow> (stop \<times> string) + (u32 \<times> string)" where
  "sprintf buf_given fmt args =
     (case fmt of None \<Rightarrow> Inr (0, [])
      | Some fmt \<Rightarrow> if \<not> buf_given then Inr (0, []) else print_buffer fmt (va_start args))"

definition vsprintf ::
  "bool \<Rightarrow> string option \<Rightarrow> va_list option \<Rightarrow> (stop \<times> string) + (u32 \<times> string)" where
  "vsprintf buf_given fmt args =
     (case (fmt, args) of
        (Some fmt, Some ap) \<Rightarrow> if \<not> buf_given then Inr (0, []) else print_buffer fmt ap
      | _ \<Rightarrow> Inr (0, []))"

section \<open>The specification: what a format stands for\<close>

definition layout :: "string \<Rightarrow> u32 \<Rightarrow> u32 \<Rightarrow> string" where
  "layout str width flags =
     (let pad = (if sint (of_nat (length str) :: u32) \<ge> sint width then 0
                 else unat (width - of_nat (length str)));
          hexd = (if flags AND DISP_HEXD \<noteq> 0 then ''0x'' else [])
      in if flags AND PADW_ZERO \<noteq> 0 then hexd @ replicate pad (CHR ''0'') @ str
         else if flags AND LEFT_JUST \<noteq> 0 then hexd @ str @ replicate pad (CHR '' '')
         else replicate pad (CHR '' '') @ hexd @ str)"

definition number_text :: "u32 \<Rightarrow> u32 \<Rightarrow> bool \<Rightarrow> u32 \<Rightarrow> u32 \<Rightarrow> char \<Rightarrow> string" where
  "number_text num base sign width flags convbase =
     (if sint base < 2 then []
      else let flags = (if base \<noteq> 16 then flags AND NOT DISP_HEXD else flags);
               neg = (sign \<and> base = 10 \<and> sint num < 0);
               ds = digits (if neg then - num else num) base convbase [];
               sg = (if num = 0 \<or> flags AND HIDE_SIGN \<noteq> 0 \<or> base \<noteq> 10 then []
                     else if neg then ''-'' else if flags AND SHOW_SIGN \<noteq> 0 then ''+'' else [])
           in if num = 0 then layout ''0'' width flags
              else if flags AND PADW_ZERO \<noteq> 0
              then sg @ layout ds (width - of_nat (length sg)) flags
              else layout (sg @ ds) width flags)"

definition conv_text :: "char \<Rightarrow> u32 \<Rightarrow> u32 \<Rightarrow> u32 \<Rightarrow> va_list \<Rightarrow> (string \<times> va_list) option" where
  "conv_text sp flags internal width ap =
     (if sp = CHR ''s'' then
        (case va_arg 4 ap of None \<Rightarrow> None
         | Some (us, ap') \<Rightarrow>
             (case arg32 us of None \<Rightarrow> None
              | Some (VStr str) \<Rightarrow> Some (layout str width (flags AND LEFT_JUST), ap')
              | Some (VInt w) \<Rightarrow>
                  if w = 0 then Some (layout ''(null)'' width (flags AND LEFT_JUST), ap') else None))
      else if sp = CHR ''c'' then
        (case va_arg 4 ap of None \<Rightarrow> None
         | Some (us, ap') \<Rightarrow>
             (case arg32 us of
                Some (VInt w) \<Rightarrow>
                  (let c = char_of (unat (ucast w :: u8))
                   in Some (layout (if c = CHR 0x00 then [] else [c]) width (flags AND LEFT_JUST), ap'))
              | _ \<Rightarrow> None))
      else if sp \<in> {CHR ''d'', CHR ''i''} then
        map_option (\<lambda>(w, ap'). (number_text w 10 True width flags (CHR ''a''), ap'))
          (int_arg internal True ap)
      else if sp = CHR ''u'' then
        map_option (\<lambda>(w, ap'). (number_text w 10 False width flags (CHR ''a''), ap'))
          (int_arg internal False ap)
      else if sp = CHR ''x'' then
        map_option (\<lambda>(w, ap'). (number_text w 16 False width flags (CHR ''a''), ap'))
          (int_arg internal False ap)
      else if sp = CHR ''p'' then
        map_option (\<lambda>(w, ap'). (number_text w 16 False
            (if internal AND DATA_LLGN = 0 \<and> internal AND DATA_SHRT \<noteq> 0 then 4 else 8)
            (DISP_HEXD OR PADW_ZERO) (CHR ''A''), ap'))
          (int_arg internal False ap)
      else if sp = CHR ''X'' then
        map_option (\<lambda>(w, ap'). (number_text w 16 False width flags (CHR ''A''), ap'))
          (int_arg internal False ap)
      else Some ([sp], ap))"

text \<open>The characters printed, or why printing stops and what was printed until then.\<close>

function render :: "string \<Rightarrow> va_list \<Rightarrow> (stop \<times> string) + string" where
  "render [] ap = Inr []"
| "render (c # fmt) ap =
     (if c \<noteq> CHR ''%'' then map_sum (apsnd ((#) c)) ((#) c) (render fmt ap)
      else (case fmt of
              [] \<Rightarrow> Inr []
            | d # rest \<Rightarrow>
                if d = CHR ''%'' then map_sum (apsnd ((#) d)) ((#) d) (render rest ap)
                else (case directive fmt of (flags, internal, width, []) \<Rightarrow>
                        Inl (OutOfBounds, [CHR 0x00])
                      | (flags, internal, width, sp # fmt') \<Rightarrow>
                        (case conv_text sp flags internal width ap of
                           None \<Rightarrow> Inl (Undefined, [])
                         | Some (out, ap') \<Rightarrow>
                             map_sum (apsnd ((@) out)) ((@) out) (render fmt' ap')))))"
  by pat_completeness auto
termination
  by (relation "measure (\<lambda>(fmt, ap). length fmt)") (auto dest!: directive_length [OF sym])

section \<open>Printing refines rendering\<close>

definition feed :: "string \<Rightarrow> sink \<Rightarrow> sink" where
  "feed cs out = fold (\<lambda>c out. snd (outchar out c)) cs out"

lemma outchar_pair: "outchar out c = (1, snd (outchar out c))"
  by (cases out) simp_all

lemma feed_simps [simp]:
  "feed [] out = out" "feed (c # cs) out = feed cs (snd (outchar out c))"
  "feed (cs @ ds) out = feed ds (feed cs out)"
  by (simp_all add: feed_def)

lemma emit_feed: "emit c st = (fst st + 1, feed [c] (snd st))"
  unfolding emit_def by (subst outchar_pair) simp

lemma put_str_feed: "put_str cs st = (fst st + of_nat (length cs), feed cs (snd st))"
  by (induction cs arbitrary: st) (simp_all add: emit_feed)

lemma put_str_append: "put_str (cs @ ds) st = put_str ds (put_str cs st)"
  by (induction cs arbitrary: st) simp_all

lemma put_pad_str: "put_pad c n st = put_str (replicate n c) st"
  by (induction n arbitrary: st) simp_all

lemma prints_layout: "prints out str width flags = put_str (layout str width flags) (0, out)"
  by (auto simp: prints_def layout_def Let_def put_pad_str put_str_append unat_eq_0)

lemma printi_number_text:
  "printi out num base sign width flags convbase =
     put_str (number_text num base sign width flags convbase) (0, out)"
  by (auto simp: printi_def number_text_def Let_def prints_layout put_str_append emit_feed
      put_str_feed split: prod.splits)

lemma print_conv_text:
  "print_conv sp flags internal width ap out =
     map_option (apfst (\<lambda>cs. put_str cs (0, out))) (conv_text sp flags internal width ap)"
  unfolding print_conv_def conv_text_def
  by (auto simp: prints_layout printi_number_text emit_feed Let_def
      split: option.splits prod.splits varg.splits)

text \<open>How the loop sees a format: the cases of one round.\<close>

lemma format_cases [case_names empty plain last percent unfinished conv]:
  fixes f :: string
  obtains "f = []"
  | c fmt where "f = c # fmt" "c \<noteq> CHR ''%''"
  | "f = ''%''"
  | fmt where "f = CHR ''%'' # CHR ''%'' # fmt"
  | fmt fl il w where "f = CHR ''%'' # fmt" "fmt \<noteq> []" "hd fmt \<noteq> CHR ''%''"
      "directive fmt = (fl, il, w, [])"
  | fmt fl il w sp fmt' where "f = CHR ''%'' # fmt" "fmt \<noteq> []" "hd fmt \<noteq> CHR ''%''"
      "directive fmt = (fl, il, w, sp # fmt')"
proof (cases f)
  case (Cons c fmt)
  show thesis
  proof (cases "c = CHR ''%''")
    case True
    show thesis
    proof (cases fmt)
      case Nil
      with Cons True that(3) show thesis by simp
    next
      case (Cons d rest)
      obtain fl il w fmt' where "directive fmt = (fl, il, w, fmt')" by (metis prod_cases4)
      with \<open>f = c # fmt\<close> True Cons that(4,5,6) show thesis
        by (cases "d = CHR ''%''"; cases fmt') auto
    qed
  qed (use Cons that(2) in simp)
qed (use that(1) in simp)

lemma print_render:
  "print fmt ap st =
     (case render fmt ap of
        Inl (e, cs) \<Rightarrow> Inl (e, feed cs (snd st))
      | Inr cs \<Rightarrow> Inr (put_str cs st))"
proof (induction fmt arbitrary: ap st rule: measure_induct_rule [where f = length])
  case (less f)
  show ?case
  proof (cases f rule: format_cases)
    case empty
    then show ?thesis by simp
  next
    case (plain c fmt)
    with less.IH [of fmt ap "emit c st"] show ?thesis by (auto simp: emit_feed split: sum.splits)
  next
    case last
    then show ?thesis by simp
  next
    case (percent fmt)
    with less.IH [of fmt ap "emit (CHR ''%'') st"] show ?thesis
      by (auto simp: emit_feed split: sum.splits)
  next
    case (unfinished fmt fl il w)
    then show ?thesis by (cases fmt) (auto simp: emit_feed)
  next
    case (conv fmt fl il w sp fmt')
    show ?thesis
    proof (cases "conv_text sp fl il w ap")
      case None
      with conv show ?thesis by (cases fmt) (auto simp: print_conv_text)
    next
      case (Some r)
      then obtain cs ap' where r: "conv_text sp fl il w ap = Some (cs, ap')" by (cases r) simp
      have "length fmt' < length f" using directive_length [OF conv(4)] conv(1) by simp
      note IH = less.IH [OF this, of ap' "(fst st + of_nat (length cs), feed cs (snd st))"]
      from conv r have "print f ap st = print fmt' ap' (fst st + of_nat (length cs), feed cs (snd st))"
        by (cases fmt) (auto simp: print_conv_text put_str_feed)
      moreover from conv r have
        "render f ap = map_sum (apsnd ((@) cs)) ((@) cs) (render fmt' ap')"
        by (cases fmt) auto
      ultimately show ?thesis using IH by (auto simp: put_str_feed split: sum.splits)
    qed
  qed
qed

text \<open>On the screen the characters are shown in order; in a buffer they are stored in order.\<close>

definition show_text :: "string \<Rightarrow> console \<Rightarrow> console" where
  "show_text cs con = screen_put_text (map of_char cs) con"

lemma feed_screen: "feed cs (Screen con) = Screen (show_text cs con)"
  by (induction cs arbitrary: con) (simp_all add: show_text_def screen_put_def)

lemma feed_buffer: "feed cs (Buffer b) = Buffer (b @ cs)"
  by (induction cs arbitrary: b) simp_all

lemma print_screen_render:
  "print_screen fmt ap con =
     (case render fmt ap of
        Inl (e, cs) \<Rightarrow> Inl (e, show_text cs con)
      | Inr cs \<Rightarrow> Inr (show_text cs con))"
  by (auto simp: print_screen_def print_render put_str_feed feed_screen split: sum.splits)

lemma print_buffer_render:
  "print_buffer fmt ap =
     (case render fmt ap of
        Inl (e, cs) \<Rightarrow> Inl (e, cs)
      | Inr cs \<Rightarrow> Inr (of_nat (length cs), cs))"
  by (auto simp: print_buffer_def print_render put_str_feed feed_buffer split: sum.splits)

section \<open>Formats that always print to the end\<close>

datatype akind = KInt | KStr

definition conv_kinds :: "char \<Rightarrow> u32 \<Rightarrow> akind list option" where
  "conv_kinds sp internal =
     (if sp = CHR ''s'' then Some [KStr]
      else if sp = CHR ''c'' then Some [KInt]
      else if sp \<in> {CHR ''d'', CHR ''i'', CHR ''u'', CHR ''x'', CHR ''X'', CHR ''p''} then
        (if internal AND DATA_LLGN = 0 \<and> internal AND DATA_SHRT \<noteq> 0 then None else Some [KInt])
      else Some [])"

text \<open>The arguments a format needs, if every directive in it is complete and full-sized.\<close>

function fmt_kinds :: "string \<Rightarrow> akind list option" where
  "fmt_kinds [] = Some []"
| "fmt_kinds (c # fmt) =
     (if c \<noteq> CHR ''%'' then fmt_kinds fmt
      else (case fmt of
              [] \<Rightarrow> Some []
            | d # rest \<Rightarrow>
                if d = CHR ''%'' then fmt_kinds rest
                else (case directive fmt of (flags, internal, width, []) \<Rightarrow> None
                      | (flags, internal, width, sp # fmt') \<Rightarrow>
                        (case (conv_kinds sp internal, fmt_kinds fmt') of
                           (Some ks, Some ks') \<Rightarrow> Some (ks @ ks')
                         | _ \<Rightarrow> None))))"
  by pat_completeness auto
termination
  by (relation "measure length") (auto dest!: directive_length [OF sym])

fun arg_fits :: "akind \<Rightarrow> varg \<Rightarrow> bool" where
  "arg_fits KInt (VInt w) = True"
| "arg_fits KStr (VStr str) = True"
| "arg_fits KStr (VInt w) = (w = 0)"
| "arg_fits KInt (VStr str) = False"

lemma va_start_simps [simp]:
  "va_start [] = []" "va_start (a # as) = arg_units a @ va_start as"
  by (simp_all add: va_start_def)

lemma va_arg_4 [simp]: "va_arg 4 (arg_units a @ ap) = Some (arg_units a, ap)"
  by (cases a) (simp_all add: va_arg_def eval_nat_numeral)

lemma arg32_units [simp]: "arg32 (arg_units a) = Some a"
  by (cases a) simp_all

lemma int_arg_full [simp]:
  "\<not> (internal AND DATA_LLGN = 0 \<and> internal AND DATA_SHRT \<noteq> 0) \<Longrightarrow>
     int_arg internal sg (arg_units (VInt w) @ ap) = Some (w, ap)"
  unfolding int_arg_def va_arg_4 by auto

lemma conv_text_ok:
  assumes kinds: "conv_kinds sp internal = Some ks" and fits: "list_all2 arg_fits ks as"
  shows "\<exists>cs. conv_text sp flags internal width (va_start as @ ap) = Some (cs, ap)"
proof -
  consider (str) "sp = CHR ''s''" "ks = [KStr]" | (chr) "sp = CHR ''c''" "ks = [KInt]"
    | (num) "sp \<in> {CHR ''d'', CHR ''i'', CHR ''u'', CHR ''x'', CHR ''X'', CHR ''p''}" "ks = [KInt]"
        "\<not> (internal AND DATA_LLGN = 0 \<and> internal AND DATA_SHRT \<noteq> 0)"
    | (other) "sp \<notin> {CHR ''s'', CHR ''c'', CHR ''d'', CHR ''i'', CHR ''u'', CHR ''x'', CHR ''X'', CHR ''p''}"
        "ks = []"
    using kinds unfolding conv_kinds_def by (auto split: if_splits)
  then show ?thesis
  proof cases
    case str
    with fits obtain a where "as = [a]" "arg_fits KStr a" by (auto simp: list_all2_Cons1)
    with str show ?thesis by (cases a) (simp_all add: conv_text_def del: arg_units.simps)
  next
    case chr
    with fits obtain a where "as = [a]" "arg_fits KInt a" by (auto simp: list_all2_Cons1)
    with chr show ?thesis by (cases a) (simp_all add: conv_text_def Let_def del: arg_units.simps)
  next
    case num
    with fits obtain a where "as = [a]" "arg_fits KInt a" by (auto simp: list_all2_Cons1)
    then obtain w where as: "va_start as @ ap = arg_units (VInt w) @ ap" by (cases a) simp_all
    show ?thesis
      using num(1) unfolding as conv_text_def
      by (elim insertE) (simp_all add: num(3) del: arg_units.simps)
  next
    case other
    with fits show ?thesis by (simp add: conv_text_def)
  qed
qed

lemma render_ok:
  assumes "fmt_kinds fmt = Some ks" "list_all2 arg_fits ks as"
  shows "\<exists>cs. render fmt (va_start as @ ap) = Inr cs"
  using assms
proof (induction fmt arbitrary: ks as rule: measure_induct_rule [where f = length])
  case (less f)
  show ?case
  proof (cases f rule: format_cases)
    case (plain c fmt)
    with less.prems less.IH [of fmt ks as] show ?thesis by auto
  next
    case (percent fmt)
    with less.prems less.IH [of fmt ks as] show ?thesis by auto
  next
    case (unfinished fmt fl il w)
    with less.prems(1) show ?thesis by (cases fmt) auto
  next
    case (conv fmt fl il w sp fmt')
    from conv less.prems(1) obtain k1 k2
      where k: "conv_kinds sp il = Some k1" "fmt_kinds fmt' = Some k2" "ks = k1 @ k2"
      by (cases fmt) (auto split: option.splits)
    from less.prems(2) k(3) obtain as1 as2 where as: "as = as1 @ as2"
      "list_all2 arg_fits k1 as1" "list_all2 arg_fits k2 as2"
      by (auto simp: list_all2_append1)
    have split: "va_start as @ ap = va_start as1 @ va_start as2 @ ap"
      by (simp add: as(1) va_start_def)
    obtain cs where cs: "conv_text sp fl il w (va_start as @ ap) = Some (cs, va_start as2 @ ap)"
      unfolding split using conv_text_ok [OF k(1) as(2)] by blast
    have "length fmt' < length f" using directive_length [OF conv(4)] conv(1) by simp
    from less.IH [OF this k(2) as(3)] obtain ds where "render fmt' (va_start as2 @ ap) = Inr ds"
      by blast
    with conv cs show ?thesis by (cases fmt) auto
  qed simp_all
qed

section \<open>Numerals denote their numbers\<close>

definition digit_val :: "char \<Rightarrow> nat" where
  "digit_val c =
     (let n = of_char c :: nat
      in if n \<le> 57 then n - 48 else if 97 \<le> n then n - 87 else n - 55)"

definition read_num :: "nat \<Rightarrow> string \<Rightarrow> nat" where
  "read_num base ds = foldl (\<lambda>n c. n * base + digit_val c) 0 ds"

definition digit_char :: "char \<Rightarrow> nat \<Rightarrow> char" where
  "digit_char convbase d =
     (if 10 \<le> d then char_of (d - 10 + of_char convbase :: nat) else char_of (d + 48))"

lemma digit_val_char:
  "d < 16 \<Longrightarrow> convbase \<in> {CHR ''a'', CHR ''A''} \<Longrightarrow> digit_val (digit_char convbase d) = d"
  by (auto simp: digit_val_def digit_char_def Let_def)

lemma digit_char_zero:
  "d < 16 \<Longrightarrow> convbase \<in> {CHR ''a'', CHR ''A''} \<Longrightarrow> digit_char convbase d = CHR ''0'' \<longleftrightarrow> d = 0"
proof -
  assume d: "d < 16" "convbase \<in> {CHR ''a'', CHR ''A''}"
  have "char_of (48 :: nat) = CHR ''0''" using char_of_char [of "CHR ''0''"] by simp
  moreover have "digit_val (CHR ''0'') = 0" by (simp add: digit_val_def)
  ultimately show ?thesis using digit_val_char [OF d] by (auto simp: digit_char_def)
qed

text \<open>The digit loop, one round at a time from the right.\<close>

lemma digits_step:
  assumes "u \<noteq> 0" "2 \<le> sint base"
  shows "digits u base cb buf = digits (u div base) base cb (digit_char cb (unat (u mod base)) # buf)"
  using assms by (subst digits.simps) (simp add: digit_char_def Let_def word_le_nat_alt)

lemma digits_0 [simp]: "digits 0 base cb buf = buf"
  by (subst digits.simps) simp

lemma digits_append:
  assumes "2 \<le> sint base"
  shows "digits u base cb buf = digits u base cb [] @ buf"
proof (induction "unat u" arbitrary: u buf rule: less_induct)
  case less
  show ?case
  proof (cases "u = 0")
    case False
    have "unat (u div base) < unat u"
      using False sint_ge_2_unat [OF assms] by (simp add: unat_div unat_gt_0)
    note IH = less.hyps [OF this]
    show ?thesis
      using digits_step [OF False assms, of cb] IH by (metis append.assoc append_Cons append_Nil)
  qed simp
qed

lemma digits_snoc:
  assumes "u \<noteq> 0" "2 \<le> sint base"
  shows "digits u base cb [] = digits (u div base) base cb [] @ [digit_char cb (unat (u mod base))]"
  using digits_step [OF assms] digits_append [OF assms(2)] by metis

lemma digits_value:
  assumes base: "2 \<le> sint base" "unat base \<le> 16" and cb: "cb \<in> {CHR ''a'', CHR ''A''}"
  shows "read_num (unat base) (digits u base cb []) = unat u"
proof (induction "unat u" arbitrary: u rule: less_induct)
  case less
  show ?case
  proof (cases "u = 0")
    case True
    then show ?thesis by (simp add: read_num_def)
  next
    case False
    have b: "2 \<le> unat base" using base(1) by (rule sint_ge_2_unat)
    then have "unat (u div base) < unat u" using False by (simp add: unat_div unat_gt_0)
    from less.hyps [OF this] have "read_num (unat base) (digits (u div base) base cb []) = unat u div unat base"
      by (simp add: unat_div)
    moreover have "unat u mod unat base < 16"
      using b base(2) mod_less_divisor [of "unat base" "unat u"] by linarith
    then have "digit_val (digit_char cb (unat (u mod base))) = unat u mod unat base"
      using cb by (subst digit_val_char) (simp_all add: unat_mod)
    ultimately show ?thesis
      using digits_snoc [OF False base(1), of cb] by (simp add: read_num_def)
  qed
qed

text \<open>A numeral of \<open>u\<close> is as long as needed and no longer; in particular it fits the buffer.\<close>

lemma digits_length:
  assumes base: "2 \<le> sint base"
  shows "u \<noteq> 0 \<Longrightarrow> digits u base cb [] \<noteq> [] \<and> unat base ^ (length (digits u base cb []) - 1) \<le> unat u"
proof (induction "unat u" arbitrary: u rule: less_induct)
  case less
  have b: "2 \<le> unat base" using base by (rule sint_ge_2_unat)
  have lt: "unat (u div base) < unat u" using less.prems b by (simp add: unat_div unat_gt_0)
  note snoc = digits_snoc [OF less.prems base, of cb]
  show ?case
  proof (cases "u div base = 0")
    case True
    then show ?thesis using less.prems unfolding snoc by (simp add: Suc_leI unat_gt_0)
  next
    case False
    let ?n = "length (digits (u div base) base cb [])"
    have "unat base ^ (?n - 1) \<le> unat u div unat base" and "0 < ?n"
      using less.hyps [OF lt False] by (simp_all add: unat_div)
    then have "unat base ^ (?n - 1) * unat base \<le> unat u"
      using b less_eq_div_iff_mult_less_eq [of "unat base"] by simp
    moreover have "unat base ^ (?n - 1) * unat base = unat base ^ ?n"
      using \<open>0 < ?n\<close> by (simp add: power_eq_if mult.commute)
    ultimately show ?thesis unfolding snoc by simp
  qed
qed

text \<open>So a 32-bit number has at most 32 digits, well within the 65-byte buffer.\<close>

lemma digits_length_32:
  assumes "2 \<le> sint base"
  shows "length (digits u base cb []) \<le> 32"
proof (cases "u = 0")
  case False
  have "(2 :: nat) ^ (length (digits u base cb []) - 1) \<le> unat base ^ (length (digits u base cb []) - 1)"
    using sint_ge_2_unat [OF assms] by (rule power_mono) simp
  also have "\<dots> \<le> unat u" using digits_length [OF assms False] by simp
  also have "\<dots> < 2 ^ 32" by simp
  finally show ?thesis by (simp only: power_strict_increasing_iff one_less_numeral_iff semiring_norm)
qed simp

lemma digits_length_hex: "length (digits u 16 cb []) \<le> 8"
proof (cases "u = 0")
  case False
  have "(16 :: nat) ^ (length (digits u 16 cb []) - 1) \<le> unat u"
    using digits_length [of 16 u cb] False by simp
  also have "\<dots> < 16 ^ 8" by simp
  finally show ?thesis by (simp only: power_strict_increasing_iff one_less_numeral_iff semiring_norm)
qed simp

lemma digits_no_leading_zero:
  assumes base: "2 \<le> sint base" "unat base \<le> 16" and cb: "cb \<in> {CHR ''a'', CHR ''A''}"
  shows "u \<noteq> 0 \<Longrightarrow> hd (digits u base cb []) \<noteq> CHR ''0''"
proof (induction "unat u" arbitrary: u rule: less_induct)
  case less
  have b: "2 \<le> unat base" using base(1) by (rule sint_ge_2_unat)
  have lt: "unat (u div base) < unat u" using less.prems b by (simp add: unat_div unat_gt_0)
  note snoc = digits_snoc [OF less.prems base(1), of cb]
  show ?case
  proof (cases "u div base = 0")
    case True
    then have "unat u div unat base = 0" by (metis unat_0 unat_div)
    then have "unat (u mod base) = unat u" "unat u < 16"
      using b base(2) by (simp_all add: unat_mod div_eq_0_iff)
    with True less.prems cb show ?thesis unfolding snoc by (simp add: digit_char_zero unat_eq_0)
  next
    case False
    with less.hyps [OF lt False] digits_length [OF base(1) False, of cb] show ?thesis
      unfolding snoc by simp
  qed
qed

section \<open>The conversions the kernel uses\<close>

lemma directive_letter [simp]:
  "c \<in> {CHR ''s'', CHR ''c'', CHR ''d'', CHR ''i'', CHR ''u'', CHR ''x'', CHR ''X'', CHR ''p''} \<Longrightarrow>
     directive (c # fmt) = (0, 0, 0, c # fmt)"
  by (elim insertE) (simp_all add: directive_def sane_flags_def isdigit_def stdio_flags)

definition decimal :: "u32 \<Rightarrow> string" where
  "decimal w = (if w = 0 then ''0'' else digits w 10 (CHR ''a'') [])"

lemma read_decimal: "read_num 10 (decimal w) = unat w"
  using digits_value [of 10 "CHR ''a''" w] by (simp add: decimal_def read_num_def digit_val_def)

lemma decimal_canonical: "decimal w \<noteq> [] \<and> (hd (decimal w) = CHR ''0'' \<longrightarrow> decimal w = ''0'')"
  using digits_no_leading_zero [of 10 "CHR ''a''" w] digits_length [of 10 w "CHR ''a''"]
  by (simp add: decimal_def)

lemma sint_of_nat_small: "n < 2147483648 \<Longrightarrow> sint (of_nat n :: u32) = int n"
  by (simp add: signed_of_nat signed_take_bit_int_eq_self)

lemma layout_plain: "length cs < 2147483648 \<Longrightarrow> layout cs 0 0 = cs"
  by (simp add: layout_def Let_def sint_of_nat_small)

lemma unat_neg_sint:
  assumes "sint (w :: u32) < 0"
  shows "unat (- w) = nat (- sint w)"
proof -
  have "- sint w \<le> 2 ^ 31" using sint_greater_eq [of w] by simp
  then have range: "0 \<le> - sint w" "- sint w < 2 ^ 32" using assms by simp_all
  have wi: "uint (word_of_int k :: u32) = k mod 2 ^ 32" for k by (simp add: uint_word_of_int)
  have "- w = word_of_int (- sint w)" by simp
  then have "uint (- w) = (- sint w) mod 2 ^ 32" by (simp only: wi)
  also have "\<dots> = - sint w" using range by (rule mod_pos_pos_trivial)
  finally show ?thesis by (metis nat_uint_eq)
qed

lemma unat_nonneg_sint:
  assumes "0 \<le> sint (w :: u32)"
  shows "unat w = nat (sint w)"
proof -
  have "sint w < 2 ^ 32" using sint_lt [of w] by simp
  with assms have "uint w = sint w" by (simp add: uint_sint take_bit_int_eq_self)
  then show ?thesis by (metis nat_uint_eq)
qed

lemma decimal_length: "length (decimal w) \<le> 32"
  using digits_length_32 [of 10 w "CHR ''a''"] by (simp add: decimal_def)

lemma number_text_unsigned: "number_text w 10 False 0 0 (CHR ''a'') = decimal w"
  using digits_length_32 [of 10 w "CHR ''a''"]
  by (simp add: number_text_def decimal_def Let_def layout_plain)

lemma number_text_signed:
  "number_text w 10 True 0 0 (CHR ''a'') =
     (if sint w < 0 then CHR ''-'' # decimal (- w) else decimal w)"
proof (cases "sint w < 0")
  case True
  then have "w \<noteq> 0" by auto
  with True decimal_length [of "- w"] show ?thesis
    by (simp add: number_text_def decimal_def Let_def layout_plain)
next
  case False
  with digits_length_32 [of 10 w "CHR ''a''"] show ?thesis
    by (simp add: number_text_def decimal_def Let_def layout_plain)
qed

definition hex8 :: "u32 \<Rightarrow> string" where
  "hex8 w = (let ds = (if w = 0 then ''0'' else digits w 16 (CHR ''A'') [])
             in replicate (8 - length ds) (CHR ''0'') @ ds)"

lemma hex8_length: "length (hex8 w) = 8"
  using digits_length_hex [of w "CHR ''A''"] by (simp add: hex8_def Let_def)

lemma read_num_append: "read_num b (xs @ ys) = foldl (\<lambda>n c. n * b + digit_val c) (read_num b xs) ys"
  by (simp add: read_num_def)

lemma read_zeros: "read_num b (replicate n (CHR ''0'')) = 0"
  by (induction n) (simp_all add: read_num_def digit_val_def flip: replicate_append_same)

lemma read_hex8: "read_num 16 (hex8 w) = unat w"
proof -
  have "read_num 16 (replicate n (CHR ''0'') @ ds) = read_num 16 ds" for n ds
    unfolding read_num_append read_zeros by (simp add: read_num_def)
  then show ?thesis
    using digits_value [of 16 "CHR ''A''" w] by (simp add: hex8_def Let_def read_num_def digit_val_def)
qed

lemma layout_hex8:
  assumes "length ds \<le> 8"
  shows "layout ds 8 (DISP_HEXD OR PADW_ZERO) = ''0x'' @ replicate (8 - length ds) (CHR ''0'') @ ds"
proof -
  have "unat (8 - of_nat (length ds) :: u32) = 8 - length ds"
    using assms by (subst unat_sub_le) (simp_all add: word_le_nat_alt addr_nat)
  with assms show ?thesis
    by (auto simp: layout_def Let_def stdio_flags sint_of_nat_small)
qed

lemma number_text_pointer:
  "number_text w 16 False 8 (DISP_HEXD OR PADW_ZERO) (CHR ''A'') = ''0x'' @ hex8 w"
  using digits_length_hex [of w "CHR ''A''"]
  by (simp add: number_text_def hex8_def Let_def layout_hex8) (simp add: stdio_flags)

text \<open>The conversions of strings and of single characters without flags and width.\<close>

lemma conv_text_s:
  assumes "length str < 2147483648"
  shows "conv_text (CHR ''s'') 0 0 0 (arg_units (VStr str)) = Some (str, [])"
  using va_arg_4 [of "VStr str" "[]"] arg32_units [of "VStr str"] assms
  by (simp add: conv_text_def layout_plain del: arg_units.simps)

definition byte_text :: "u32 \<Rightarrow> string" where
  "byte_text w = (let c = char_of (unat (ucast w :: u8)) in if c = CHR 0x00 then [] else [c])"

lemma conv_text_c: "conv_text (CHR ''c'') 0 0 0 (arg_units (VInt w)) = Some (byte_text w, [])"
  using va_arg_4 [of "VInt w" "[]"] arg32_units [of "VInt w"]
  by (simp add: conv_text_def layout_plain byte_text_def Let_def del: arg_units.simps)

lemma show_text_append: "show_text (cs @ ds) c = show_text ds (show_text cs c)"
  by (induction cs arbitrary: c) (simp_all add: show_text_def)

lemma sprintf_int_text:
  assumes "sp \<in> {CHR ''d'', CHR ''u'', CHR ''x'', CHR ''p''}"
    and "conv_text sp 0 0 0 (arg_units (VInt w)) = Some (cs, [])"
  shows "sprintf True (Some [CHR ''%'', sp]) [VInt w] = Inr (of_nat (length cs), cs)"
proof -
  have "directive [sp] = (0, 0, 0, [sp])" using assms(1) by (intro directive_letter) auto
  then show ?thesis
    using assms by (auto simp: sprintf_def print_buffer_render)
qed

section \<open>Properties\<close>

text \<open>
  C11: the formatting loop refines its specification: \<open>sprintf\<close> stores exactly the characters the
  format and its arguments render to and returns their number; where rendering stops, it
  stops in the same way after storing the same characters.
\<close>

theorem sprintf_refines_render:
  "sprintf True (Some fmt) args =
     (case render fmt (va_start args) of
        Inl (e, cs) \<Rightarrow> Inl (e, cs)
      | Inr cs \<Rightarrow> Inr (of_nat (length cs), cs))"
  by (simp add: sprintf_def print_buffer_render)

text \<open>
  Printing on the screen and printing into a buffer agree: the screen shows, character
  after character, what \<open>sprintf\<close> stores for the same format and arguments.
\<close>

lemma printf_shows_sprintf:
  "con_printf (Some fmt) args con =
     (case sprintf True (Some fmt) args of
        Inl (e, cs) \<Rightarrow> Inl (e, show_text cs con)
      | Inr (n, cs) \<Rightarrow> Inr (show_text cs con))"
  by (simp add: con_printf_def sprintf_def print_screen_render print_buffer_render split: sum.splits)



text \<open>
  \<open>%u\<close> is exact: the characters printed for a number are its decimal numeral, without
  leading zeros.
\<close>

lemma sprintf_u_numeral:
  "\<exists>cs. sprintf True (Some ''%u'') [VInt w] = Inr (of_nat (length cs), cs)
      \<and> read_num 10 cs = unat w \<and> (hd cs = CHR ''0'') = (w = 0)"
proof -
  have "conv_text (CHR ''u'') 0 0 0 (arg_units (VInt w)) = Some (decimal w, [])"
    using int_arg_full [of 0 False w "[]"] by (simp add: conv_text_def number_text_unsigned)
  then have "sprintf True (Some ''%u'') [VInt w] = Inr (of_nat (length (decimal w)), decimal w)"
    by (intro sprintf_int_text) simp_all
  moreover have "(hd (decimal w) = CHR ''0'') = (w = 0)"
    using digits_no_leading_zero [of 10 "CHR ''a''" w] by (simp add: decimal_def)
  ultimately show ?thesis using read_decimal by blast
qed

text \<open>
  \<open>%d\<close> is exact: a minus sign for a negative number, then the decimal numeral of its
  absolute value.
\<close>

lemma sprintf_d_numeral:
  "\<exists>ds. sprintf True (Some ''%d'') [VInt w] =
       Inr (of_nat (length ((if sint w < 0 then ''-'' else []) @ ds)),
            (if sint w < 0 then ''-'' else []) @ ds)
      \<and> read_num 10 ds = nat \<bar>sint w\<bar>"
proof -
  let ?ds = "if sint w < 0 then decimal (- w) else decimal w"
  have shown: "conv_text (CHR ''d'') 0 0 0 (arg_units (VInt w)) =
      Some ((if sint w < 0 then ''-'' else []) @ ?ds, [])"
    using int_arg_full [of 0 True w "[]"] by (simp add: conv_text_def number_text_signed)
  have "read_num 10 ?ds = nat \<bar>sint w\<bar>" by (simp add: read_decimal unat_neg_sint unat_nonneg_sint)
  with sprintf_int_text [OF _ shown] show ?thesis by blast
qed

text \<open>
  \<open>%p\<close> prints \<open>0x\<close> and eight hexadecimal digits that denote the pointer.
\<close>

lemma sprintf_p_numeral:
  "\<exists>ds. sprintf True (Some ''%p'') [VInt w] = Inr (10, ''0x'' @ ds)
      \<and> length ds = 8 \<and> read_num 16 ds = unat w"
proof -
  have "conv_text (CHR ''p'') 0 0 0 (arg_units (VInt w)) = Some (''0x'' @ hex8 w, [])"
    using int_arg_full [of 0 False w "[]"] by (simp add: conv_text_def number_text_pointer)
  then have "sprintf True (Some ''%p'') [VInt w] = Inr (10, ''0x'' @ hex8 w)"
    using sprintf_int_text [of "CHR ''p''" w "''0x'' @ hex8 w"] hex8_length [of w] by simp
  then show ?thesis using hex8_length read_hex8 by blast
qed

text \<open>
  The digit loop of \<open>printi\<close> never runs over its 65-byte buffer: with the terminator and a
  sign, the digits of any 32-bit number in any base take at most 34 bytes.
\<close>

lemma printi_buffer_fits:
  assumes "2 \<le> sint base"
  shows "length (digits u base convbase []) + 2 \<le> 34"
  using digits_length_32 [OF assms, of u convbase] by simp

text \<open>
  The field width is a minimum: a string is written with as many pad characters as it
  lacks, none when it is long enough, and two more characters when the hexadecimal prefix is on.
\<close>

lemma prints_field_width:
  assumes "0 \<le> sint width" "length str < 2147483648"
  shows "fst (prints out str width flags) =
    of_nat (max (length str) (unat width) + (if flags AND DISP_HEXD \<noteq> 0 then 2 else 0))"
proof -
  have w: "unat width = nat (sint width)" using assms(1) by (rule unat_nonneg_sint)
  have len: "sint (of_nat (length str) :: u32) = int (length str)"
    using assms(2) by (rule sint_of_nat_small)
  have "unat (width - of_nat (length str)) = unat width - length str" if "length str \<le> unat width"
    using that assms(2) by (subst unat_sub_le) (simp_all add: word_le_nat_alt addr_nat)
  then have "length (layout str width flags) =
      max (length str) (unat width) + (if flags AND DISP_HEXD \<noteq> 0 then 2 else 0)"
    using w len assms(1) by (auto simp: layout_def Let_def max_def)
  then show ?thesis by (simp add: prints_layout put_str_feed)
qed

end
