(* ===== verification/Kerror.thy ===== *)
theory Kerror
  imports Machine Stdio
begin

text \<open>
  Kernel state and failure (\<^verbatim>\<open>src/libc/kerror.c\<close>, \<^verbatim>\<open>include/kerror.h\<close>): the machine together
  with the console, printing as the kernel calls it, \<open>panic\<close>, which masks interrupts, prints
  its message and never returns, and the \<open>ASSERT\<close> macro.
\<close>

record kcore = machine +
  con :: console

definition lift_console :: "(console \<Rightarrow> (stop \<times> console) + console) \<Rightarrow> ('a kcore_scheme, unit) kernel" where
  "lift_console f s =
     (case f (con s) of
        Inl (e, c) \<Rightarrow> Inl (e, s\<lparr>con := c\<rparr>)
      | Inr c \<Rightarrow> Inr ((), s\<lparr>con := c\<rparr>))"

definition k_printf :: "string option \<Rightarrow> varg list \<Rightarrow> ('a kcore_scheme, unit) kernel" where
  "k_printf fmt args = lift_console (con_printf fmt args)"

definition k_printfln :: "string option \<Rightarrow> varg list \<Rightarrow> ('a kcore_scheme, unit) kernel" where
  "k_printfln fmt args = lift_console (con_printfln fmt args)"

definition vprintf :: "string option \<Rightarrow> va_list option \<Rightarrow> ('a kcore_scheme, unit) kernel" where
  "vprintf fmt args = lift_console (con_vprintf fmt args)"

definition disable_interupts :: "('a machine_scheme, unit) kernel" where
  "disable_interupts = kmodify (\<lambda>s. s\<lparr>intf := False\<rparr>)"

definition panic :: "string \<Rightarrow> varg list \<Rightarrow> ('a kcore_scheme, 'b) kernel" where
  "panic reason args =
     kthen disable_interupts
    (kthen (k_printfln (Some ''[PANIC] Halt and catch fire'') [])
    (kthen (vprintf (Some reason) (Some (va_start args)))
           (kstop (Panic reason))))"

text \<open>The macro passes the file name, the function name and the line number.\<close>

definition assert_reason :: string where
  "assert_reason = ''Assertion failed in %s:%s() at line %d''"

definition ASSERT :: "bool \<Rightarrow> string \<Rightarrow> string \<Rightarrow> u32 \<Rightarrow> ('a kcore_scheme, unit) kernel" where
  "ASSERT cond file func line =
     (if \<not> cond then panic assert_reason [VStr file, VStr func, VInt line] else kreturn ())"

section \<open>Printing changes the console only\<close>

lemma k_printf_ok:
  assumes "fmt_kinds fmt = Some ks" "list_all2 arg_fits ks args"
  shows "\<exists>c. k_printf (Some fmt) args s = Inr ((), s\<lparr>con := c\<rparr>)"
  using render_ok [OF assms, of "[]"]
  by (auto simp: k_printf_def lift_console_def con_printf_def print_screen_render)

lemma k_printfln_ok:
  assumes "fmt_kinds fmt = Some ks" "list_all2 arg_fits ks args"
  shows "\<exists>c. k_printfln (Some fmt) args s = Inr ((), s\<lparr>con := c\<rparr>)"
  using render_ok [OF assms, of "[]"]
  by (auto simp: k_printfln_def lift_console_def con_printfln_def print_screen_render)

lemma vprintf_ok:
  assumes "fmt_kinds fmt = Some ks" "list_all2 arg_fits ks args"
  shows "\<exists>c. vprintf (Some fmt) (Some (va_start args)) s = Inr ((), s\<lparr>con := c\<rparr>)"
  using render_ok [OF assms, of "[]"]
  by (auto simp: vprintf_def lift_console_def con_vprintf_def print_screen_render)

text \<open>What is shown is the text the format stands for.\<close>

lemma k_printf_shows:
  assumes "render fmt (va_start args) = Inr cs"
  shows "k_printf (Some fmt) args s = Inr ((), s\<lparr>con := show_text cs (con s)\<rparr>)"
  using assms by (simp add: k_printf_def lift_console_def con_printf_def print_screen_render)

lemma k_printfln_shows:
  assumes "render fmt (va_start args) = Inr cs"
  shows "k_printfln (Some fmt) args s = Inr ((), s\<lparr>con := show_text (cs @ [CHR 0x0A]) (con s)\<rparr>)"
  using assms by (simp add: k_printfln_def lift_console_def con_printfln_def print_screen_render show_text_append)
     (simp add: show_text_def screen_put_def)

lemma panic_stops:
  assumes "fmt_kinds reason = Some ks" "list_all2 arg_fits ks args"
  shows "\<exists>c. panic reason args s = Inl (Panic reason, s\<lparr>intf := False, con := c\<rparr>)"
proof -
  have "fmt_kinds ''[PANIC] Halt and catch fire'' = Some []" by simp
  then obtain c1 where c1: "k_printfln (Some ''[PANIC] Halt and catch fire'') [] (s\<lparr>intf := False\<rparr>)
      = Inr ((), s\<lparr>intf := False, con := c1\<rparr>)"
    using k_printfln_ok [of "''[PANIC] Halt and catch fire''" "[]" "[]" "s\<lparr>intf := False\<rparr>"] by auto
  obtain c2 where "vprintf (Some reason) (Some (va_start args)) (s\<lparr>intf := False, con := c1\<rparr>)
      = Inr ((), s\<lparr>intf := False, con := c2\<rparr>)"
    using vprintf_ok [OF assms, of "s\<lparr>intf := False, con := c1\<rparr>"] by auto
  with c1 show ?thesis by (auto simp: panic_def disable_interupts_def)
qed

lemma panic_never_returns: "panic reason args s \<noteq> Inr r"
  by (auto simp: panic_def kthen_Inr_iff)

lemma ASSERT_true [simp]: "ASSERT True file func line = kreturn ()"
  by (simp add: ASSERT_def)

lemma ASSERT_false:
  "\<exists>c. ASSERT False file func line s = Inl (Panic assert_reason, s\<lparr>intf := False, con := c\<rparr>)"
proof -
  have "fmt_kinds assert_reason = Some [KStr, KStr, KInt]"
    by (simp add: assert_reason_def conv_kinds_def)
  then show ?thesis unfolding ASSERT_def by (simp add: panic_stops)
qed

text \<open>Routines whose only effect is on the console; they compose.\<close>

definition prints_only :: "('a kcore_scheme, unit) kernel \<Rightarrow> bool" where
  "prints_only m \<longleftrightarrow> (\<forall>s. \<exists>c. m s = Inr ((), s\<lparr>con := c\<rparr>))"

lemma prints_onlyE:
  assumes "prints_only m"
  obtains c where "m s = Inr ((), s\<lparr>con := c\<rparr>)"
  using assms unfolding prints_only_def by blast

lemma prints_only_kthen: "prints_only m \<Longrightarrow> prints_only k \<Longrightarrow> prints_only (kthen m k)"
proof (unfold prints_only_def, intro allI)
  fix s :: "'a kcore_scheme"
  assume m: "\<forall>s. \<exists>c. m s = Inr ((), s\<lparr>con := c\<rparr>)" and k: "\<forall>s. \<exists>c. k s = Inr ((), s\<lparr>con := c\<rparr>)"
  from m obtain c where c: "m s = Inr ((), s\<lparr>con := c\<rparr>)" by blast
  from k obtain c' where "k (s\<lparr>con := c\<rparr>) = Inr ((), s\<lparr>con := c\<rparr>\<lparr>con := c'\<rparr>)" by blast
  with c show "\<exists>c. kthen m k s = Inr ((), s\<lparr>con := c\<rparr>)" by auto
qed

lemma prints_only_printf:
  "fmt_kinds fmt = Some ks \<Longrightarrow> list_all2 arg_fits ks args \<Longrightarrow> prints_only (k_printf (Some fmt) args)"
  unfolding prints_only_def using k_printf_ok by blast

lemma prints_only_printfln:
  "fmt_kinds fmt = Some ks \<Longrightarrow> list_all2 arg_fits ks args \<Longrightarrow> prints_only (k_printfln (Some fmt) args)"
  unfolding prints_only_def using k_printfln_ok by blast

section \<open>Properties\<close>

lemma lift_console_cases:
  obtains e c where "lift_console f s = Inl (e, s\<lparr>con := c\<rparr>)"
  | c where "lift_console f s = Inr ((), s\<lparr>con := c\<rparr>)"
  by (cases "f (con s)") (auto simp: lift_console_def)

text \<open>
  \<open>panic\<close> never returns to its caller, whatever it is asked to print: it stops with the
  interrupt flag cleared and without having touched memory.
\<close>

lemma panic_halts:
  "\<exists>e t. panic reason args s = Inl (e, t) \<and> \<not> intf t \<and> mem t = mem s"
proof -
  let ?s = "s\<lparr>intf := False\<rparr>"
  have off: "disable_interupts s = Inr ((), ?s)" by (simp add: disable_interupts_def)
  show ?thesis
  proof (rule lift_console_cases [of "con_printfln (Some ''[PANIC] Halt and catch fire'') []" ?s])
    fix e c
    assume "lift_console (con_printfln (Some ''[PANIC] Halt and catch fire'') []) ?s = Inl (e, ?s\<lparr>con := c\<rparr>)"
    with off show ?thesis by (simp add: panic_def k_printfln_def)
  next
    fix c
    assume c: "lift_console (con_printfln (Some ''[PANIC] Halt and catch fire'') []) ?s = Inr ((), ?s\<lparr>con := c\<rparr>)"
    show ?thesis
      by (rule lift_console_cases [of "con_vprintf (Some reason) (Some (va_start args))" "?s\<lparr>con := c\<rparr>"])
         (use off c in \<open>simp_all add: panic_def k_printfln_def vprintf_def\<close>)
  qed
qed

end
