(* ===== verification/Cstring.thy ===== *)
theory Cstring
  imports Machine
begin

text \<open>
  The memory and string routines (\<^verbatim>\<open>src/libc/string.c\<close>), byte by byte on the machine. A
  pointer that would step past the last address is undefined behaviour. The lemmas are
  proved once for any region that behaves like byte memory.
\<close>

section \<open>Operations\<close>

definition memset :: "u32 \<Rightarrow> u8 \<Rightarrow> u32 \<Rightarrow> ('a machine_scheme, u32) kernel" where
  "memset dst c n =
     kthen (kfor (unat n) (\<lambda>i. store8 (dst + of_nat i) c)) (kreturn dst)"

definition copy_byte :: "u32 \<Rightarrow> u32 \<Rightarrow> nat \<Rightarrow> ('a machine_scheme, unit) kernel" where
  "copy_byte dst src i = kbind (load8 (src + of_nat i)) (store8 (dst + of_nat i))"

definition memcpy :: "u32 \<Rightarrow> u32 \<Rightarrow> u32 \<Rightarrow> ('a machine_scheme, u32) kernel" where
  "memcpy dst src n = kthen (kfor (unat n) (copy_byte dst src)) (kreturn dst)"

definition memmove :: "u32 \<Rightarrow> u32 \<Rightarrow> u32 \<Rightarrow> ('a machine_scheme, u32) kernel" where
  "memmove dst src n =
     kthen (if dst < src then kfor (unat n) (copy_byte dst src)
            else kfor (unat n) (\<lambda>i. copy_byte dst src (unat n - 1 - i)))
           (kreturn dst)"

text \<open>
  The loops without a count end at a terminator. A pointer that steps past the last address
  and an \<open>int\<close> index that steps past its maximum are undefined behaviour. In \<open>strcpy\<close> the
  test comes after the copy and looks at the next byte: the terminator is not copied. Its
  return value is missing in the source, so the model returns nothing.
\<close>

definition int_max :: u32 where
  "int_max = 0x7FFFFFFF"

lemma unat_next: "a + 1 \<noteq> (0 :: u32) \<Longrightarrow> unat (a + 1) = Suc (unat a)"
proof -
  assume "a + 1 \<noteq> 0"
  then have "unat (a + 1) \<noteq> 0" by (simp add: unat_eq_0)
  moreover have sum: "unat (a + 1) = (unat a + 1) mod 4294967296" by (simp add: unat_word_ariths)
  ultimately have "unat a + 1 \<noteq> 4294967296" by (intro notI) simp
  with u32_less [of a] have "unat a + 1 < 4294967296" by linarith
  with sum show ?thesis by simp
qed

lemma next_addr_less: "a + 1 \<noteq> (0 :: u32) \<Longrightarrow> 4294967296 - unat (a + 1) < 4294967296 - unat a"
  using u32_less [of a] unat_next [of a] by linarith

lemma below_int_max: "i < int_max \<Longrightarrow> i + 1 \<noteq> 0"
proof
  assume "i < int_max" "i + 1 = 0"
  then have "i = - 1" by (simp add: add_eq_0_iff2)
  with \<open>i < int_max\<close> show False by (simp add: int_max_def)
qed

function strcpy :: "u32 \<Rightarrow> u32 \<Rightarrow> ('a machine_scheme, unit) kernel" where
  "strcpy dest src =
     kbind (load8 src) (\<lambda>b. kthen (store8 dest b)
       (if src + 1 = 0 then kstop Undefined
        else kbind (load8 (src + 1)) (\<lambda>c. if c \<noteq> 0 then strcpy (dest + 1) (src + 1) else kreturn ())))"
  by pat_completeness auto
termination
  by (relation "measure (\<lambda>(dest, src). 4294967296 - unat src)") (auto intro: next_addr_less)

function strlen_from :: "u32 \<Rightarrow> u32 \<Rightarrow> ('a machine_scheme, u32) kernel" where
  "strlen_from src i =
     kbind (load8 src) (\<lambda>b. if b = 0 then kreturn i
       else if i < int_max then strlen_from (src + 1) (i + 1) else kstop Undefined)"
  by pat_completeness auto
termination
  by (relation "measure (\<lambda>(src, i). 4294967296 - unat i)")
     (auto intro: next_addr_less dest: below_int_max)

definition strlen :: "u32 \<Rightarrow> ('a machine_scheme, u32) kernel" where
  "strlen src = strlen_from src 0"

function strcmp_from :: "u32 \<Rightarrow> u32 \<Rightarrow> u32 \<Rightarrow> ('a machine_scheme, u32) kernel" where
  "strcmp_from str1 str2 i =
     kbind (load8 (str1 + i)) (\<lambda>a. kbind (load8 (str2 + i)) (\<lambda>b.
       if a \<noteq> 0 \<and> b \<noteq> 0 then
         (if a \<noteq> b then kreturn 1
          else if i < int_max then strcmp_from str1 str2 (i + 1) else kstop Undefined)
       else if (a = 0 \<and> b \<noteq> 0) \<or> (a \<noteq> 0 \<and> b = 0) then kreturn 1
       else kreturn 0))"
  by pat_completeness auto
termination
  by (relation "measure (\<lambda>(str1, str2, i). 4294967296 - unat i)")
     (auto intro: next_addr_less dest: below_int_max)

definition strcmp :: "u32 \<Rightarrow> u32 \<Rightarrow> ('a machine_scheme, u32) kernel" where
  "strcmp str1 str2 = strcmp_from str1 str2 0"

declare strcpy.simps [simp del] strlen_from.simps [simp del] strcmp_from.simps [simp del]

section \<open>Blocks of addresses\<close>

definition block :: "u32 \<Rightarrow> nat \<Rightarrow> u32 set" where
  "block a n = (\<lambda>i. a + of_nat i) ` {..<n}"

lemma block_mem [intro]: "i < n \<Longrightarrow> a + of_nat i \<in> block a n"
  by (simp add: block_def)

lemma block_0 [simp]: "block a 0 = {}"
  by (simp add: block_def)

lemma block_Suc: "block a (Suc n) = insert (a + of_nat n) (block a n)"
  by (auto simp: block_def lessThan_Suc)

lemma block_mono: "m \<le> n \<Longrightarrow> block a m \<subseteq> block a n"
  by (auto simp: block_def)

lemma of_nat_u32_inj: "i < 4294967296 \<Longrightarrow> j < 4294967296 \<Longrightarrow> (of_nat i :: u32) = of_nat j \<longleftrightarrow> i = j"
  by (metis unat_of_nat_u32)

lemma mem_block_iff:
  assumes "unat a + n \<le> 4294967296"
  shows "x \<in> block a n \<longleftrightarrow> unat a \<le> unat x \<and> unat x < unat a + n"
proof
  assume "x \<in> block a n"
  then obtain i where "i < n" "x = a + of_nat i" by (auto simp: block_def)
  moreover from this(1) assms have "unat (a + of_nat i) = unat a + i"
    using u32_less [of a] by (simp add: addr_nat)
  ultimately show "unat a \<le> unat x \<and> unat x < unat a + n" by simp
next
  assume x: "unat a \<le> unat x \<and> unat x < unat a + n"
  then have "a + of_nat (unat x - unat a) = x" by simp
  moreover have "unat x - unat a < n" using x by linarith
  ultimately show "x \<in> block a n" using block_mem by metis
qed

text \<open>
  \<open>copied tr dst src I s s'\<close>: \<open>s'\<close> is \<open>s\<close> with the source bytes of the offsets \<open>I\<close> written at
  the destination and nothing else changed.
\<close>

definition copied ::
  "(u32 \<Rightarrow> u32) \<Rightarrow> u32 \<Rightarrow> u32 \<Rightarrow> nat set \<Rightarrow> 'a machine_scheme \<Rightarrow> 'a machine_scheme \<Rightarrow> bool" where
  "copied tr dst src I s s' \<longleftrightarrow> (\<exists>m. s' = s\<lparr>mem := m\<rparr>)
     \<and> (\<forall>i\<in>I. mem s' (tr (dst + of_nat i)) = mem s (tr (src + of_nat i)))
     \<and> (\<forall>x. x \<notin> tr ` (\<lambda>i. dst + of_nat i) ` I \<longrightarrow> mem s' x = mem s x)"

text \<open>\<open>filled A c s\<close>: every physical byte of \<open>A\<close> holds \<open>c\<close>, the rest of \<open>s\<close> is unchanged.\<close>

definition filled :: "u32 set \<Rightarrow> u8 \<Rightarrow> 'a machine_scheme \<Rightarrow> 'a machine_scheme" where
  "filled A c s = s\<lparr>mem := (\<lambda>x. if x \<in> A then c else mem s x)\<rparr>"

section \<open>The routines on a region of byte memory\<close>

context byte_region
begin

lemma memset_region:
  assumes "ok s" "block dst (unat n) \<subseteq> D"
  shows "memset dst c n s = Inr (dst, filled (tr ` block dst (unat n)) c s)"
    and "ok (filled (tr ` block dst (unat n)) c s)"
proof -
  let ?S = "\<lambda>k. filled (tr ` block dst k) c s"
  have "\<exists>t. kfor (unat n) (\<lambda>i. store8 (dst + of_nat i) c) s = Inr ((), t) \<and> t = ?S (unat n) \<and> ok t"
  proof (rule kfor_invariant)
    show "s = ?S 0 \<and> ok s" using assms(1) by (simp add: filled_def)
    fix i t
    assume "i < unat n" and "t = ?S i \<and> ok t"
    moreover from this(1) have "dst + of_nat i \<in> D" using assms(2) by auto
    moreover have "(?S i)\<lparr>mem := (mem (?S i))(tr (dst + of_nat i) := c)\<rparr> = ?S (Suc i)"
      by (simp add: block_Suc filled_def fun_upd_def cong: if_cong) (meson insert_iff)
    ultimately show "\<exists>t'. store8 (dst + of_nat i) c t = Inr ((), t') \<and> t' = ?S (Suc i) \<and> ok t'"
      using store8_region [of t "dst + of_nat i" c] by auto
  qed
  then show "memset dst c n s = Inr (dst, ?S (unat n))" "ok (?S (unat n))"
    by (auto simp: memset_def)
qed

text \<open>
  A copy in the order \<open>ord 0, ord 1, \<dots>\<close> is right as long as no round reads a byte that an
  earlier round wrote.
\<close>

lemma copy_order:
  assumes "ok s" "block dst n \<subseteq> D" "block src n \<subseteq> D" "n \<le> 4294967296"
    and ord: "inj_on ord {..<n}" "ord ` {..<n} \<subseteq> {..<n}"
    and apart: "\<And>i j. j < i \<Longrightarrow> i < n \<Longrightarrow> dst + of_nat (ord j) \<noteq> src + of_nat (ord i)"
  shows "\<exists>s'. kfor n (\<lambda>i. copy_byte dst src (ord i)) s = Inr ((), s')
            \<and> copied tr dst src (ord ` {..<n}) s s' \<and> ok s'"
proof (rule kfor_invariant)
  show "copied tr dst src (ord ` {..<0}) s s \<and> ok s" using assms(1)
    by (simp add: copied_def) (metis machine.surjective machine.update_convs(1))
  fix i t
  assume i: "i < n" and t: "copied tr dst src (ord ` {..<i}) s t \<and> ok t"
  from i ord(2) have oi: "ord i < n" by auto
  let ?d = "dst + of_nat (ord i)" and ?f = "src + of_nat (ord i)"
  from oi assms(2,3) have inD: "?d \<in> D" "?f \<in> D" by auto
  have below: "dst + of_nat (ord j) \<in> D" "ord j < n" if "j < i" for j
  proof -
    show "ord j < n" using that i ord(2) by (auto simp: image_subset_iff)
    then show "dst + of_nat (ord j) \<in> D" using assms(2) by auto
  qed
  have "tr ?f \<notin> tr ` (\<lambda>k. dst + of_nat k) ` ord ` {..<i}"
  proof
    assume "tr ?f \<in> tr ` (\<lambda>k. dst + of_nat k) ` ord ` {..<i}"
    then obtain j where "j < i" "tr ?f = tr (dst + of_nat (ord j))" by auto
    with below inD(2) inj [OF assms(1)] have "?f = dst + of_nat (ord j)" by (metis inj_onD)
    with apart [OF \<open>j < i\<close> i] show False by simp
  qed
  with t have keep_src: "mem t (tr ?f) = mem s (tr ?f)" by (simp add: copied_def)
  have keep_dst: "tr (dst + of_nat (ord j)) \<noteq> tr ?d" if "j < i" for j
  proof -
    have "ord j \<noteq> ord i" using that i ord(1) by (auto dest: inj_onD)
    with below(2) [OF that] oi assms(4) have "dst + of_nat (ord j) \<noteq> ?d"
      using of_nat_u32_inj [of "ord j" "ord i"] by simp
    with below(1) [OF that] inD(1) inj [OF assms(1)] show ?thesis by (metis inj_onD)
  qed
  let ?t = "t\<lparr>mem := (mem t)(tr ?d := mem t (tr ?f))\<rparr>"
  have "copy_byte dst src (ord i) t = Inr ((), ?t)" "ok ?t"
    using t inD load8_region store8_region by (simp_all add: copy_byte_def)
  moreover have "copied tr dst src (ord ` {..<Suc i}) s ?t"
    using t keep_src keep_dst unfolding copied_def by (auto simp: lessThan_Suc)
  ultimately show "\<exists>t'. copy_byte dst src (ord i) t = Inr ((), t')
      \<and> copied tr dst src (ord ` {..<Suc i}) s t' \<and> ok t'" by blast
qed

lemma memcpy_region:
  assumes "ok s" "block dst (unat n) \<subseteq> D" "block src (unat n) \<subseteq> D"
    and "block dst (unat n) \<inter> block src (unat n) = {}"
  shows "\<exists>s'. memcpy dst src n s = Inr (dst, s') \<and> copied tr dst src {..<unat n} s s' \<and> ok s'"
proof -
  have "dst + of_nat j \<noteq> src + of_nat i" if "j < i" "i < unat n" for i j
    using assms(4) block_mem [of j "unat n" dst] block_mem [of i "unat n" src] that
    by (metis disjoint_iff order.strict_trans)
  then show ?thesis
    using copy_order [OF assms(1,2,3), of "\<lambda>i. i"] u32_less [of n]
    by (auto simp: memcpy_def less_imp_le)
qed

text \<open>The blocks may overlap: the direction is chosen so that the copy is still right.\<close>

lemma memmove_region:
  assumes "ok s" "block dst (unat n) \<subseteq> D" "block src (unat n) \<subseteq> D"
    and fits: "unat dst + unat n \<le> 4294967296" "unat src + unat n \<le> 4294967296"
  shows "\<exists>s'. memmove dst src n s = Inr (dst, s') \<and> copied tr dst src {..<unat n} s s' \<and> ok s'"
proof -
  have at: "unat (dst + of_nat i) = unat dst + i" "unat (src + of_nat i) = unat src + i"
    if "i < unat n" for i
    using that fits u32_less [of n] by (simp_all add: addr_nat)
  show ?thesis
  proof (cases "dst < src")
    case True
    then have "unat dst < unat src" by (simp add: word_less_nat_alt)
    then have "dst + of_nat j \<noteq> src + of_nat i" if "j < i" "i < unat n" for i j
      using at(1) [of j] at(2) [of i] that by (intro notI) simp
    with True show ?thesis
      using copy_order [OF assms(1,2,3), of "\<lambda>i. i"] u32_less [of n]
      by (auto simp: memmove_def less_imp_le)
  next
    case False
    then have le: "unat src \<le> unat dst" by (simp add: word_less_nat_alt)
    let ?ord = "\<lambda>i. unat n - 1 - i"
    have "inj_on ?ord {..<unat n}" by (auto simp: inj_on_def)
    moreover have range: "?ord ` {..<unat n} = {..<unat n}"
    proof (rule equalityI)
      show "{..<unat n} \<subseteq> ?ord ` {..<unat n}"
      proof
        fix x
        assume "x \<in> {..<unat n}"
        then show "x \<in> ?ord ` {..<unat n}" by (intro image_eqI [of _ _ "?ord x"]) auto
      qed
    qed auto
    moreover have "dst + of_nat (?ord j) \<noteq> src + of_nat (?ord i)" if "j < i" "i < unat n" for i j
    proof -
      have "?ord i < ?ord j" "?ord j < unat n" using that by linarith+
      then have "unat (src + of_nat (?ord i)) < unat (dst + of_nat (?ord j))"
        using at(1) [of "?ord j"] at(2) [of "?ord i"] le by simp
      then show ?thesis by auto
    qed
    ultimately have "\<exists>s'. kfor (unat n) (\<lambda>i. copy_byte dst src (?ord i)) s = Inr ((), s')
        \<and> copied tr dst src {..<unat n} s s' \<and> ok s'"
      using copy_order [OF assms(1,2,3) less_imp_le [OF u32_less], of ?ord] by simp
    with False show ?thesis by (auto simp: memmove_def)
  qed
qed

text \<open>
  Strings are read by their view: \<open>cstr tr s a cs\<close> holds when the bytes \<open>cs\<close>, none of them
  zero, stand at \<open>a\<close> and a zero follows.
\<close>

end

definition cstr :: "(u32 \<Rightarrow> u32) \<Rightarrow> 'a machine_scheme \<Rightarrow> u32 \<Rightarrow> u8 list \<Rightarrow> bool" where
  "cstr tr s a cs \<longleftrightarrow> 0 \<notin> set cs \<and> mem s (tr (a + of_nat (length cs))) = 0
     \<and> (\<forall>i<length cs. mem s (tr (a + of_nat i)) = cs ! i)"

lemma cstr_Nil [simp]: "cstr tr s a [] \<longleftrightarrow> mem s (tr a) = 0"
  by (simp add: cstr_def)

lemma cstr_Cons [simp]:
  "cstr tr s a (c # cs) \<longleftrightarrow> c \<noteq> 0 \<and> mem s (tr a) = c \<and> cstr tr s (a + 1) cs"
  by (auto simp: cstr_def less_Suc_eq_0_disj add.assoc add.commute [of 1])

lemma block_Cons: "block a (Suc n) = insert a (block (a + 1) n)"
  by (auto simp: block_def image_iff lessThan_Suc_eq_insert_0 add.assoc)

lemma block_first_apart: "n < 4294967296 \<Longrightarrow> a \<notin> block (a + 1) n"
proof
  assume "n < 4294967296" and "a \<in> block (a + 1) n"
  then obtain i where i: "i < n" "a = a + 1 + of_nat i" by (auto simp: block_def)
  then have "a + of_nat (Suc i) = a + of_nat 0" by (simp add: add.assoc)
  then have "(of_nat (Suc i) :: u32) = of_nat 0" by (rule add_left_imp_eq)
  moreover have "Suc i < 4294967296" using i(1) \<open>n < 4294967296\<close> by linarith
  ultimately show False using of_nat_u32_inj [of "Suc i" 0] by simp
qed

lemma copied_Cons:
  assumes "s1 = s\<lparr>mem := (mem s)(tr dest := mem s (tr src))\<rparr>"
    and "copied tr (dest + 1) (src + 1) {..<n} s1 s'"
    and "tr dest \<notin> tr ` block (dest + 1) n"
    and "\<And>i. i < n \<Longrightarrow> mem s1 (tr (src + 1 + of_nat i)) = mem s (tr (src + 1 + of_nat i))"
  shows "copied tr dest src {..<Suc n} s s'"
proof -
  have img: "(\<lambda>i. dest + of_nat i) ` {..<Suc n} = insert dest (block (dest + 1) n)"
    by (simp flip: block_def add: block_Cons)
  have "mem s' (tr dest) = mem s1 (tr dest)"
    using assms(2,3) unfolding copied_def block_def by blast
  then have first: "mem s' (tr dest) = mem s (tr src)" by (simp add: assms(1))
  have "mem s' (tr (dest + of_nat i)) = mem s (tr (src + of_nat i))" if "i < Suc n" for i
    using that first assms(2,4) by (cases i) (simp_all add: copied_def add.assoc)
  moreover have "mem s' x = mem s x" if "x \<notin> tr ` insert dest (block (dest + 1) n)" for x
    using that assms(1,2) by (auto simp: copied_def block_def)
  moreover have "\<exists>m. s' = s\<lparr>mem := m\<rparr>" using assms(1,2) by (auto simp: copied_def)
  ultimately show ?thesis unfolding copied_def img by auto
qed

context byte_region
begin

lemma strlen_from_region:
  assumes "ok s" "block a (Suc (length cs)) \<subseteq> D" "cstr tr s a cs"
    and "unat i + length cs \<le> 2147483647"
  shows "strlen_from a i s = Inr (i + of_nat (length cs), s)"
  using assms(2-4)
proof (induction cs arbitrary: a i)
  case Nil
  then show ?case
    using assms(1) by (subst strlen_from.simps) (simp add: load8_region block_Cons)
next
  case (Cons c cs)
  then have i: "i < int_max" by (simp add: int_max_def word_less_nat_alt)
  then have "unat (i + 1) = Suc (unat i)" using below_int_max unat_next by blast
  with Cons have "strlen_from (a + 1) (i + 1) s = Inr (i + 1 + of_nat (length cs), s)"
    by (simp add: block_Cons)
  with Cons.prems i show ?case
    using assms(1) by (subst strlen_from.simps) (simp add: load8_region block_Cons add.assoc)
qed

lemma strlen_region:
  assumes "ok s" "block a (Suc (length cs)) \<subseteq> D" "cstr tr s a cs" "length cs \<le> 2147483647"
  shows "strlen a s = Inr (of_nat (length cs), s)"
  using strlen_from_region [OF assms(1-3), of 0] assms(4) by (simp add: strlen_def)

lemma strcmp_from_region:
  assumes "ok s" "block (a + i) (Suc (length cs)) \<subseteq> D" "block (b + i) (Suc (length ds)) \<subseteq> D"
    and "cstr tr s (a + i) cs" "cstr tr s (b + i) ds" "unat i + length cs \<le> 2147483647"
  shows "strcmp_from a b i s = Inr (if cs = ds then 0 else 1, s)"
  using assms(2-)
proof (induction cs arbitrary: i ds)
  case Nil
  then show ?case
    using assms(1) by (subst strcmp_from.simps, cases ds) (simp_all add: load8_region block_Cons)
next
  case (Cons c cs)
  show ?case
  proof (cases ds)
    case Nil
    with Cons.prems show ?thesis
      using assms(1) by (subst strcmp_from.simps) (simp add: load8_region block_Cons)
  next
    case (Cons d ds')
    note prems = Cons.prems [unfolded Cons]
    from prems have i: "i < int_max" by (simp add: int_max_def word_less_nat_alt)
    then have "unat (i + 1) = Suc (unat i)" using below_int_max unat_next by blast
    with prems have "strcmp_from a b (i + 1) s = Inr (if cs = ds' then 0 else 1, s)"
      by (intro Cons.IH) (simp_all add: block_Cons add.assoc)
    with prems i Cons show ?thesis
      using assms(1) by (subst strcmp_from.simps) (auto simp: load8_region block_Cons)
  qed
qed

lemma strcmp_region:
  assumes "ok s" "block a (Suc (length cs)) \<subseteq> D" "block b (Suc (length ds)) \<subseteq> D"
    and "cstr tr s a cs" "cstr tr s b ds" "length cs \<le> 2147483647"
  shows "strcmp a b s = Inr (if cs = ds then 0 else 1, s)"
  using strcmp_from_region [of s a 0 cs b ds] assms by (simp add: strcmp_def)

text \<open>\<open>strcpy\<close> copies a non-empty string without its terminator.\<close>

lemma strcpy_region:
  assumes "ok s" "block dest (length cs) \<subseteq> D" "block src (Suc (length cs)) \<subseteq> D"
    and "block dest (length cs) \<inter> block src (Suc (length cs)) = {}"
    and "cstr tr s src cs" "cs \<noteq> []" "unat src + length cs < 4294967296"
  shows "\<exists>s'. strcpy dest src s = Inr ((), s') \<and> copied tr dest src {..<length cs} s s' \<and> ok s'"
  using assms
proof (induction cs arbitrary: s dest src)
  case Nil
  then show ?case by simp
next
  case (Cons c cs)
  let ?s = "s\<lparr>mem := (mem s)(tr dest := c)\<rparr>"
  let ?n = "length cs"
  from Cons.prems(2,3) have D: "dest \<in> D" "block (dest + 1) ?n \<subseteq> D" "src \<in> D" "src + 1 \<in> D"
      "block (src + 1) (Suc ?n) \<subseteq> D" by (simp_all add: block_Cons)
  have nx: "src + 1 \<noteq> 0"
  proof
    assume "src + 1 = 0"
    then have "src = - 1" by (simp add: add_eq_0_iff2)
    with Cons.prems(7) show False by (simp add: unsigned_minus_1_eq_mask mask_eq_exp_minus_1)
  qed
  have step: "load8 src s = Inr (c, s)" "store8 dest c s = Inr ((), ?s)" "ok ?s"
    using Cons.prems(1,5) D load8_region store8_region by simp_all
  have keep: "mem ?s (tr x) = mem s (tr x)" if "x \<in> block src (Suc (length (c # cs)))" for x
  proof -
    have "x \<noteq> dest" using that Cons.prems(4) by (auto simp: block_Cons)
    moreover have "x \<in> D" using that Cons.prems(3) by blast
    ultimately show ?thesis using D(1) inj [OF Cons.prems(1)] by (auto dest: inj_onD)
  qed
  have src_at: "src + (1 + of_nat i) \<in> block src (Suc (length (c # cs)))" if "i < Suc ?n" for i
    using block_mem [of "Suc i" "Suc (length (c # cs))" src] that by simp
  show ?case
  proof (cases "cs = []")
    case True
    then have "load8 (src + 1) ?s = Inr (0, ?s)"
      using load8_region [OF step(3) D(4)] keep [OF src_at [of 0]] Cons.prems(5) by simp
    then have "strcpy dest src s = Inr ((), ?s)"
      using step nx by (subst strcpy.simps) simp
    moreover have "copied tr dest src {..<length (c # cs)} s ?s"
      using True Cons.prems(5) by (auto simp: copied_def)
    ultimately show ?thesis using step(3) by blast
  next
    case False
    have cs: "cstr tr ?s (src + 1) cs"
      using Cons.prems(5) keep [OF src_at] unfolding cstr_Cons
      by (simp add: cstr_def add.assoc del: fun_upd_apply)
    have "unat (src + 1) + ?n < 4294967296"
      using Cons.prems(7) unat_next [OF nx] by simp
    moreover have "block (dest + 1) ?n \<inter> block (src + 1) (Suc ?n) = {}"
      using Cons.prems(4) by (auto simp: block_Cons)
    ultimately obtain s' where s': "strcpy (dest + 1) (src + 1) ?s = Inr ((), s')"
        "copied tr (dest + 1) (src + 1) {..<?n} ?s s'" "ok s'"
      using Cons.IH [OF step(3) D(2) D(5) _ cs False] by blast
    obtain d where "load8 (src + 1) ?s = Inr (d, ?s)" "d \<noteq> 0"
      using load8_region [OF step(3) D(4)] cs False by (cases cs) auto
    with s'(1) have "strcpy dest src s = Inr ((), s')"
      using step nx by (subst strcpy.simps) simp
    moreover have "copied tr dest src {..<length (c # cs)} s s'"
    proof -
      have "tr dest \<notin> tr ` block (dest + 1) ?n"
        using block_first_apart [of ?n dest] Cons.prems(7) D(1,2) inj [OF Cons.prems(1)]
        by (auto dest: inj_onD)
      moreover have "mem ?s (tr (src + 1 + of_nat i)) = mem s (tr (src + 1 + of_nat i))" if "i < ?n" for i
        using keep [OF src_at [of i]] that by (simp add: add.assoc)
      moreover have "?s = s\<lparr>mem := (mem s)(tr dest := mem s (tr src))\<rparr>"
        using Cons.prems(5) by simp
      ultimately show ?thesis using copied_Cons [OF _ s'(2)] by (metis length_Cons)
    qed
    ultimately show ?thesis using s'(3) by blast
  qed
qed

end

section \<open>Properties\<close>

text \<open>
  On mapped memory \<open>memset\<close> returns its destination, leaves the byte in every place of the
  block and changes nothing else.
\<close>

lemma memset_fills:
  assumes "mapped D tr s" "block dst (unat n) \<subseteq> D"
  shows "memset dst c n s = Inr (dst, filled (tr ` block dst (unat n)) c s)"
  by (rule vm.memset_region(1) [OF assms])

text \<open>
  C30: \<open>memmove\<close> is right for overlapping blocks: afterwards the destination holds the bytes the
  source held before the call, and nothing else has changed.
\<close>

theorem memmove_overlap:
  assumes "mapped D tr s" "block dst (unat n) \<subseteq> D" "block src (unat n) \<subseteq> D"
    and "unat dst + unat n \<le> 4294967296" "unat src + unat n \<le> 4294967296"
  shows "\<exists>s'. memmove dst src n s = Inr (dst, s') \<and> copied tr dst src {..<unat n} s s'"
  using vm.memmove_region [OF assms] by blast

text \<open>
  \<open>strcmp\<close> decides equality of terminated strings: it returns 0 when they are equal and 1
  when they differ, and writes nothing.
\<close>

lemma strcmp_decides:
  assumes "mapped D tr s" "block a (Suc (length cs)) \<subseteq> D" "block b (Suc (length ds)) \<subseteq> D"
    and "cstr tr s a cs" "cstr tr s b ds" "length cs \<le> 2147483647"
  shows "strcmp a b s = Inr (if cs = ds then 0 else 1, s)"
  by (rule vm.strcmp_region [OF assms])

text \<open>
  C39: \<open>strcpy\<close> copies the characters of a non-empty string and nothing more: the bytes of the
  destination from the string's length on, where the terminator belongs, keep their values.
\<close>

theorem strcpy_copies_characters:
  assumes "mapped D tr s" "block dest (length cs) \<subseteq> D" "block src (Suc (length cs)) \<subseteq> D"
    and "block dest (length cs) \<inter> block src (Suc (length cs)) = {}"
    and "cstr tr s src cs" "cs \<noteq> []" "unat src + length cs < 4294967296"
  shows "\<exists>s'. strcpy dest src s = Inr ((), s') \<and> copied tr dest src {..<length cs} s s'"
  using vm.strcpy_region [OF assms] by blast

text \<open>A machine with paging off, on which the properties are applied.\<close>

definition flat_machine :: "(u32 \<Rightarrow> u8) \<Rightarrow> machine" where
  "flat_machine m = \<lparr>mem = m, cr0 = 0, cr2 = 0, cr3 = 0, intf = True\<rparr>"

lemma flat_machine_mapped: "mapped UNIV (\<lambda>va. va) (flat_machine m)"
  by (auto simp: mapped_def mmu_walk_def walk_reads_def paging_on_def flat_machine_def)

theorem memmove_overlap_witness:
  "\<exists>s'. memmove 0x1001 0x1000 3 (flat_machine ucast) = Inr (0x1001, s')
      \<and> copied (\<lambda>va. va) 0x1001 0x1000 {..<3} (flat_machine ucast) s'"
  using memmove_overlap [OF flat_machine_mapped [of ucast], where dst = "0x1001" and n = 3 and src = "0x1000"] by simp

theorem strcpy_copies_characters_witness:
  "\<exists>s'. strcpy 0x2000 0x1000 (flat_machine ((\<lambda>_. 0)(0x1000 := 104, 0x2001 := 99))) = Inr ((), s')
      \<and> copied (\<lambda>va. va) 0x2000 0x1000 {..<1} (flat_machine ((\<lambda>_. 0)(0x1000 := 104, 0x2001 := 99))) s'"
  using strcpy_copies_characters [OF flat_machine_mapped [of "(\<lambda>_. 0)(0x1000 := 104, 0x2001 := 99)"],
      where dest = "0x2000" and cs = "[104]" and src = "0x1000"]
  by (simp add: flat_machine_def block_Cons)

end
