(* ===== verification/Alloc.thy ===== *)
theory Alloc
  imports Kerror Cstring
begin

unbundle bit_operations_syntax

text \<open>
  The boot-time allocator (\<^verbatim>\<open>src/mm/alloc.c\<close>): a bump allocator over the arena between two
  linker symbols, with a plain and a page-aligned request. The locale states what clients
  rely on: a request moves the end of the used part, and the block it returns starts between
  the old and the new end.
\<close>

record alloc_st = kcore +
  initialized :: u8
  initialBase :: u32
  currentBase :: u32
  maxBase :: u32

definition PAGE_SIZE :: u32 where "PAGE_SIZE = 0x1000"
definition PAGE_ALIGN :: u32 where "PAGE_ALIGN = 0xFFFFF000"

definition kmalloc_early_init :: "u32 \<Rightarrow> u32 \<Rightarrow> ('a alloc_st_scheme, unit) kernel" where
  "kmalloc_early_init base limit =
     kthen (ASSERT (base < limit) ''src/mm/alloc.c'' ''kmalloc_early_init'' 25)
    (kthen (k_printf (Some (''kmalloc_early [%x, %x]'' @ [CHR 0x0A])) [VInt base, VInt limit])
           (kmodify (\<lambda>s. s\<lparr>initialBase := base, currentBase := base, maxBase := limit, initialized := 1\<rparr>)))"

definition no_base_reason :: string where
  "no_base_reason = ''kmalloc_early: no base address initialized'' @ [CHR 0x0A]"

definition out_of_memory_reason :: string where
  "out_of_memory_reason =
     ''kmalloc_early: %u byte allocation caused us to run out of memory '' @ ''(%u bytes left)'' @ [CHR 0x0A]"

definition no_base_align_reason :: string where
  "no_base_align_reason = ''kmalloc_early_align: no base address initialized'' @ [CHR 0x0A]"

definition kmalloc_early :: "u32 \<Rightarrow> ('a alloc_st_scheme, u32) kernel" where
  "kmalloc_early n s =
     (if initialized s = 0 then panic no_base_reason [] s
      else if n = 0 then kreturn 0 s
      else if n + currentBase s > maxBase s
      then panic out_of_memory_reason [VInt n, VInt (maxBase s - currentBase s)] s
      else kthen (kmodify (\<lambda>s. s\<lparr>currentBase := currentBase s + n\<rparr>)) (kreturn (currentBase s)) s)"

definition kmalloc_early_align :: "u32 \<Rightarrow> ('a alloc_st_scheme, u32) kernel" where
  "kmalloc_early_align n s =
     (if initialized s = 0 then panic no_base_align_reason [] s
      else if n = 0 then kreturn 0 s
      else kthen (kmodify (\<lambda>s. if currentBase s AND NOT PAGE_ALIGN \<noteq> 0
                              then s\<lparr>currentBase := (currentBase s AND PAGE_ALIGN) + PAGE_SIZE\<rparr>
                              else s))
                 (kmalloc_early n) s)"

section \<open>Rounding up to a page\<close>

definition page_up :: "u32 \<Rightarrow> u32" where
  "page_up a = (if a AND NOT PAGE_ALIGN \<noteq> 0 then (a AND PAGE_ALIGN) + PAGE_SIZE else a)"

lemma NOT_PAGE_ALIGN: "NOT PAGE_ALIGN = 0xFFF"
  by (simp add: PAGE_ALIGN_def)

lemma offset_zero_iff: "(a :: u32) AND 0xFFF = 0 \<longleftrightarrow> unat a mod 4096 = 0"
  by (simp add: word_unat_eq_iff unat_and_offset_mask)

lemma page_up_bounds:
  assumes "unat a \<le> 4294963200"
  shows "unat a \<le> unat (page_up a)" "unat (page_up a) < unat a + 4096"
    "unat (page_up a) mod 4096 = 0"
proof -
  define q r where "q = unat a div 4096" and "r = unat a mod 4096"
  have a: "unat a = q * 4096 + r" and r: "r < 4096" by (simp_all add: q_def r_def)
  have "unat (page_up a) = (if r = 0 then unat a else q * 4096 + 4096)"
  proof (cases "r = 0")
    case False
    moreover from this a assms have "q * 4096 + 4096 < 4294967296" by linarith
    ultimately show ?thesis
      by (simp add: page_up_def NOT_PAGE_ALIGN offset_zero_iff r_def q_def)
         (simp add: PAGE_ALIGN_def PAGE_SIZE_def addr_nat)
  qed (simp add: page_up_def NOT_PAGE_ALIGN offset_zero_iff r_def)
  moreover have "(q * 4096 + 4096) mod 4096 = 0" by (simp only: mod_add_self2 mod_mult_self2_is_0)
  moreover have "unat a mod 4096 = r" by (simp add: r_def)
  ultimately show "unat a \<le> unat (page_up a)" "unat (page_up a) < unat a + 4096"
    "unat (page_up a) mod 4096 = 0" using a r by (cases "r = 0"; simp)+
qed

section \<open>One request\<close>

text \<open>
  The arena is well formed when the allocator is initialised, the used part lies in it and it
  ends low enough for the next page boundary to be an address.
\<close>

definition arena_ok :: "'a alloc_st_scheme \<Rightarrow> bool" where
  "arena_ok s \<longleftrightarrow> initialized s \<noteq> 0 \<and> initialBase s \<le> currentBase s
     \<and> currentBase s \<le> maxBase s \<and> unat (maxBase s) \<le> 4294963200"

lemma kmalloc_early_run:
  assumes "arena_ok s" "n \<noteq> 0" "unat (currentBase s) + unat n \<le> unat (maxBase s)"
  shows "kmalloc_early n s = Inr (currentBase s, s\<lparr>currentBase := currentBase s + n\<rparr>)"
    and "arena_ok (s\<lparr>currentBase := currentBase s + n\<rparr>)"
proof -
  have "unat (currentBase s + n) = unat (currentBase s) + unat n"
    using assms(3) u32_less [of "maxBase s"] by (intro unat_add_small) linarith
  then have "\<not> maxBase s < n + currentBase s" "initialBase s \<le> currentBase s + n"
    using assms by (simp_all add: word_le_nat_alt word_less_nat_alt add.commute arena_ok_def)
  then show "kmalloc_early n s = Inr (currentBase s, s\<lparr>currentBase := currentBase s + n\<rparr>)"
    and "arena_ok (s\<lparr>currentBase := currentBase s + n\<rparr>)"
    using assms(1,2) by (simp_all add: kmalloc_early_def arena_ok_def add.commute)
qed

lemma kmalloc_early_align_page_up:
  assumes "initialized s \<noteq> 0" "n \<noteq> 0"
  shows "kmalloc_early_align n s = kmalloc_early n (s\<lparr>currentBase := page_up (currentBase s)\<rparr>)"
  using assms by (simp add: kmalloc_early_align_def page_up_def)

lemma arena_ok_page_up:
  assumes "arena_ok s" "unat (page_up (currentBase s)) \<le> unat (maxBase s)"
  shows "arena_ok (s\<lparr>currentBase := page_up (currentBase s)\<rparr>)"
  using assms page_up_bounds(1) [of "currentBase s"]
  by (auto simp: arena_ok_def word_le_nat_alt)

lemma kmalloc_early_align_run:
  assumes "arena_ok s" "n \<noteq> 0" "unat (page_up (currentBase s)) + unat n \<le> unat (maxBase s)"
  defines "a \<equiv> page_up (currentBase s)"
  shows "kmalloc_early_align n s = Inr (a, s\<lparr>currentBase := a + n\<rparr>)"
    and "arena_ok (s\<lparr>currentBase := a + n\<rparr>)"
  using kmalloc_early_run [OF arena_ok_page_up [OF assms(1)], of n] assms
  by (simp_all add: kmalloc_early_align_page_up arena_ok_def)

lemma out_of_memory_panics:
  "\<exists>c. panic out_of_memory_reason [VInt a, VInt b] s
     = Inl (Panic out_of_memory_reason, s\<lparr>intf := False, con := c\<rparr>)"
  by (rule panic_stops [where ks = "[KInt, KInt]"])
     (simp_all add: out_of_memory_reason_def conv_kinds_def)

text \<open>
  The overflow of \<open>size + currentBase\<close> is not checked: the exhaustion test is right only for
  requests that do not wrap.
\<close>

lemma kmalloc_early_exhausted:
  assumes "arena_ok s" "unat (maxBase s) < unat (currentBase s) + unat n"
    and "unat (currentBase s) + unat n < 4294967296"
  shows "\<exists>c. kmalloc_early n s = Inl (Panic out_of_memory_reason, s\<lparr>intf := False, con := c\<rparr>)"
proof -
  have "unat (n + currentBase s) = unat n + unat (currentBase s)"
    by (rule unat_add_small) (use assms(3) in linarith)
  then have "maxBase s < n + currentBase s"
    using assms(2) by (simp add: word_less_nat_alt)
  moreover have "n \<noteq> 0" using assms(1,2) by (auto simp: arena_ok_def word_le_nat_alt)
  ultimately show ?thesis
    using assms(1) out_of_memory_panics by (simp add: kmalloc_early_def arena_ok_def)
qed

lemma kmalloc_early_wraps:
  assumes "arena_ok s" "4294967296 \<le> unat (currentBase s) + unat n"
  shows "kmalloc_early n s = Inr (currentBase s, s\<lparr>currentBase := currentBase s + n\<rparr>)"
    and "unat (currentBase s + n) < unat (currentBase s)"
proof -
  have "unat (currentBase s + n) = (unat (currentBase s) + unat n) mod 4294967296"
    by (simp add: unat_word_ariths)
  also have "\<dots> = (unat (currentBase s) + unat n - 4294967296) mod 4294967296"
    using assms(2) by (rule le_mod_geq)
  also have "\<dots> = unat (currentBase s) + unat n - 4294967296"
    by (rule mod_less) (use u32_less [of n] u32_less [of "currentBase s"] in linarith)
  finally have "unat (currentBase s + n) = unat (currentBase s) + unat n - 4294967296" .
  then show less: "unat (currentBase s + n) < unat (currentBase s)"
    using assms(2) u32_less [of n] u32_less [of "currentBase s"] by linarith
  have "unat n \<noteq> 0" using assms(2) u32_less [of "currentBase s"] by linarith
  then have "n \<noteq> 0" by auto
  moreover have "\<not> maxBase s < n + currentBase s"
    using less assms(1) by (simp add: arena_ok_def word_le_nat_alt word_less_nat_alt add.commute)
  ultimately show "kmalloc_early n s = Inr (currentBase s, s\<lparr>currentBase := currentBase s + n\<rparr>)"
    using assms(1) by (simp add: kmalloc_early_def arena_ok_def)
qed

section \<open>Sequences of requests\<close>

text \<open>
  \<open>used\<close> is the end of the part handed out, \<open>top\<close> the end of the arena, \<open>fits n s\<close> that the
  request cannot wrap past the last address.
\<close>

fun request_all :: "('k \<Rightarrow> u32 \<Rightarrow> ('s, u32) kernel) \<Rightarrow> ('k \<times> u32) list \<Rightarrow> ('s, u32 list) kernel" where
  "request_all request [] = kreturn []"
| "request_all request ((k, n) # rs) =
     kbind (request k n) (\<lambda>a. kbind (request_all request rs) (\<lambda>as. kreturn (a # as)))"

text \<open>The blocks \<open>as\<close> of the requests \<open>rs\<close> follow each other inside \<open>[lo, hi]\<close>.\<close>

fun laid_out :: "nat \<Rightarrow> u32 list \<Rightarrow> ('k \<times> u32) list \<Rightarrow> nat \<Rightarrow> bool" where
  "laid_out lo [] [] hi = (lo \<le> hi)"
| "laid_out lo (a # as) ((k, n) # rs) hi =
     (lo \<le> unat a \<and> unat a + unat n \<le> hi \<and> laid_out (unat a + unat n) as rs hi)"
| "laid_out lo _ _ hi = False"

lemma laid_out_nth:
  "laid_out lo as rs hi \<Longrightarrow> j < length as \<Longrightarrow>
     length as = length rs \<and> lo \<le> unat (as ! j) \<and> unat (as ! j) + unat (snd (rs ! j)) \<le> hi"
proof (induction lo as rs hi arbitrary: j rule: laid_out.induct)
  case (2 lo a as k n rs hi)
  show ?case
  proof (cases j)
    case 0
    with 2 show ?thesis by (cases as; cases rs) auto
  next
    case (Suc i)
    with 2 show ?thesis by fastforce
  qed
qed auto

lemma laid_out_disjoint:
  assumes "laid_out lo as rs hi" "i < j" "j < length as"
  shows "unat (as ! i) + unat (snd (rs ! i)) \<le> unat (as ! j)"
  using assms
proof (induction lo as rs hi arbitrary: i j rule: laid_out.induct)
  case (2 lo a as k n rs hi)
  obtain j' where j: "j = Suc j'" using 2 by (cases j) auto
  show ?case
  proof (cases i)
    case 0
    with 2 j show ?thesis using laid_out_nth [of "unat a + unat n" as rs hi j'] by auto
  next
    case (Suc i')
    with 2 j show ?thesis by auto
  qed
qed auto

locale bump_allocator =
  fixes request :: "'k \<Rightarrow> u32 \<Rightarrow> ('s, u32) kernel"
    and ok :: "'s \<Rightarrow> bool"
    and used :: "'s \<Rightarrow> nat"
    and top :: "'s \<Rightarrow> nat"
  assumes bump: "ok s \<Longrightarrow> n \<noteq> 0 \<Longrightarrow> unat n + top s < 4294963200 \<Longrightarrow> request k n s = Inr (a, s') \<Longrightarrow>
      ok s' \<and> used s \<le> unat a \<and> used s' = unat a + unat n \<and> used s' \<le> top s' \<and> top s' = top s"
begin

lemma request_all_laid_out:
  assumes "ok s" "used s \<le> top s"
    and "\<forall>(k, n) \<in> set rs. n \<noteq> 0 \<and> unat n + top s < 4294963200"
    and "request_all request rs s = Inr (as, s')"
  shows "laid_out (used s) as rs (top s) \<and> ok s' \<and> top s' = top s"
  using assms
proof (induction rs arbitrary: s as)
  case Nil
  then show ?case by simp
next
  case (Cons r rs)
  obtain k n where r: "r = (k, n)" by (cases r)
  from Cons.prems(4) r obtain a s1 as' where run: "request k n s = Inr (a, s1)"
      "request_all request rs s1 = Inr (as', s')" "as = a # as'"
    by (auto simp: kbind_Inr_iff)
  have b: "ok s1" "used s \<le> unat a" "used s1 = unat a + unat n" "used s1 \<le> top s1" "top s1 = top s"
    using bump [OF Cons.prems(1) _ _ run(1)] Cons.prems(3) r by auto
  then have "laid_out (used s1) as' rs (top s1) \<and> ok s' \<and> top s' = top s1"
    using Cons.prems(3) by (intro Cons.IH [OF _ _ _ run(2)]) auto
  with b r run(3) show ?case by auto
qed

end

text \<open>Both entry points together keep this contract.\<close>

definition kmalloc_request :: "bool \<Rightarrow> u32 \<Rightarrow> ('a alloc_st_scheme, u32) kernel" where
  "kmalloc_request aligned n = (if aligned then kmalloc_early_align n else kmalloc_early n)"

lemma kmalloc_early_returns:
  assumes "kmalloc_early n s = Inr (a, s')" "n \<noteq> 0"
  shows "a = currentBase s \<and> s' = s\<lparr>currentBase := currentBase s + n\<rparr> \<and> n + currentBase s \<le> maxBase s"
  using assms by (auto simp: kmalloc_early_def panic_never_returns not_less split: if_splits)

lemma kmalloc_early_bump:
  assumes "kmalloc_early n s = Inr (a, s')" "n \<noteq> 0" "unat n + unat (currentBase s) < 4294967296"
  shows "a = currentBase s" "s' = s\<lparr>currentBase := a + n\<rparr>" "unat (a + n) = unat a + unat n"
    "unat a + unat n \<le> unat (maxBase s)"
proof -
  have "unat (currentBase s + n) = unat (currentBase s) + unat n"
    by (rule unat_add_small) (use assms(3) in linarith)
  with kmalloc_early_returns [OF assms(1,2)] show "a = currentBase s" "s' = s\<lparr>currentBase := a + n\<rparr>"
      "unat (a + n) = unat a + unat n" "unat a + unat n \<le> unat (maxBase s)"
    by (simp_all add: word_le_nat_alt add.commute)
qed

lemma kmalloc_align_bump:
  assumes "arena_ok s" "kmalloc_early_align n s = Inr (a, s')" "n \<noteq> 0"
    and "unat n + unat (maxBase s) < 4294963200"
  shows "a = page_up (currentBase s)" "s' = s\<lparr>currentBase := a + n\<rparr>" "unat (a + n) = unat a + unat n"
    "unat a + unat n \<le> unat (maxBase s)" "unat (currentBase s) \<le> unat a"
proof -
  let ?s = "s\<lparr>currentBase := page_up (currentBase s)\<rparr>"
  have cb: "initialized s \<noteq> 0" "unat (currentBase s) \<le> 4294963200"
    "unat (currentBase s) \<le> unat (maxBase s)"
    using assms(1) by (simp_all add: arena_ok_def word_le_nat_alt)
  note up = page_up_bounds [OF cb(2)]
  have "kmalloc_early n ?s = Inr (a, s')"
    using assms(2,3) cb(1) by (simp add: kmalloc_early_align_page_up)
  moreover have "unat n + unat (currentBase ?s) < 4294967296" using up(2) cb(3) assms(4) by simp
  ultimately show "a = page_up (currentBase s)" "s' = s\<lparr>currentBase := a + n\<rparr>"
      "unat (a + n) = unat a + unat n" "unat a + unat n \<le> unat (maxBase s)"
      "unat (currentBase s) \<le> unat a"
    using kmalloc_early_bump [of n ?s a s'] assms(3) up(1) by simp_all
qed

interpretation early: bump_allocator kmalloc_request arena_ok
  "\<lambda>s. unat (currentBase s)" "\<lambda>s. unat (maxBase s)"
proof unfold_locales
  fix s s' :: "'a alloc_st_scheme" and n k a
  assume a: "arena_ok s" "n \<noteq> 0" "unat n + unat (maxBase s) < 4294963200"
    "kmalloc_request k n s = Inr (a, s')"
  have cb: "unat (currentBase s) \<le> unat (maxBase s)" using a(1) by (simp add: arena_ok_def word_le_nat_alt)
  with a(3) have nowrap: "unat n + unat (currentBase s) < 4294967296" by linarith
  have run: "s' = s\<lparr>currentBase := a + n\<rparr>" "unat (a + n) = unat a + unat n"
      "unat a + unat n \<le> unat (maxBase s)" "unat (currentBase s) \<le> unat a"
    if "k" using kmalloc_align_bump [OF a(1) _ a(2,3)] a(4) that by (simp_all add: kmalloc_request_def)
  have run': "s' = s\<lparr>currentBase := a + n\<rparr>" "unat (a + n) = unat a + unat n"
      "unat a + unat n \<le> unat (maxBase s)" "unat (currentBase s) \<le> unat a"
    if "\<not> k" using kmalloc_early_bump [OF _ a(2) nowrap] a(4) that by (simp_all add: kmalloc_request_def)
  have "s' = s\<lparr>currentBase := a + n\<rparr>" "unat (a + n) = unat a + unat n"
      "unat a + unat n \<le> unat (maxBase s)" "unat (currentBase s) \<le> unat a"
    using run run' by blast+
  then show "arena_ok s' \<and> unat (currentBase s) \<le> unat a \<and> unat (currentBase s') = unat a + unat n
      \<and> unat (currentBase s') \<le> unat (maxBase s') \<and> unat (maxBase s') = unat (maxBase s)"
    using a(1) by (simp add: arena_ok_def word_le_nat_alt)
qed

section \<open>Properties\<close>


text \<open>
  An aligned request that fits returns the next page boundary, marks the bytes from there on
  as used, and keeps the arena well formed.
\<close>

lemma kmalloc_align_returns_page:
  assumes "arena_ok s" "n \<noteq> 0" "unat (page_up (currentBase s)) + unat n \<le> unat (maxBase s)"
  shows "\<exists>a. kmalloc_early_align n s = Inr (a, s\<lparr>currentBase := a + n\<rparr>)
    \<and> unat a mod 4096 = 0 \<and> unat (currentBase s) \<le> unat a \<and> unat a < unat (currentBase s) + 4096
    \<and> arena_ok (s\<lparr>currentBase := a + n\<rparr>)"
proof -
  have "unat (currentBase s) \<le> 4294963200" using assms(1) by (auto simp: arena_ok_def word_le_nat_alt)
  with kmalloc_early_align_run [OF assms] page_up_bounds show ?thesis by blast
qed

text \<open>
  C29: the limit check of \<open>kmalloc_early\<close> decides by 32-bit addition. A request past the limit
  panics as long as the sum does not wrap; a request so large that it wraps is granted, and
  the used end moves backwards over blocks already handed out.
\<close>

theorem kmalloc_limit_check:
  assumes "arena_ok s" "unat (maxBase s) < unat (currentBase s) + unat n"
  shows "if unat (currentBase s) + unat n < 4294967296
    then \<exists>c. kmalloc_early n s = Inl (Panic out_of_memory_reason, s\<lparr>intf := False, con := c\<rparr>)
    else kmalloc_early n s = Inr (currentBase s, s\<lparr>currentBase := currentBase s + n\<rparr>)
      \<and> unat (currentBase s + n) < unat (currentBase s)"
  using kmalloc_early_exhausted [OF assms] kmalloc_early_wraps [OF assms(1), of n] by simp

text \<open>An arena of one megabyte, a little of it used, on which the properties are applied.\<close>

definition sample_arena :: alloc_st where
  "sample_arena = \<lparr>mem = (\<lambda>_. 0), cr0 = 0, cr2 = 0, cr3 = 0, intf = True, con = blank_console 0,
     initialized = 1, initialBase = 0xC0200000, currentBase = 0xC0200010, maxBase = 0xC0300000\<rparr>"

lemma sample_arena_ok: "arena_ok sample_arena"
  by (simp add: arena_ok_def sample_arena_def)

lemma sample_arena_page_up: "page_up (currentBase sample_arena) = 0xC0201000"
  by (simp add: page_up_def sample_arena_def PAGE_ALIGN_def PAGE_SIZE_def)

lemma sample_requests:
  "request_all kmalloc_request [(True, 4096), (False, 16)] sample_arena =
     Inr ([0xC0201000, 0xC0202000], sample_arena\<lparr>currentBase := 0xC0202010\<rparr>)"
proof -
  have "kmalloc_request True 4096 sample_arena = Inr (0xC0201000, sample_arena\<lparr>currentBase := 0xC0202000\<rparr>)"
    using kmalloc_early_align_run(1) [OF sample_arena_ok, of 4096]
    by (simp add: kmalloc_request_def sample_arena_page_up) (simp add: sample_arena_def)
  moreover have "kmalloc_request False 16 (sample_arena\<lparr>currentBase := 0xC0202000\<rparr>) =
      Inr (0xC0202000, sample_arena\<lparr>currentBase := 0xC0202010\<rparr>)"
    by (simp add: kmalloc_request_def kmalloc_early_def sample_arena_def)
  ultimately show ?thesis by simp
qed


theorem kmalloc_limit_check_witness:
  "\<exists>a s'. kmalloc_early 0xFFFFFFFF sample_arena = Inr (a, s')
     \<and> unat (currentBase s') < unat (currentBase sample_arena)"
  using kmalloc_limit_check [OF sample_arena_ok, of "0xFFFFFFFF"] by (simp add: sample_arena_def)

end
