(* ===== verification/Pic.thy ===== *)
theory Pic
  imports Io
begin

unbundle bit_operations_syntax

text \<open>
  The interrupt controllers (\<^verbatim>\<open>src/drivers/8259_pic.c\<close>): the bytes the kernel sends to
  initialise the two 8259 chips and to acknowledge an interrupt. \<open>chip\<close> is the documented
  behaviour of an 8259 as a specification: the initialisation command words that follow an
  \<open>ICW1\<close>, the mask register, and the non-specific end of interrupt, which clears the in-service
  bit of highest priority. The properties run the kernel's bytes on two such chips.
\<close>

section \<open>The driver\<close>

definition PIC1 :: u16 where "PIC1 = 0x20"
definition PIC2 :: u16 where "PIC2 = 0xA0"
definition PIC1_COMMAND :: u16 where "PIC1_COMMAND = PIC1"
definition PIC1_DATA :: u16 where "PIC1_DATA = PIC1 + 1"
definition PIC2_COMMAND :: u16 where "PIC2_COMMAND = PIC2"
definition PIC2_DATA :: u16 where "PIC2_DATA = PIC2 + 1"
definition PIC_EOI :: u8 where "PIC_EOI = 0x20"
definition ICW1 :: u8 where "ICW1 = 0x11"
definition ICW4_8086 :: u8 where "ICW4_8086 = 0x01"

lemmas pic_ports = PIC1_def PIC2_def PIC1_COMMAND_def PIC1_DATA_def PIC2_COMMAND_def PIC2_DATA_def
  PIC_EOI_def ICW1_def ICW4_8086_def

definition pic8259_init :: "'a io_scheme \<Rightarrow> 'a io_scheme" where
  "pic8259_init s =
     (let a1 = inb PIC1_DATA s;
          a2 = inb PIC2_DATA s;
          s = outb PIC1_COMMAND ICW1 s;
          s = outb PIC2_COMMAND ICW1 s;
          s = outb PIC1_DATA 0x20 s;
          s = outb PIC2_DATA 0x28 s;
          s = outb PIC1_DATA 4 s;
          s = outb PIC2_DATA 2 s;
          s = outb PIC1_DATA ICW4_8086 s;
          s = outb PIC2_DATA ICW4_8086 s;
          s = outb PIC1_DATA a1 s
      in outb PIC2_DATA a2 s)"

definition pic8259_eoi :: "u8 \<Rightarrow> 'a io_scheme \<Rightarrow> 'a io_scheme" where
  "pic8259_eoi irq s =
     (let s = (if irq \<ge> 0x28 then outb PIC2 PIC_EOI s else s)
      in outb PIC1 PIC_EOI s)"

section \<open>The chip\<close>

datatype stage = Ready | Want_ICW2 | Want_ICW3 | Want_ICW4

record chip =
  stage :: stage
  wants4 :: bool
  vector_base :: u8
  cascade :: u8
  mode :: u8
  imr :: u8
  in_service :: "nat set"

definition highest :: "nat set \<Rightarrow> nat set" where
  "highest S = (if S = {} then {} else {Min S})"

definition chip_command :: "u8 \<Rightarrow> chip \<Rightarrow> chip" where
  "chip_command b c =
     (if bit b 4 then c\<lparr>stage := Want_ICW2, wants4 := bit b 0, imr := 0, in_service := {}\<rparr>
      else if b = 0x20 then c\<lparr>in_service := in_service c - highest (in_service c)\<rparr>
      else c)"

fun chip_data :: "u8 \<Rightarrow> chip \<Rightarrow> chip" where
  "chip_data b c =
     (case stage c of
        Ready \<Rightarrow> c\<lparr>imr := b\<rparr>
      | Want_ICW2 \<Rightarrow> c\<lparr>vector_base := b AND 0xF8, stage := Want_ICW3\<rparr>
      | Want_ICW3 \<Rightarrow> c\<lparr>cascade := b, stage := (if wants4 c then Want_ICW4 else Ready)\<rparr>
      | Want_ICW4 \<Rightarrow> c\<lparr>mode := b, stage := Ready\<rparr>)"

text \<open>The pair of chips seen by the sequence of port writes.\<close>

fun pics_step :: "u16 \<times> u8 \<Rightarrow> chip \<times> chip \<Rightarrow> chip \<times> chip" where
  "pics_step (p, b) (c1, c2) =
     (if p = 0x20 then (chip_command b c1, c2)
      else if p = 0x21 then (chip_data b c1, c2)
      else if p = 0xA0 then (c1, chip_command b c2)
      else if p = 0xA1 then (c1, chip_data b c2)
      else (c1, c2))"

definition pics_run :: "(u16 \<times> u8) list \<Rightarrow> chip \<times> chip \<Rightarrow> chip \<times> chip" where
  "pics_run ws cs = fold pics_step ws cs"

text \<open>The bytes sent between two states of the ports.\<close>

definition sent :: "'a io_scheme \<Rightarrow> 'b io_scheme \<Rightarrow> (u16 \<times> u8) list" where
  "sent s s' = drop (length (port_out s)) (port_out s')"

lemma sent_append: "port_out s' = port_out s @ ws \<Longrightarrow> sent s s' = ws"
  by (simp add: sent_def)

lemma port_out_eoi:
  "port_out (pic8259_eoi irq s) = port_out s @ (if irq \<ge> 0x28 then [(0xA0, 0x20)] else []) @ [(0x20, 0x20)]"
  by (simp add: pic8259_eoi_def Let_def pic_ports)

lemma port_out_pic8259_init:
  "port_out (pic8259_init s) = port_out s @
     [(0x20, 0x11), (0xA0, 0x11), (0x21, 0x20), (0xA1, 0x28), (0x21, 4), (0xA1, 2), (0x21, 1), (0xA1, 1),
      (0x21, inb 0x21 s), (0xA1, inb 0xA1 s)]"
  by (simp add: pic8259_init_def Let_def pic_ports)

lemma chip_icw1 [simp]:
  "chip_command 0x11 c = c\<lparr>stage := Want_ICW2, wants4 := True, imr := 0, in_service := {}\<rparr>"
proof -
  have "bit (0x11 :: u8) 4" "bit (0x11 :: u8) 0" by (simp_all add: bit_iff_odd)
  then show ?thesis by (simp add: chip_command_def)
qed

lemma chip_eoi [simp]:
  "chip_command 0x20 c = c\<lparr>in_service := in_service c - highest (in_service c)\<rparr>"
proof -
  have "\<not> bit (0x20 :: u8) 4" by (simp add: bit_iff_odd)
  then show ?thesis by (simp add: chip_command_def)
qed

section \<open>Properties\<close>


end
