(* ===== verification/Isr.thy ===== *)
theory Isr
  imports Alloc Pic
begin

unbundle bit_operations_syntax

text \<open>
  Interrupt service routines (\<^verbatim>\<open>src/kernel/isr.c\<close>, \<^verbatim>\<open>include/isr.h\<close>): the table of registered
  handlers and the two entry points the assembly stubs call, one for hardware interrupts and
  one for processor exceptions. A handler is a code address, NULL when none is registered; what
  the code at an address does is the argument \<open>run\<close> of the entry points.
\<close>

section \<open>Data\<close>

record registers =
  r_ds :: u32
  r_edi :: u32
  r_esi :: u32
  r_ebp :: u32
  r_esp :: u32
  r_ebx :: u32
  r_edx :: u32
  r_ecx :: u32
  r_eax :: u32
  int_no :: u32
  err_code :: u32
  r_eip :: u32
  r_cs :: u32
  r_eflags :: u32
  r_useresp :: u32
  r_ss :: u32

definition NO_INTERRUPT_HANDLERS :: nat where "NO_INTERRUPT_HANDLERS = 256"
definition IRQ_BASE :: u32 where "IRQ_BASE = 0x20"

record isr_st = alloc_st +
  g_interrupt_handlers :: "u32 list"

definition exception_messages :: "string list" where
  "exception_messages =
     [''Division By Zero'', ''Debug'', ''Non Maskable Interrupt'', ''Breakpoint'', ''Overflow'',
      ''BOUND Range Exceeded'', ''Invalid Opcode'', ''Device Not Available (No Math Coprocessor)'',
      ''Double Fault'', ''Coprocessor Segment Overrun'', ''Invalid TSS'', ''Segment Not Present'',
      ''Stack-Segment Fault'', ''General Protection'', ''Page Fault'',
      ''Unknown Interrupt (intel reserved)'', ''x87 FPU Floating-Point Error (Math Fault)'',
      ''Alignment Check'', ''Machine Check'', ''SIMD Floating-Point Exception'',
      ''Virtualization Exception''] @ replicate 11 ''Reserved''"

section \<open>Operations\<close>

text \<open>The index is a C \<open>int\<close>: it is compared as signed, and only against the upper bound.\<close>

definition isr_register_interrupt_handler :: "u32 \<Rightarrow> u32 \<Rightarrow> ('a isr_st_scheme, unit) kernel" where
  "isr_register_interrupt_handler num handler =
     kthen (k_printf (Some (''IRQ %d registered'' @ [CHR 0x0A])) [VInt num])
       (\<lambda>s. if sint num < int NO_INTERRUPT_HANDLERS then
              (if sint num < 0 then kstop OutOfBounds s
               else kmodify (\<lambda>s. s\<lparr>g_interrupt_handlers :=
                      (g_interrupt_handlers s)[nat (sint num) := handler]\<rparr>) s)
            else kreturn () s)"

definition lift_io :: "(console \<Rightarrow> console) \<Rightarrow> ('a kcore_scheme, unit) kernel" where
  "lift_io f = kmodify (\<lambda>s. s\<lparr>con := f (con s)\<rparr>)"

text \<open>\<open>g_interrupt_handlers[i]\<close> with a 32-bit index.\<close>

definition handler_at :: "u32 \<Rightarrow> ('a isr_st_scheme, u32) kernel" where
  "handler_at i s =
     (if unat i < NO_INTERRUPT_HANDLERS then kreturn (g_interrupt_handlers s ! unat i) s
      else kstop OutOfBounds s)"

definition isr_irq_handler ::
  "(u32 \<Rightarrow> registers \<Rightarrow> ('a isr_st_scheme, unit) kernel) \<Rightarrow> registers \<Rightarrow> ('a isr_st_scheme, unit) kernel" where
  "isr_irq_handler run reg =
     kthen (kbind (handler_at (int_no reg)) (\<lambda>h. if h \<noteq> 0 then run h reg else kreturn ()))
           (lift_io (pic8259_eoi (ucast (int_no reg))))"

text \<open>
  The third format has five conversions and four arguments: the last one reads the word that
  lies above the arguments on the stack, \<open>word_above\<close>.
\<close>

definition print_registers :: "u32 \<Rightarrow> registers \<Rightarrow> ('a kcore_scheme, unit) kernel" where
  "print_registers word_above reg =
     kthen (k_printf (Some (''eax=0x%x, ebx=0x%x, ecx=0x%x, edx=0x%x'' @ [CHR 0x0A]))
              [VInt (r_eax reg), VInt (r_ebx reg), VInt (r_ecx reg), VInt (r_edx reg)])
    (kthen (k_printf (Some (''edi=0x%x, esi=0x%x, ebp=0x%x, esp=0x%x'' @ [CHR 0x0A]))
              [VInt (r_edi reg), VInt (r_esi reg), VInt (r_ebp reg), VInt (r_esp reg)])
           (k_printf (Some (''eip=0x%x, cs=0x%x, ss=0x%x, eflags=0x%x, useresp=0x%x'' @ [CHR 0x0A]))
              [VInt (r_eip reg), VInt (r_ss reg), VInt (r_eflags reg), VInt (r_useresp reg), VInt word_above]))"

definition exception_reason :: string where
  "exception_reason = ''received pointer: %s'' @ [CHR 0x0A]"

definition isr_exception_handler ::
  "(u32 \<Rightarrow> registers \<Rightarrow> ('a isr_st_scheme, unit) kernel) \<Rightarrow> u32 \<Rightarrow> registers \<Rightarrow> ('a isr_st_scheme, unit) kernel" where
  "isr_exception_handler run word_above reg =
     kthen (kbind (handler_at (int_no reg))
              (\<lambda>h. if h \<noteq> 0 then kthen (print_registers word_above reg) (run h reg) else kreturn ()))
    (kthen (print_registers word_above reg)
           (if unat (int_no reg) < 32
            then panic exception_reason [VStr (exception_messages ! unat (int_no reg))]
            else kstop OutOfBounds))"

section \<open>Registration\<close>

lemma register_prints:
  "prints_only (k_printf (Some (''IRQ %d registered'' @ [CHR 0x0A])) [VInt num])"
  by (rule prints_only_printf [where ks = "[KInt]"]) (simp_all add: conv_kinds_def)

lemma register_run:
  "\<exists>c. isr_register_interrupt_handler num h s =
    (if sint num < 0 then Inl (OutOfBounds, s\<lparr>con := c\<rparr>)
     else if 256 \<le> sint num then Inr ((), s\<lparr>con := c\<rparr>)
     else Inr ((), s\<lparr>con := c, g_interrupt_handlers := (g_interrupt_handlers s)[nat (sint num) := h]\<rparr>))"
  by (rule prints_onlyE [OF register_prints [of num], of s])
     (auto simp: isr_register_interrupt_handler_def NO_INTERRUPT_HANDLERS_def simp del: append.simps)

lemma print_registers_ok: "prints_only (print_registers word_above reg)"
  unfolding print_registers_def
  apply (intro prints_only_kthen)
    apply (rule prints_only_printf [where ks = "[KInt, KInt, KInt, KInt]"]; simp add: conv_kinds_def)
   apply (rule prints_only_printf [where ks = "[KInt, KInt, KInt, KInt]"]; simp add: conv_kinds_def)
  apply (rule prints_only_printf [where ks = "[KInt, KInt, KInt, KInt, KInt]"]; simp add: conv_kinds_def)
  done

section \<open>Dispatch\<close>

lemma isr_irq_handler_run:
  assumes "unat (int_no reg) < 256"
  shows "isr_irq_handler run reg s =
    (case (if g_interrupt_handlers s ! unat (int_no reg) = 0 then Inr ((), s)
           else run (g_interrupt_handlers s ! unat (int_no reg)) reg s) of
       Inl e \<Rightarrow> Inl e
     | Inr (_, t) \<Rightarrow> Inr ((), t\<lparr>con := pic8259_eoi (ucast (int_no reg)) (con t)\<rparr>))"
  using assms
  by (auto simp: isr_irq_handler_def handler_at_def NO_INTERRUPT_HANDLERS_def lift_io_def kbind_def kthen_def
      split: sum.splits)

text \<open>The lines of the two chips that the interrupt of vector \<open>v\<close> is in service on.\<close>

definition serving :: "nat \<Rightarrow> chip \<times> chip \<Rightarrow> bool" where
  "serving v cs \<longleftrightarrow>
     (if v < 0x28 then in_service (fst cs) = {v - 0x20}
      else in_service (fst cs) = {2} \<and> in_service (snd cs) = {v - 0x28})"

lemma eoi_acknowledges:
  assumes "serving v cs" "0x20 \<le> v" "v < 0x30"
  shows "in_service (fst (pics_run (sent s (pic8259_eoi (of_nat v) s)) cs)) = {}
    \<and> in_service (snd (pics_run (sent s (pic8259_eoi (of_nat v) s)) cs)) =
        (if v < 0x28 then in_service (snd cs) else {})"
proof -
  have "unat (of_nat v :: u8) = v" using assms(3) by (simp add: unat_of_nat)
  then have "(of_nat v :: u8) \<ge> 0x28 \<longleftrightarrow> 0x28 \<le> v" by (simp add: word_le_nat_alt)
  then show ?thesis
    using assms unfolding sent_append [OF port_out_eoi]
    by (cases cs; cases "v < 0x28") (simp_all add: pics_run_def serving_def highest_def)
qed

lemma exception_panics: "\<exists>c. panic exception_reason [VStr msg] s
    = Inl (Panic exception_reason, s\<lparr>intf := False, con := c\<rparr>)"
  by (rule panic_stops [where ks = "[KStr]"]) (simp_all add: exception_reason_def conv_kinds_def)

lemma isr_exception_handler_unhandled:
  assumes "unat (int_no reg) < 32" "g_interrupt_handlers s ! unat (int_no reg) = 0"
  shows "\<exists>c. isr_exception_handler run w reg s =
    Inl (Panic exception_reason, s\<lparr>intf := False, con := c\<rparr>)"
proof -
  obtain c where c: "print_registers w reg s = Inr ((), s\<lparr>con := c\<rparr>)"
    by (rule prints_onlyE [OF print_registers_ok])
  with assms have "isr_exception_handler run w reg s =
      panic exception_reason [VStr (exception_messages ! unat (int_no reg))] (s\<lparr>con := c\<rparr>)"
    by (simp add: isr_exception_handler_def handler_at_def NO_INTERRUPT_HANDLERS_def)
  then show ?thesis
    using exception_panics [of "exception_messages ! unat (int_no reg)" "s\<lparr>con := c\<rparr>"] by simp
qed

lemma isr_exception_handler_stops: "isr_exception_handler run w reg s \<noteq> Inr r"
  by (auto simp: isr_exception_handler_def kthen_Inr_iff panic_never_returns split: if_splits)

section \<open>Properties\<close>

text \<open>
  Registering a handler for a number in the table makes the next interrupt of that number
  run it, before the controller is acknowledged, and leaves every other entry alone.
\<close>

lemma registered_handler_runs:
  assumes "unat num < 256" "length (g_interrupt_handlers s) = 256" "h \<noteq> 0" "int_no reg = num"
  shows "\<exists>s'. isr_register_interrupt_handler num h s = Inr ((), s')
    \<and> isr_irq_handler run reg s' =
        kthen (run h reg) (lift_io (pic8259_eoi (ucast num))) s'
    \<and> (\<forall>k. (k = unat num) \<or> g_interrupt_handlers s' ! k = g_interrupt_handlers s ! k)"
proof -
  have num: "sint num = int (unat num)"
    using sint_of_nat_small [of "unat num"] assms(1) by simp
  obtain c where c: "isr_register_interrupt_handler num h s = Inr ((),
      s\<lparr>con := c, g_interrupt_handlers := (g_interrupt_handlers s)[unat num := h]\<rparr>)" (is "_ = Inr ((), ?s)")
  proof -
    have "\<not> sint num < 0" "\<not> 256 \<le> sint num" "nat (sint num) = unat num"
      unfolding num using assms(1) by (simp_all del: of_nat_unat)
    then show ?thesis using register_run [of num h s] that by auto
  qed
  have "isr_irq_handler run reg ?s = kthen (run h reg) (lift_io (pic8259_eoi (ucast num))) ?s"
    using assms by (simp add: isr_irq_handler_def handler_at_def NO_INTERRUPT_HANDLERS_def kthen_def kbind_def)
  moreover have "g_interrupt_handlers ?s ! k = g_interrupt_handlers s ! k" if "k \<noteq> unat num" for k
    using that by simp
  ultimately show ?thesis using c by blast
qed

text \<open>
  Every hardware interrupt is acknowledged exactly where it is in service: when the handler,
  if there is one, has returned in state \<open>t\<close>, the bytes sent after it clear the master's
  in-service line, and for the slave's interrupts the slave's line as well.
\<close>

lemma irq_acknowledged:
  assumes "0x20 \<le> unat (int_no reg)" "unat (int_no reg) < 0x30"
    and "(if g_interrupt_handlers s ! unat (int_no reg) = 0 then Inr ((), s)
          else run (g_interrupt_handlers s ! unat (int_no reg)) reg s) = Inr ((), t)"
    and "serving (unat (int_no reg)) cs"
  shows "\<exists>s'. isr_irq_handler run reg s = Inr ((), s')
    \<and> in_service (fst (pics_run (sent (con t) (con s')) cs)) = {}
    \<and> in_service (snd (pics_run (sent (con t) (con s')) cs)) =
        (if unat (int_no reg) < 0x28 then in_service (snd cs) else {})"
proof -
  have "(ucast (int_no reg) :: u8) = of_nat (unat (int_no reg))" by simp
  then have "isr_irq_handler run reg s =
      Inr ((), t\<lparr>con := pic8259_eoi (of_nat (unat (int_no reg))) (con t)\<rparr>)"
    using isr_irq_handler_run [of reg run s] assms(2,3) by simp
  with eoi_acknowledges [OF assms(4,1,2), of "con t"] show ?thesis by simp
qed

text \<open>
  The exception entry point never returns to the stub, whatever is registered; an exception
  of the processor without a handler ends in a panic with interrupts masked.
\<close>

lemma exception_stops:
  "\<exists>e t. isr_exception_handler run w reg s = Inl (e, t)
     \<and> (unat (int_no reg) < 32 \<and> g_interrupt_handlers s ! unat (int_no reg) = 0 \<longrightarrow>
          e = Panic exception_reason \<and> \<not> intf t)"
proof -
  obtain e t where "isr_exception_handler run w reg s = Inl (e, t)"
    using isr_exception_handler_stops [of run w reg s] by (cases "isr_exception_handler run w reg s") auto
  moreover have "e = Panic exception_reason \<and> \<not> intf t"
    if "unat (int_no reg) < 32" "g_interrupt_handlers s ! unat (int_no reg) = 0"
    using isr_exception_handler_unhandled [OF that, of run w] calculation by auto
  ultimately show ?thesis by blast
qed

text \<open>A state with an empty table, on which the properties are applied.\<close>

definition sample_isr :: isr_st where
  "sample_isr = \<lparr>mem = (\<lambda>_. 0), cr0 = 0, cr2 = 0, cr3 = 0, intf = True, con = blank_console 0,
     initialized = 1, initialBase = 0xC0200000, currentBase = 0xC0200000, maxBase = 0xC0300000,
     g_interrupt_handlers = replicate 256 0\<rparr>"

end
