(* ===== verification/Gdt.thy ===== *)
theory Gdt
  imports Isr
begin

unbundle bit_operations_syntax

text \<open>
  The global descriptor table (\<^verbatim>\<open>src/kernel/gdt.c\<close>, \<^verbatim>\<open>include/gdt.h\<close>, \<^verbatim>\<open>src/asm/load_gdt.asm\<close>): its
  packed entries, the routine that fills one, and the initialisation that fills five and
  loads the table and the segment registers. The table's address is chosen by the linker and
  is an argument. \<open>seg_base\<close> and \<open>seg_limit\<close> read an entry the way the processor does.
\<close>

record gdt_entry =
  segment_limit :: u16
  base_low :: u16
  base_middle :: u8
  access :: u8
  granularity :: u8
  base_high :: u8

definition GDT_DESCRIPTORS :: nat where "GDT_DESCRIPTORS = 5"

record gdt_st = isr_st +
  g_gdt :: "gdt_entry list"
  g_gdt_ptr :: "u16 \<times> u32"
  gdtr :: "u16 \<times> u32"
  seg_cs :: u16
  seg_data :: u16

definition gdt_fill :: "u32 \<Rightarrow> u32 \<Rightarrow> u8 \<Rightarrow> u8 \<Rightarrow> gdt_entry \<Rightarrow> gdt_entry" where
  "gdt_fill base limit acc gran g =
     (let g = g\<lparr>segment_limit := ucast (limit AND 0xFFFF)\<rparr>;
          g = g\<lparr>base_low := ucast (base AND 0xFFFF)\<rparr>;
          g = g\<lparr>base_middle := ucast (drop_bit 16 base AND 0xFF)\<rparr>;
          g = g\<lparr>access := acc\<rparr>;
          g = g\<lparr>granularity := ucast (drop_bit 16 limit AND 0x0F)\<rparr>;
          g = g\<lparr>granularity := granularity g OR (gran AND 0xF0)\<rparr>
      in g\<lparr>base_high := ucast (drop_bit 24 base AND 0xFF)\<rparr>)"

definition gdt_set_entry :: "u32 \<Rightarrow> u32 \<Rightarrow> u32 \<Rightarrow> u32 \<Rightarrow> u8 \<Rightarrow> u8 \<Rightarrow> ('a gdt_st_scheme, unit) kernel" where
  "gdt_set_entry gdt_addr index base limit acc gran s =
     (if unat index < GDT_DESCRIPTORS then
        kthen (kmodify (\<lambda>s. s\<lparr>g_gdt := (g_gdt s)[unat index := gdt_fill base limit acc gran (g_gdt s ! unat index)]\<rparr>))
          (if gdt_addr + 8 * index - 0xC0000000 = 0x001010D8
           then kthen (k_printfln (Some ''gdt %p'') [VInt (gdt_addr + 8 * index - 0xC0000000)])
                      (panic ''lc,;cd'' [])
           else kreturn ()) s
      else kstop OutOfBounds s)"

definition load_gdt :: "('a gdt_st_scheme, unit) kernel" where
  "load_gdt = kmodify (\<lambda>s. s\<lparr>gdtr := g_gdt_ptr s, seg_data := 0x10, seg_cs := 0x08\<rparr>)"

definition gdt_init :: "u32 \<Rightarrow> ('a gdt_st_scheme, unit) kernel" where
  "gdt_init gdt_addr =
     kthen (kmodify (\<lambda>s. s\<lparr>g_gdt_ptr := (of_nat (8 * GDT_DESCRIPTORS * (GDT_DESCRIPTORS - 1)), gdt_addr)\<rparr>))
    (kthen (gdt_set_entry gdt_addr 0 0 0 0 0)
    (kthen (gdt_set_entry gdt_addr 1 0 0xFFFFFFFF 0x9A 0xCF)
    (kthen (gdt_set_entry gdt_addr 2 0 0xFFFFFFFF 0x92 0xCF)
    (kthen (gdt_set_entry gdt_addr 3 0 0xFFFFFFFF 0xFA 0xCF)
    (kthen (gdt_set_entry gdt_addr 4 0 0xFFFFFFFF 0xF2 0xCF)
           load_gdt)))))"

section \<open>How the processor reads an entry\<close>

definition seg_base :: "gdt_entry \<Rightarrow> u32" where
  "seg_base g = ucast (base_low g) OR push_bit 16 (ucast (base_middle g)) OR push_bit 24 (ucast (base_high g))"

definition seg_limit :: "gdt_entry \<Rightarrow> u32" where
  "seg_limit g =
     (let l = ucast (segment_limit g) OR push_bit 16 (ucast (granularity g AND 0x0F))
      in if bit (granularity g) 7 then push_bit 12 l OR 0xFFF else l)"

definition seg_present :: "gdt_entry \<Rightarrow> bool" where
  "seg_present g \<longleftrightarrow> bit (access g) 7"

definition seg_privilege :: "gdt_entry \<Rightarrow> u8" where
  "seg_privilege g = drop_bit 5 (access g) AND 3"

definition seg_code :: "gdt_entry \<Rightarrow> bool" where
  "seg_code g \<longleftrightarrow> bit (access g) 3"

lemma low_masks:
  "(0xFFFF :: u32) = mask 16" "(0xFF :: u32) = mask 8" "(0x0F :: u32) = mask 4" "(0x0F :: u8) = mask 4"
  "(0xF0 :: u8) = push_bit 4 (mask 4)" "(0xFFFFF :: u32) = mask 20" "(0xFFF :: u32) = mask 12"
  by (simp_all add: mask_eq_exp_minus_1)

lemma seg_base_fill: "seg_base (gdt_fill base limit acc gran g) = base"
proof (rule bit_word_eqI)
  fix n
  assume "n < LENGTH(32)"
  then show "bit (seg_base (gdt_fill base limit acc gran g)) n = bit base n"
    by (cases "n < 16"; cases "n < 24")
       (auto simp: seg_base_def gdt_fill_def Let_def bit_simps low_masks)
qed

lemma seg_limit_fill:
  "seg_limit (gdt_fill base limit acc gran g) =
     (if bit gran 7 then push_bit 12 (limit AND 0xFFFFF) OR 0xFFF else limit AND 0xFFFFF)"
proof -
  have "ucast (segment_limit (gdt_fill base limit acc gran g))
      OR push_bit 16 (ucast (granularity (gdt_fill base limit acc gran g) AND 0x0F)) = limit AND 0xFFFFF"
  proof (rule bit_word_eqI)
    fix n
    assume "n < LENGTH(32)"
    then show "bit ((ucast (segment_limit (gdt_fill base limit acc gran g)) :: u32)
        OR push_bit 16 (ucast (granularity (gdt_fill base limit acc gran g) AND 0x0F))) n
        = bit (limit AND 0xFFFFF) n"
      by (cases "n < 16"; cases "n < 20") (auto simp: gdt_fill_def Let_def bit_simps low_masks)
  qed
  moreover have "bit (granularity (gdt_fill base limit acc gran g)) 7 = bit gran 7"
    by (auto simp: gdt_fill_def Let_def bit_simps low_masks)
  ultimately show ?thesis by (simp add: seg_limit_def Let_def)
qed

lemma access_fill [simp]: "access (gdt_fill base limit acc gran g) = acc"
  by (simp add: gdt_fill_def Let_def)

section \<open>Initialisation\<close>

text \<open>
  The debugging check at the end of \<open>gdt_set_entry\<close> panics when an entry lies at one particular
  physical address; it does not trigger when the table lies elsewhere.
\<close>

definition gdt_clear_of_check :: "u32 \<Rightarrow> bool" where
  "gdt_clear_of_check gdt_addr \<longleftrightarrow> (\<forall>i\<in>set [0, 1, 2, 3, 4]. gdt_addr + 8 * i - 0xC0000000 \<noteq> 0x001010D8)"

lemma gdt_set_entry_run:
  assumes "unat index < 5" "gdt_addr + 8 * index - 0xC0000000 \<noteq> 0x001010D8"
  shows "gdt_set_entry gdt_addr index base limit acc gran s =
    Inr ((), s\<lparr>g_gdt := (g_gdt s)[unat index := gdt_fill base limit acc gran (g_gdt s ! unat index)]\<rparr>)"
  using assms by (simp add: gdt_set_entry_def GDT_DESCRIPTORS_def)

lemma gdt_init_run:
  assumes "gdt_clear_of_check gdt_addr" "g_gdt s = [g0, g1, g2, g3, g4]"
  shows "gdt_init gdt_addr s = Inr ((), s\<lparr>g_gdt :=
      [gdt_fill 0 0 0 0 g0, gdt_fill 0 0xFFFFFFFF 0x9A 0xCF g1, gdt_fill 0 0xFFFFFFFF 0x92 0xCF g2,
       gdt_fill 0 0xFFFFFFFF 0xFA 0xCF g3, gdt_fill 0 0xFFFFFFFF 0xF2 0xCF g4],
      g_gdt_ptr := (160, gdt_addr), gdtr := (160, gdt_addr), seg_data := 0x10, seg_cs := 0x08\<rparr>)"
  using assms
  by (simp add: gdt_init_def gdt_clear_of_check_def gdt_set_entry_run load_gdt_def GDT_DESCRIPTORS_def)

section \<open>Properties\<close>

text \<open>
  An entry written by \<open>gdt_set_entry\<close> describes what was asked for: read the way the processor
  reads it, its base is the base, its limit the low 20 bits of the limit (in pages when the
  granularity bit is set), and its access byte the access byte.
\<close>

lemma gdt_entry_roundtrip:
  "seg_base (gdt_fill base limit acc gran g) = base
   \<and> seg_limit (gdt_fill base limit acc gran g) =
       (if bit gran 7 then push_bit 12 (limit AND 0xFFFFF) OR 0xFFF else limit AND 0xFFFFF)
   \<and> access (gdt_fill base limit acc gran g) = acc"
  by (simp add: seg_base_fill seg_limit_fill)

text \<open>
  C34: \<open>gdt_init\<close> sets up the flat model: the loaded selectors name a present ring 0 code segment
  and a present ring 0 data segment, the two user segments are present in ring 3, and all
  four start at 0 and reach the last of the 4 GiB. The limit of the table register is 160, where the five
  entries end at 39.
\<close>

theorem gdt_init_flat:
  assumes "gdt_clear_of_check gdt_addr" "length (g_gdt s) = 5"
  shows "\<exists>s' gs. gdt_init gdt_addr s = Inr ((), s') \<and> g_gdt s' = gs \<and> length gs = 5
    \<and> seg_cs s' = 8 * 1 \<and> seg_data s' = 8 * 2 \<and> gdtr s' = (160, gdt_addr)
    \<and> (\<forall>i\<in>{1..4}. seg_present (gs ! i) \<and> seg_base (gs ! i) = 0 \<and> seg_limit (gs ! i) = 0xFFFFFFFF)
    \<and> map seg_privilege (tl gs) = [0, 0, 3, 3] \<and> map seg_code (tl gs) = [True, False, True, False]"
proof -
  obtain g0 g1 g2 g3 g4 where gs: "g_gdt s = [g0, g1, g2, g3, g4]"
    using assms(2) by (auto simp: length_Suc_conv eval_nat_numeral)
  have lim: "seg_limit (gdt_fill 0 0xFFFFFFFF acc 0xCF g) = 0xFFFFFFFF" for acc g
    by (simp add: seg_limit_fill bit_iff_odd)
  have acc: "bit (0x9A :: u8) 7" "bit (0x92 :: u8) 7" "bit (0xFA :: u8) 7" "bit (0xF2 :: u8) 7"
      "bit (0x9A :: u8) 3" "\<not> bit (0x92 :: u8) 3" "bit (0xFA :: u8) 3" "\<not> bit (0xF2 :: u8) 3"
    by (simp_all add: bit_iff_odd)
  have four: "{1..4 :: nat} = {1, 2, 3, 4}" by auto
  show ?thesis
    unfolding gdt_init_run [OF assms(1) gs] four
    by (simp add: lim acc seg_base_fill seg_present_def seg_code_def seg_privilege_def drop_bit_eq_div)
qed

definition sample_gdt :: gdt_st where
  "sample_gdt = isr_st.extend sample_isr
     \<lparr>g_gdt = replicate 5 \<lparr>segment_limit = 0, base_low = 0, base_middle = 0, access = 0, granularity = 0, base_high = 0\<rparr>,
      g_gdt_ptr = (0, 0), gdtr = (0, 0), seg_cs = 0x10, seg_data = 0x18\<rparr>"

theorem gdt_init_flat_witness:
  "\<exists>s' gs. gdt_init 0xC0106000 sample_gdt = Inr ((), s') \<and> g_gdt s' = gs \<and> length gs = 5
    \<and> seg_cs s' = 8 * 1 \<and> seg_data s' = 8 * 2 \<and> gdtr s' = (160, 0xC0106000)
    \<and> (\<forall>i\<in>{1..4}. seg_present (gs ! i) \<and> seg_base (gs ! i) = 0 \<and> seg_limit (gs ! i) = 0xFFFFFFFF)
    \<and> map seg_privilege (tl gs) = [0, 0, 3, 3] \<and> map seg_code (tl gs) = [True, False, True, False]"
  by (rule gdt_init_flat) (simp_all add: gdt_clear_of_check_def sample_gdt_def isr_st.defs)

end
