(* ===== verification/Idt.thy ===== *)
theory Idt
  imports Gdt
begin

unbundle bit_operations_syntax

text \<open>
  The interrupt descriptor table (\<^verbatim>\<open>src/kernel/idt.c\<close>, \<^verbatim>\<open>include/idt.h\<close>, \<^verbatim>\<open>src/asm/load_idt.asm\<close>): its
  packed gates, the routine that fills one, and the initialisation that points the first 48
  gates and gate 128 at the assembly stubs. The stubs' addresses and the table's address are
  chosen by the assembler and the linker and are arguments.
\<close>

record idt_gate =
  gate_base_low :: u16
  segment_selector :: u16
  gate_zero :: u8
  gate_type :: u8
  gate_base_high :: u16

definition IDT_DESCRIPTORS :: nat where "IDT_DESCRIPTORS = 256"

record idt_st = gdt_st +
  g_idt :: "idt_gate list"
  g_idt_ptr :: "u16 \<times> u32"
  idtr :: "u16 \<times> u32"

definition idt_fill :: "u32 \<Rightarrow> u16 \<Rightarrow> u8 \<Rightarrow> idt_gate \<Rightarrow> idt_gate" where
  "idt_fill base seg_sel flags i =
     (let i = i\<lparr>gate_base_low := ucast (base AND 0xFFFF)\<rparr>;
          i = i\<lparr>segment_selector := seg_sel\<rparr>;
          i = i\<lparr>gate_zero := 0\<rparr>;
          i = i\<lparr>gate_type := flags\<rparr>
      in i\<lparr>gate_base_high := ucast (drop_bit 16 base AND 0xFFFF)\<rparr>)"

definition idt_set_entry :: "nat \<Rightarrow> u32 \<Rightarrow> u16 \<Rightarrow> u8 \<Rightarrow> ('a idt_st_scheme, unit) kernel" where
  "idt_set_entry index base seg_sel flags s =
     (if index < IDT_DESCRIPTORS then
        kmodify (\<lambda>s. s\<lparr>g_idt := (g_idt s)[index := idt_fill base seg_sel flags (g_idt s ! index)]\<rparr>) s
      else kstop OutOfBounds s)"

definition load_idt :: "('a idt_st_scheme, unit) kernel" where
  "load_idt = kmodify (\<lambda>s. s\<lparr>idtr := g_idt_ptr s\<rparr>)"

text \<open>
  The source writes the calls one after another: gates 0 to 31 for the exceptions, 32 to 47 for
  the interrupt lines, then gate 128. \<open>exc i\<close> and \<open>irq i\<close> are the addresses of the stubs.
\<close>

definition idt_init :: "u32 \<Rightarrow> (nat \<Rightarrow> u32) \<Rightarrow> (nat \<Rightarrow> u32) \<Rightarrow> ('a idt_st_scheme, unit) kernel" where
  "idt_init idt_addr exc irq =
     kthen (kmodify (\<lambda>s. s\<lparr>g_idt_ptr := (of_nat (8 * IDT_DESCRIPTORS * (IDT_DESCRIPTORS - 1)), idt_addr)\<rparr>))
    (kthen (kfor 32 (\<lambda>i. idt_set_entry i (exc i) 0x08 0x8E))
    (kthen (kfor 16 (\<lambda>i. idt_set_entry (32 + i) (irq i) 0x08 0x8E))
    (kthen (idt_set_entry 128 (exc 128) 0x08 0x8E)
           load_idt)))"

section \<open>How the processor reads a gate\<close>

definition gate_target :: "idt_gate \<Rightarrow> u32" where
  "gate_target g = ucast (gate_base_low g) OR push_bit 16 (ucast (gate_base_high g))"

text \<open>A present 32-bit interrupt gate of ring 0.\<close>

definition interrupt_gate :: "idt_gate \<Rightarrow> bool" where
  "interrupt_gate g \<longleftrightarrow> gate_type g = 0x8E \<and> gate_zero g = 0"

lemma gate_target_fill [simp]: "gate_target (idt_fill base sel flags g) = base"
proof (rule bit_word_eqI)
  fix n
  assume "n < LENGTH(32)"
  then show "bit (gate_target (idt_fill base sel flags g)) n = bit base n"
    by (cases "n < 16") (auto simp: gate_target_def idt_fill_def Let_def bit_simps low_masks)
qed

lemma idt_fill_fields [simp]:
  "segment_selector (idt_fill base sel flags g) = sel" "gate_type (idt_fill base sel flags g) = flags"
  "gate_zero (idt_fill base sel flags g) = 0"
  by (simp_all add: idt_fill_def Let_def)

section \<open>Initialisation\<close>

text \<open>A run of consecutive gates.\<close>

lemma idt_fill_range:
  assumes "length (g_idt s) = 256" "lo + n \<le> 256"
  shows "\<exists>gs. kfor n (\<lambda>i. idt_set_entry (lo + i) (target i) sel flags) s = Inr ((), s\<lparr>g_idt := gs\<rparr>)
    \<and> length gs = 256
    \<and> (\<forall>j<256. gs ! j = (if lo \<le> j \<and> j < lo + n then idt_fill (target (j - lo)) sel flags (g_idt s ! j)
                        else g_idt s ! j))"
  using assms(2)
proof (induction n)
  case 0
  show ?case using assms(1) by (intro exI [of _ "g_idt s"]) auto
next
  case (Suc n)
  then have "lo + n \<le> 256" by simp
  from Suc.IH [OF this] obtain gs where gs: "kfor n (\<lambda>i. idt_set_entry (lo + i) (target i) sel flags) s = Inr ((), s\<lparr>g_idt := gs\<rparr>)"
    "length gs = 256"
    "\<forall>j<256. gs ! j = (if lo \<le> j \<and> j < lo + n then idt_fill (target (j - lo)) sel flags (g_idt s ! j)
                       else g_idt s ! j)"
    by (elim exE conjE)
  let ?gs = "gs[lo + n := idt_fill (target n) sel flags (gs ! (lo + n))]"
  have "idt_set_entry (lo + n) (target n) sel flags (s\<lparr>g_idt := gs\<rparr>) = Inr ((), s\<lparr>g_idt := ?gs\<rparr>)"
    using Suc.prems by (simp add: idt_set_entry_def IDT_DESCRIPTORS_def)
  moreover have "?gs ! j = (if lo \<le> j \<and> j < lo + Suc n then idt_fill (target (j - lo)) sel flags (g_idt s ! j)
                       else g_idt s ! j)" if "j < 256" for j
    using that gs(2,3) by (cases "j = lo + n") (auto simp: nth_list_update)
  ultimately show ?case using gs(1,2) by (intro exI [of _ ?gs]) simp
qed

definition idt_vectors :: "(nat \<Rightarrow> u32) \<Rightarrow> (nat \<Rightarrow> u32) \<Rightarrow> nat \<Rightarrow> u32 option" where
  "idt_vectors exc irq v =
     (if v < 32 \<or> v = 128 then Some (exc v) else if v < 48 then Some (irq (v - 32)) else None)"

text \<open>The size computation of the source does not fit the 16-bit limit.\<close>

lemma idt_limit: "(522240 :: u16) = 63488"
  by simp

lemma idt_init_gates:
  assumes "length (g_idt s) = 256"
  shows "\<exists>gs. idt_init idt_addr exc irq s =
      Inr ((), s\<lparr>g_idt := gs, g_idt_ptr := (63488, idt_addr), idtr := (63488, idt_addr)\<rparr>)
    \<and> (\<forall>v<256. gs ! v = (case idt_vectors exc irq v of
          None \<Rightarrow> g_idt s ! v | Some a \<Rightarrow> idt_fill a 0x08 0x8E (g_idt s ! v)))"
proof -
  let ?s0 = "s\<lparr>g_idt_ptr := (63488, idt_addr)\<rparr>"
  obtain g1 where g1: "kfor 32 (\<lambda>i. idt_set_entry i (exc i) 0x08 0x8E) ?s0 = Inr ((), ?s0\<lparr>g_idt := g1\<rparr>)"
      "length g1 = 256"
      "\<forall>j<256. g1 ! j = (if j < 32 then idt_fill (exc j) 0x08 0x8E (g_idt s ! j) else g_idt s ! j)"
    using idt_fill_range [of ?s0 0 32 exc "0x08" "0x8E"] assms by auto
  obtain g2 where g2: "kfor 16 (\<lambda>i. idt_set_entry (32 + i) (irq i) 0x08 0x8E) (?s0\<lparr>g_idt := g1\<rparr>)
        = Inr ((), ?s0\<lparr>g_idt := g2\<rparr>)" "length g2 = 256"
      "\<forall>j<256. g2 ! j = (if 32 \<le> j \<and> j < 48 then idt_fill (irq (j - 32)) 0x08 0x8E (g1 ! j) else g1 ! j)"
    using idt_fill_range [of "?s0\<lparr>g_idt := g1\<rparr>" 32 16 irq "0x08" "0x8E"] g1(2) by auto
  let ?g3 = "g2[128 := idt_fill (exc 128) 0x08 0x8E (g2 ! 128)]"
  have "idt_set_entry 128 (exc 128) 0x08 0x8E (?s0\<lparr>g_idt := g2\<rparr>) = Inr ((), ?s0\<lparr>g_idt := ?g3\<rparr>)"
    by (simp add: idt_set_entry_def IDT_DESCRIPTORS_def)
  with g1(1) g2(1) have "idt_init idt_addr exc irq s =
      Inr ((), s\<lparr>g_idt := ?g3, g_idt_ptr := (63488, idt_addr), idtr := (63488, idt_addr)\<rparr>)"
    by (simp add: idt_init_def load_idt_def IDT_DESCRIPTORS_def idt_limit)
  moreover have "?g3 ! v = (case idt_vectors exc irq v of
      None \<Rightarrow> g_idt s ! v | Some a \<Rightarrow> idt_fill a 0x08 0x8E (g_idt s ! v))" if "v < 256" for v
    using that g1(3) g2(2,3) by (cases "v = 128") (auto simp: nth_list_update idt_vectors_def)
  ultimately show ?thesis by blast
qed

section \<open>Properties\<close>

text \<open>
  C33: after \<open>idt_init\<close> vector \<open>v\<close> enters the stub meant for it, through a present ring 0
  interrupt gate on the kernel's code segment: the exception stubs for 0 to 31 and 128, the
  stub of line \<open>v - 32\<close> for 32 to 47; every other gate is as it was. The limit of the table register is 63488, where the 256 gates end
  at 2047.
\<close>

theorem idt_init_vectors:
  assumes "length (g_idt s) = 256" "v < 256"
  shows "\<exists>s'. idt_init idt_addr exc irq s = Inr ((), s') \<and> idtr s' = (63488, idt_addr)
    \<and> (case idt_vectors exc irq v of
         None \<Rightarrow> g_idt s' ! v = g_idt s ! v
       | Some a \<Rightarrow> gate_target (g_idt s' ! v) = a \<and> segment_selector (g_idt s' ! v) = 0x08
           \<and> interrupt_gate (g_idt s' ! v))"
proof -
  obtain gs where gs: "idt_init idt_addr exc irq s =
      Inr ((), s\<lparr>g_idt := gs, g_idt_ptr := (63488, idt_addr), idtr := (63488, idt_addr)\<rparr>)"
    "\<forall>v<256. gs ! v = (case idt_vectors exc irq v of
          None \<Rightarrow> g_idt s ! v | Some a \<Rightarrow> idt_fill a 0x08 0x8E (g_idt s ! v))"
    using idt_init_gates [OF assms(1)] by blast
  with assms(2) show ?thesis by (auto simp: interrupt_gate_def split: option.splits)
qed

definition sample_idt :: idt_st where
  "sample_idt = gdt_st.extend sample_gdt
     \<lparr>g_idt = replicate 256 \<lparr>gate_base_low = 0, segment_selector = 0, gate_zero = 0, gate_type = 0, gate_base_high = 0\<rparr>,
      g_idt_ptr = (0, 0), idtr = (0, 0)\<rparr>"

theorem idt_init_vectors_witness:
  "\<exists>s'. idt_init 0xC0107000 (\<lambda>i. 0xC0101000 + of_nat (16 * i)) (\<lambda>i. 0xC0102000 + of_nat (16 * i)) sample_idt
      = Inr ((), s') \<and> idtr s' = (63488, 0xC0107000)
    \<and> gate_target (g_idt s' ! 33) = 0xC0102010 \<and> segment_selector (g_idt s' ! 33) = 0x08
    \<and> interrupt_gate (g_idt s' ! 33)"
  using idt_init_vectors [of sample_idt 33 "0xC0107000" "\<lambda>i. 0xC0101000 + of_nat (16 * i)"
      "\<lambda>i. 0xC0102000 + of_nat (16 * i)"]
  by (simp add: sample_idt_def gdt_st.defs idt_vectors_def)
end
