(* ===== verification/Timer.thy ===== *)
theory Timer
  imports Idt
begin

unbundle bit_operations_syntax

text \<open>
  The timer (\<^verbatim>\<open>src/kernel/timer.c\<close>, \<^verbatim>\<open>include/timer.h\<close>): programming the interval timer, the
  interrupt handler with its table of periodic functions, and the busy wait of \<open>sleep\<close>. Timer
  functions are code addresses; what they do is an argument. The wait is driven by a schedule:
  how many timer interrupts arrive between two readings of the tick counter.
\<close>

definition TIMER_INPUT_CLOCK_FREQUENCY :: nat where "TIMER_INPUT_CLOCK_FREQUENCY = 1193180"
definition TIMER_CHANNEL_0_DATA_PORT :: u16 where "TIMER_CHANNEL_0_DATA_PORT = 0x40"
definition TIMER_COMMAND_PORT :: u16 where "TIMER_COMMAND_PORT = 0x43"
definition MAXIMUM_TIMER_FUNCTIONS :: nat where "MAXIMUM_TIMER_FUNCTIONS = 256"

record timer_func_args =
  timeout :: u32
  user :: u32

record timer_st = idt_st +
  g_ticks :: u32
  g_freq_hz :: u16
  tf_current_index :: u32
  tf_functions :: "u32 list"
  tf_func_args :: "timer_func_args list"

text \<open>Division by zero raises an exception; the quotient is truncated to 16 bits.\<close>

definition timer_set_frequency :: "u16 \<Rightarrow> ('a timer_st_scheme, unit) kernel" where
  "timer_set_frequency f =
     kthen (kmodify (\<lambda>s. s\<lparr>g_freq_hz := f\<rparr>))
       (if f = 0 then kstop Undefined
        else let divisor = of_nat (TIMER_INPUT_CLOCK_FREQUENCY div unat f) :: u16 in
          kthen (lift_io (outb TIMER_COMMAND_PORT 0x36))
         (kthen (lift_io (outb TIMER_CHANNEL_0_DATA_PORT (ucast (divisor AND 0xFF))))
                (lift_io (outb TIMER_CHANNEL_0_DATA_PORT (ucast (drop_bit 8 divisor AND 0xFF))))))"

definition timer_handler ::
  "(u32 \<Rightarrow> timer_func_args \<Rightarrow> ('a timer_st_scheme, unit) kernel) \<Rightarrow> ('a timer_st_scheme, unit) kernel" where
  "timer_handler call =
     kthen (kmodify (\<lambda>s. s\<lparr>g_ticks := g_ticks s + 1\<rparr>))
       (kfor MAXIMUM_TIMER_FUNCTIONS (\<lambda>i s.
          let args = tf_func_args s ! i
          in if timeout args = 0 then kreturn () s
             else if g_ticks s mod timeout args = 0 then call (tf_functions s ! i) args s
             else kreturn () s))"

definition timer_init :: "u32 \<Rightarrow> ('a timer_st_scheme, unit) kernel" where
  "timer_init timer_handler_addr =
     kthen (timer_set_frequency 100) (isr_register_interrupt_handler IRQ_BASE timer_handler_addr)"

text \<open>\<open>sec * g_freq_hz\<close> is a product of \<open>int\<close>s, so overflow is undefined; the sum is unsigned.\<close>

definition sleep_end :: "u32 \<Rightarrow> 'a timer_st_scheme \<Rightarrow> u32 option" where
  "sleep_end sec s =
     (let p = sint sec * int (unat (g_freq_hz s))
      in if - 2147483648 \<le> p \<and> p < 2147483648 then Some (g_ticks s + word_of_int p) else None)"

primrec ticks :: "('s, unit) kernel \<Rightarrow> nat \<Rightarrow> ('s, unit) kernel" where
  "ticks irq 0 = kreturn ()"
| "ticks irq (Suc n) = kthen irq (ticks irq n)"

text \<open>
  The loop \<open>while(g_ticks < end);\<close> under a schedule: \<open>True\<close> when it has left the loop, \<open>False\<close>
  when the schedule ended first.
\<close>

primrec sleep_wait ::
  "('a timer_st_scheme, unit) kernel \<Rightarrow> u32 \<Rightarrow> nat list \<Rightarrow> ('a timer_st_scheme, bool) kernel" where
  "sleep_wait irq deadline [] = kgets (\<lambda>s. \<not> g_ticks s < deadline)"
| "sleep_wait irq deadline (n # ns) =
     kbind (kgets g_ticks) (\<lambda>t. if t < deadline then kthen (ticks irq n) (sleep_wait irq deadline ns) else kreturn True)"

definition sleep ::
  "('a timer_st_scheme, unit) kernel \<Rightarrow> nat list \<Rightarrow> u32 \<Rightarrow> ('a timer_st_scheme, bool) kernel" where
  "sleep irq schedule sec s =
     (case sleep_end sec s of None \<Rightarrow> kstop Undefined s | Some e \<Rightarrow> sleep_wait irq e schedule s)"

section \<open>The interval timer\<close>

lemma timer_set_frequency_run:
  assumes "f \<noteq> 0"
  defines "d \<equiv> of_nat (1193180 div unat f) :: u16"
  shows "\<exists>c. timer_set_frequency f s = Inr ((), s\<lparr>g_freq_hz := f, con := c\<rparr>)
    \<and> port_out c = port_out (con s) @ [(0x43, 0x36), (0x40, ucast d), (0x40, ucast (drop_bit 8 d))]"
proof -
  have "ucast (w AND 0xFF) = (ucast w :: u8)" for w :: u16
  proof -
    have "(0xFF :: u16) = mask 8" by (simp add: mask_eq_exp_minus_1)
    then show ?thesis by (simp add: bit_eq_iff bit_simps)
  qed
  with assms(1) show ?thesis
    by (simp add: timer_set_frequency_def lift_io_def Let_def TIMER_INPUT_CLOCK_FREQUENCY_def d_def
        TIMER_COMMAND_PORT_def TIMER_CHANNEL_0_DATA_PORT_def)
       (auto simp: outb_def)
qed

section \<open>Ticks\<close>

definition no_timer_functions :: "'a timer_st_scheme \<Rightarrow> bool" where
  "no_timer_functions s \<longleftrightarrow> length (tf_func_args s) = 256 \<and> (\<forall>i<256. timeout (tf_func_args s ! i) = 0)"

text \<open>All that serving an interrupt depends on: the segments, the tables, the registered handlers and the timer's settings.\<close>

definition interrupts_kept :: "'a timer_st_scheme \<Rightarrow> 'a timer_st_scheme \<Rightarrow> bool" where
  "interrupts_kept s t \<longleftrightarrow> seg_cs t = seg_cs s \<and> seg_data t = seg_data s \<and> gdtr t = gdtr s \<and> idtr t = idtr s \<and> g_idt t = g_idt s
     \<and> g_interrupt_handlers t = g_interrupt_handlers s \<and> g_freq_hz t = g_freq_hz s \<and> tf_func_args t = tf_func_args s"

lemma interrupts_kept_trans: "interrupts_kept s t \<Longrightarrow> interrupts_kept t u \<Longrightarrow> interrupts_kept s u"
  by (simp add: interrupts_kept_def)

lemma timer_handler_idle:
  assumes "no_timer_functions s"
  shows "timer_handler call s = Inr ((), s\<lparr>g_ticks := g_ticks s + 1\<rparr>)"
proof -
  let ?s = "s\<lparr>g_ticks := g_ticks s + 1\<rparr>"
  have "\<exists>t. kfor 256 (\<lambda>i s. let args = tf_func_args s ! i
          in if timeout args = 0 then kreturn () s
             else if g_ticks s mod timeout args = 0 then call (tf_functions s ! i) args s
             else kreturn () s) ?s = Inr ((), t) \<and> t = ?s"
    by (rule kfor_invariant) (use assms in \<open>auto simp: no_timer_functions_def\<close>)
  then show ?thesis by (simp add: timer_handler_def MAXIMUM_TIMER_FUNCTIONS_def)
qed

lemma ticks_idle:
  assumes "no_timer_functions s"
  shows "ticks (timer_handler call) n s = Inr ((), s\<lparr>g_ticks := g_ticks s + of_nat n\<rparr>)"
  using assms
proof (induction n arbitrary: s)
  case (Suc n)
  then have "no_timer_functions (s\<lparr>g_ticks := g_ticks s + 1\<rparr>)" by (simp add: no_timer_functions_def)
  from Suc.IH [OF this] Suc.prems show ?case by (simp add: timer_handler_idle add.assoc)
qed simp

text \<open>As long as the tick counter does not wrap, the wait ends exactly when enough ticks came.\<close>

lemma sleep_wait_idle:
  assumes "no_timer_functions s" "unat (g_ticks s) + sum_list ns < 4294967296"
  shows "\<exists>n. n \<le> sum_list ns \<and> sleep_wait (timer_handler call) e ns s =
      Inr (unat e \<le> unat (g_ticks s) + sum_list ns, s\<lparr>g_ticks := g_ticks s + of_nat n\<rparr>)
    \<and> (unat e \<le> unat (g_ticks s) + sum_list ns \<longrightarrow> unat e \<le> unat (g_ticks s) + n)"
  using assms
proof (induction ns arbitrary: s)
  case Nil
  show ?case by (intro exI [of _ 0]) (simp add: word_less_nat_alt not_less)
next
  case (Cons k ns)
  show ?case
  proof (cases "g_ticks s < e")
    case False
    then show ?thesis by (intro exI [of _ 0]) (simp add: word_less_nat_alt)
  next
    case True
    let ?s = "s\<lparr>g_ticks := g_ticks s + of_nat k\<rparr>"
    have "unat (g_ticks ?s) = unat (g_ticks s) + k"
      using Cons.prems(2) by (simp add: addr_nat)
    moreover have "no_timer_functions ?s" using Cons.prems(1) by (simp add: no_timer_functions_def)
    ultimately obtain n where "n \<le> sum_list ns"
      "sleep_wait (timer_handler call) e ns ?s = Inr (unat e \<le> unat (g_ticks s) + k + sum_list ns,
         ?s\<lparr>g_ticks := g_ticks ?s + of_nat n\<rparr>)"
      "unat e \<le> unat (g_ticks s) + k + sum_list ns \<longrightarrow> unat e \<le> unat (g_ticks s) + k + n"
      using Cons.IH [of ?s] Cons.prems(2) by auto
    with True ticks_idle [OF Cons.prems(1), of call k] show ?thesis
      by (intro exI [of _ "k + n"]) (simp add: add.assoc)
  qed
qed

section \<open>Properties\<close>

text \<open>
  C36: from 19 Hz on, the two bytes sent to channel 0 are the low and high byte of the quotient of
  the input clock by the frequency: the counter's reload value is the largest one that does not
  run below the requested rate.
\<close>

theorem timer_reload_value:
  assumes "19 \<le> unat f"
  shows "\<exists>s' lo hi. timer_set_frequency f s = Inr ((), s') \<and> g_freq_hz s' = f
    \<and> port_out (con s') = port_out (con s) @ [(0x43, 0x36), (0x40, lo), (0x40, hi)]
    \<and> (256 * unat hi + unat lo) * unat f \<le> 1193180
    \<and> 1193180 < (256 * unat hi + unat lo + 1) * unat f"
proof -
  let ?q = "1193180 div unat f"
  have "f \<noteq> 0" using assms by auto
  have "?q \<le> 1193180 div 19" using assms by (rule div_le_mono2 [OF _, rotated]) simp
  then have "?q < 65536" by simp
  from cursor_bytes [OF this] have "256 * unat (ucast (drop_bit 8 (of_nat ?q :: u16)) :: u8)
      + unat (ucast (of_nat ?q :: u16) :: u8) = ?q" .
  moreover have "?q * unat f \<le> 1193180" by simp
  moreover have "1193180 < (?q + 1) * unat f"
    using assms by (simp add: dividend_less_div_times add.commute)
  ultimately show ?thesis using timer_set_frequency_run [OF \<open>f \<noteq> 0\<close>, of s] by fastforce
qed

text \<open>
  C37: \<open>sleep\<close> waits for its time: with no periodic functions registered and a tick counter
  that does not wrap, it returns under a schedule of interrupts exactly when the schedule
  brings \<open>sec\<close> times the frequency many ticks, and not before that many have come.
\<close>

theorem sleep_waits:
  assumes "no_timer_functions s" "0 \<le> sint sec"
    and "sint sec * int (unat (g_freq_hz s)) < 2147483648"
    and "unat (g_ticks s) + nat (sint sec) * unat (g_freq_hz s) < 4294967296"
    and "unat (g_ticks s) + sum_list schedule < 4294967296"
  shows "\<exists>s' n. sleep (timer_handler call) schedule sec s =
      Inr (nat (sint sec) * unat (g_freq_hz s) \<le> sum_list schedule, s')
    \<and> s' = s\<lparr>g_ticks := g_ticks s + of_nat n\<rparr>
    \<and> (nat (sint sec) * unat (g_freq_hz s) \<le> sum_list schedule \<longrightarrow>
         nat (sint sec) * unat (g_freq_hz s) \<le> n)"
proof -
  let ?n = "nat (sint sec) * unat (g_freq_hz s)"
  let ?e = "g_ticks s + of_nat ?n"
  have "int ?n = sint sec * int (unat (g_freq_hz s))" using assms(2) by simp
  then have w: "word_of_int (sint sec * int (unat (g_freq_hz s))) = (of_nat ?n :: u32)"
    by (metis of_int_of_nat_eq)
  have "- 2147483648 \<le> sint sec * int (unat (g_freq_hz s))"
    using assms(2) by (intro order_trans [OF _ mult_nonneg_nonneg]) simp_all
  with assms(3) have "sleep_end sec s = Some ?e" unfolding sleep_end_def Let_def w by simp
  moreover have "unat ?e = unat (g_ticks s) + ?n"
    using assms(4) by (subst unat_add_small) (simp_all add: unat_of_nat_u32 del: of_nat_mult)
  ultimately show ?thesis
    using sleep_wait_idle [OF assms(1,5), of call ?e] unfolding sleep_def by auto
qed

definition sample_timer :: timer_st where
  "sample_timer = idt_st.extend sample_idt
     \<lparr>g_ticks = 7, g_freq_hz = 100, tf_current_index = 0, tf_functions = replicate 256 0,
      tf_func_args = replicate 256 \<lparr>timeout = 0, user = 0\<rparr>\<rparr>"

theorem timer_reload_value_witness:
  "\<exists>s' lo hi. timer_set_frequency 100 sample_timer = Inr ((), s') \<and> g_freq_hz s' = 100
    \<and> port_out (con s') = port_out (con sample_timer) @ [(0x43, 0x36), (0x40, lo), (0x40, hi)]
    \<and> (256 * unat hi + unat lo) * 100 \<le> 1193180
    \<and> 1193180 < (256 * unat hi + unat lo + 1) * 100"
  using timer_reload_value [of 100 sample_timer] by simp

theorem sleep_waits_witness:
  "\<exists>s' n. sleep (timer_handler (\<lambda>h args. kreturn ())) [60, 60, 0] 1 sample_timer = Inr (True, s')
    \<and> s' = sample_timer\<lparr>g_ticks := g_ticks sample_timer + of_nat n\<rparr> \<and> 100 \<le> n"
  using sleep_waits [of sample_timer 1 "[60, 60, 0]" "\<lambda>h args. kreturn ()"]
  by (simp add: sample_timer_def idt_st.defs no_timer_functions_def)

end
