(* ===== verification/Paging.thy ===== *)
theory Paging
  imports Timer
begin

unbundle bit_operations_syntax

text \<open>
  Paging (\<^verbatim>\<open>src/mm/paging.c\<close>, \<^verbatim>\<open>include/paging.h\<close>): the kernel's page directory, the reverse table
  of the page tables' virtual addresses, mapping a page, translating an address, the fault
  handler and the initialisation that builds a new directory and switches to it. The tables are
  words of machine memory reached through the page walk. The addresses the linker chooses are
  arguments.
\<close>

section \<open>Data\<close>

record paging_st = timer_st +
  pageDirectory :: u32
  ptPhysToVirt :: u32
  kernelPagingEnabled :: bool

definition PAGE_ENTRIES :: u32 where "PAGE_ENTRIES = 1024"
definition PAGE_TABLE_SIZE :: u32 where "PAGE_TABLE_SIZE = 4 * PAGE_ENTRIES"
definition PAGE_ENTRY_PRESENT :: u32 where "PAGE_ENTRY_PRESENT = 0x1"
definition PAGE_ENTRY_RW :: u32 where "PAGE_ENTRY_RW = 0x2"
definition NOT_ALIGNED :: u32 where "NOT_ALIGNED = NOT PAGE_ALIGN"

definition PAGE_ALIGN_UP :: "u32 \<Rightarrow> u32" where
  "PAGE_ALIGN_UP addr = (if addr AND NOT_ALIGNED \<noteq> 0 then (addr AND PAGE_ALIGN) + PAGE_SIZE else addr)"

definition PAGES_PER_MB :: "u32 \<Rightarrow> u32" where
  "PAGES_PER_MB mb = PAGE_ALIGN_UP (mb * 1024 * 1024) div PAGE_SIZE"

text \<open>\<open>pageDirI\<close> and \<open>pageTableI\<close> of an address.\<close>

definition dir_index :: "u32 \<Rightarrow> u32" where
  "dir_index virt = (virt div PAGE_SIZE) div 1024 mod 1024"

definition table_index :: "u32 \<Rightarrow> u32" where
  "table_index virt = (virt div PAGE_SIZE) mod 1024"

text \<open>Element \<open>i\<close> of an array of \<open>uint32\<close> at \<open>p\<close>.\<close>

definition elem :: "u32 \<Rightarrow> u32 \<Rightarrow> u32" where
  "elem p i = p + 4 * i"

section \<open>Processor access\<close>

definition native_set_page_directory :: "u32 \<Rightarrow> ('a machine_scheme, unit) kernel" where
  "native_set_page_directory phyDir = kmodify (\<lambda>s. s\<lparr>cr3 := phyDir\<rparr>)"

definition native_get_page_directory :: "('a machine_scheme, u32) kernel" where
  "native_get_page_directory = kgets cr3"

definition native_paging_enable :: "('a machine_scheme, unit) kernel" where
  "native_paging_enable = kmodify (\<lambda>s. s\<lparr>cr0 := cr0 s OR 0x80000000\<rparr>)"

definition native_paging_disable :: "('a machine_scheme, unit) kernel" where
  "native_paging_disable = kmodify (\<lambda>s. s\<lparr>cr0 := cr0 s AND NOT 0x80000000\<rparr>)"

section \<open>Operations\<close>

definition paging_c :: string where "paging_c = ''src/mm/paging.c''"

definition virt_to_phys :: "u32 \<Rightarrow> ('a paging_st_scheme, u32) kernel" where
  "virt_to_phys virt_addr =
     (let pageDirI = dir_index virt_addr; pageTableI = table_index virt_addr in
      kbind (\<lambda>s. if kernelPagingEnabled s
               then kbind (load32 (elem (ptPhysToVirt s) pageDirI))
                      (\<lambda>v. kbind (load32 (elem (pageDirectory s) pageDirI))
                        (\<lambda>e. let pde = v OR (e AND PAGE_ENTRY_PRESENT)
                             in kreturn (pde, pde AND PAGE_ALIGN))) s
               else kbind native_get_page_directory
                      (\<lambda>pd. kbind (load32 (elem pd pageDirI))
                        (\<lambda>pde. let pt = pde AND PAGE_ALIGN
                               in if pt = 0x001010D8 \<or> pde = 0x001010D8 \<or> pd = 0x001010D8
                                  then panic ''Unexpected address encountered'' []
                                  else kreturn (pde, pt))) s)
        (\<lambda>(pde, pt).
          kthen (ASSERT (pde AND PAGE_ENTRY_PRESENT \<noteq> 0) paging_c ''virt_to_phys'' 64)
         (kbind (load32 (elem pt pageTableI))
           (\<lambda>pte. kthen (ASSERT (pte AND PAGE_ENTRY_PRESENT \<noteq> 0) paging_c ''virt_to_phys'' 65)
                   (kbind (load32 (elem pt pageTableI)) (\<lambda>pte. kreturn (pte AND PAGE_ALIGN)))))))"

text \<open>\<open>pt[index] = f(pt[index])\<close>\<close>

definition update_elem :: "u32 \<Rightarrow> u32 \<Rightarrow> (u32 \<Rightarrow> u32) \<Rightarrow> ('a machine_scheme, unit) kernel" where
  "update_elem pt index f = kbind (load32 (elem pt index)) (\<lambda>v. store32 (elem pt index) (f v))"

definition page_map_pte :: "u32 \<Rightarrow> u32 \<Rightarrow> u32 \<Rightarrow> u32 \<Rightarrow> ('a paging_st_scheme, unit) kernel" where
  "page_map_pte pt index phys perm =
     kthen (ASSERT (pt \<noteq> 0) paging_c ''page_map_pte'' 204)
    (kthen (ASSERT (index < PAGE_ENTRIES) paging_c ''page_map_pte'' 205)
    (kthen (update_elem pt index (\<lambda>v. v AND NOT PAGE_ALIGN))
    (kthen (update_elem pt index (\<lambda>v. v OR phys))
    (kthen (update_elem pt index (\<lambda>v. v OR perm))
           (update_elem pt index (\<lambda>v. v OR PAGE_ENTRY_PRESENT))))))"

text \<open>The creation of a page table for a directory index, as \<open>page_map\<close> does it.\<close>

definition page_map_create :: "u32 \<Rightarrow> ('a paging_st_scheme, unit) kernel" where
  "page_map_create pageDirI =
     kbind (kmalloc_early_align PAGE_TABLE_SIZE) (\<lambda>pageTable.
     kthen (memset pageTable 0 PAGE_TABLE_SIZE)
    (kbind (virt_to_phys pageTable) (\<lambda>d.
     kbind (virt_to_phys pageTable) (\<lambda>p.
     kbind (kgets pageDirectory) (\<lambda>pd.
     kthen (store32 (elem pd pageDirI) (p OR PAGE_ENTRY_PRESENT OR PAGE_ENTRY_RW))
    (kbind (load32 (elem pd pageDirI)) (\<lambda>e.
     kthen (k_printfln (Some ''page_map: table %u created at %p (%p)'')
              [VInt pageDirI, VInt pageTable, VInt e])
    (kbind (kgets ptPhysToVirt) (\<lambda>pv. store32 (elem pv pageDirI) pageTable)))))))))"

definition page_map :: "u32 \<Rightarrow> u32 \<Rightarrow> u32 \<Rightarrow> ('a paging_st_scheme, u32) kernel" where
  "page_map virt phys perm =
     kthen (ASSERT (\<not> (virt AND NOT_ALIGNED \<noteq> 0 \<or> phys AND NOT_ALIGNED \<noteq> 0)) paging_c ''page_map'' 79)
    (kbind (kgets pageDirectory) (\<lambda>pd.
     kthen (ASSERT (pd \<noteq> 0) paging_c ''page_map'' 80)
    (let pageDirI = dir_index virt; pageTableI = table_index virt in
     kbind (load32 (elem pd pageDirI)) (\<lambda>_.
     kbind (load32 (elem pd pageDirI)) (\<lambda>e.
     kthen (if e AND PAGE_ENTRY_PRESENT = 0 then page_map_create pageDirI else kreturn ())
    (kbind (load32 (elem pd pageDirI)) (\<lambda>d.
     kbind (kgets ptPhysToVirt) (\<lambda>pv.
     kbind (load32 (elem pv pageDirI)) (\<lambda>pageTable.
     kthen (page_map_pte pageTable pageTableI phys perm)
           (kreturn (elem pageTable pageTableI)))))))))))"

definition page_ident_map :: "u32 \<Rightarrow> u32 \<Rightarrow> ('a paging_st_scheme, u32) kernel" where
  "page_ident_map addr perm = page_map addr addr perm"

text \<open>
  The loop that maps consecutive pages while the virtual address is below a limit. The source's
  limits are page aligned, so the address cannot wrap before the limit is reached; a limit in
  the last page would make it run forever.
\<close>

function map_pages :: "u32 \<Rightarrow> u32 \<Rightarrow> u32 \<Rightarrow> u32 \<Rightarrow> ('a paging_st_scheme, unit) kernel" where
  "map_pages start finish addr perm =
     (if start < finish then
        (if start + PAGE_SIZE < start then kstop Undefined
         else kthen (page_map start addr perm) (map_pages (start + PAGE_SIZE) finish (addr + PAGE_SIZE) perm))
      else kreturn ())"
  by pat_completeness auto
termination
proof (relation "measure (\<lambda>(start, finish, addr, perm). unat finish - unat start)")
  fix start finish addr perm :: u32
  assume a: "start < finish" "\<not> start + PAGE_SIZE < start"
  have "start + PAGE_SIZE \<noteq> start" by (simp add: PAGE_SIZE_def)
  with a(2) have "unat start < unat (start + PAGE_SIZE)" by (simp add: word_less_nat_alt word_unat_eq_iff)
  with a(1) show "((start + PAGE_SIZE, finish, addr + PAGE_SIZE, perm), start, finish, addr, perm)
    \<in> measure (\<lambda>(start, finish, addr, perm). unat finish - unat start)"
    by (simp add: word_less_nat_alt)
qed simp

declare map_pages.simps [simp del]

definition page_ident_map_range :: "u32 \<Rightarrow> u32 \<Rightarrow> u32 \<Rightarrow> ('a paging_st_scheme, unit) kernel" where
  "page_ident_map_range start finish perm =
     kthen (ASSERT (start < finish) paging_c ''page_ident_map_range'' 150)
           (map_pages start (PAGE_ALIGN_UP finish) start perm)"

definition page_fault_handler :: "registers \<Rightarrow> ('a kcore_scheme, unit) kernel" where
  "page_fault_handler regs =
     kbind (kgets cr2) (\<lambda>faulting_address.
     kthen (k_printfln
       (Some (''Page fault at address=%p | present=%d read-only=%d user-mode=%d'' @ [CHR 0x0A]
              @ ''reserved=%d instruction-fetch=%d''))
       [VInt faulting_address, VInt (if err_code regs AND 0x1 = 0 then 1 else 0),
        VInt (err_code regs AND 0x2), VInt (err_code regs AND 0x4), VInt (err_code regs AND 0x8),
        VInt (err_code regs AND 0x10)])
     (panic ''here'' []))"

definition init_paging :: "u32 \<Rightarrow> u32 \<Rightarrow> u32 \<Rightarrow> ('a paging_st_scheme, unit) kernel" where
  "init_paging kernel_start kernel_end page_fault_handler_addr =
     kbind (kmalloc_early_align PAGE_TABLE_SIZE) (\<lambda>pd.
     kthen (kmodify (\<lambda>s. s\<lparr>pageDirectory := pd\<rparr>))
    (kbind (kmalloc_early_align PAGE_TABLE_SIZE) (\<lambda>pv.
     kthen (kmodify (\<lambda>s. s\<lparr>ptPhysToVirt := pv\<rparr>))
    (kthen (memset pd 0 PAGE_TABLE_SIZE)
    (kthen (memset pv 0 PAGE_TABLE_SIZE)
    (kbind native_get_page_directory (\<lambda>oldDir.
     kbind (virt_to_phys pd) (\<lambda>p.
     kthen (k_printf (Some (''paging: PTD at %p (old %p)'' @ [CHR 0x0A])) [VInt p, VInt oldDir])
    (kthen (kfor (unat (PAGES_PER_MB 1))
              (\<lambda>i. kthen (page_ident_map (of_nat i * PAGE_SIZE) PAGE_ENTRY_RW) (kreturn ())))
    (kthen (map_pages kernel_start (PAGE_ALIGN_UP kernel_end) (kernel_start - 0xC0000000) PAGE_ENTRY_RW)
    (kthen (isr_register_interrupt_handler 14 page_fault_handler_addr)
    (kbind (virt_to_phys pd) (\<lambda>p.
     kthen (k_printfln (Some ''pagedir=%p, virtpagedir=%p'') [VInt p, VInt pd])
    (kbind (virt_to_phys pd) (\<lambda>p.
     kthen (native_set_page_directory p)
    (kthen native_paging_enable
           (kmodify (\<lambda>s. s\<lparr>kernelPagingEnabled := True\<rparr>))))))))))))))))))"

section \<open>Page arithmetic\<close>

definition page_aligned :: "u32 \<Rightarrow> bool" where
  "page_aligned p \<longleftrightarrow> unat p mod 4096 = 0"

lemma unat_dir_index: "unat (dir_index va) = unat va div 4194304"
proof -
  have "unat va div 4096 div 1024 = unat va div 4194304" by (simp add: div_mult2_eq [symmetric])
  moreover have "unat va div 4194304 < 1024" using u32_less [of va] by (simp add: div_less_iff_less_mult)
  ultimately show ?thesis by (simp add: dir_index_def PAGE_SIZE_def unat_div unat_mod)
qed

lemma unat_table_index: "unat (table_index va) = unat va div 4096 mod 1024"
  by (simp add: table_index_def PAGE_SIZE_def unat_div unat_mod)

lemma dir_index_drop: "dir_index va = drop_bit 22 va"
proof -
  have "unat (drop_bit 22 va) = unat va div 4194304" by (simp add: drop_bit_eq_div unat_div)
  then show ?thesis by (simp add: word_unat_eq_iff unat_dir_index)
qed

lemma table_index_drop: "table_index va = drop_bit 12 va AND 0x3FF"
proof -
  have "(0x3FF :: u32) = mask 10" by (simp add: mask_eq_exp_minus_1)
  then have "drop_bit 12 va AND 0x3FF = take_bit 10 (drop_bit 12 va)" by (simp only: take_bit_eq_mask)
  also have "\<dots> = va div 4096 mod 1024" by (simp add: take_bit_eq_mod drop_bit_eq_div)
  finally have "drop_bit 12 va AND 0x3FF = va div 4096 mod 1024" .
  then show ?thesis by (simp add: table_index_def PAGE_SIZE_def)
qed

lemma index_less [simp]: "dir_index va < 1024" "table_index va < 1024"
  using u32_less [of va]
  by (simp_all add: word_less_nat_alt unat_dir_index unat_table_index div_less_iff_less_mult)

text \<open>Two addresses are in the same page exactly when both indices agree.\<close>

lemma same_indices_iff:
  "dir_index a = dir_index b \<and> table_index a = table_index b \<longleftrightarrow> unat a div 4096 = unat b div 4096"
proof -
  have dir: "unat (dir_index w) = unat w div 4096 div 1024" for w
    unfolding unat_dir_index by (simp add: div_mult2_eq [symmetric])
  show ?thesis
    unfolding word_unat_eq_iff dir unat_table_index
    by (metis div_mult_mod_eq)
qed

lemma page_plus_less:
  assumes "unat (p :: u32) mod 4096 = 0" "n < 4096"
  shows "unat p + n < 4294967296"
proof -
  have "unat p = unat p div 4096 * 4096" using assms(1) by (metis add.right_neutral div_mult_mod_eq)
  moreover have "unat p div 4096 < 1048576" using u32_less [of p] by (simp add: div_less_iff_less_mult)
  ultimately show ?thesis using assms(2) by linarith
qed

lemma page_block_fits: "page_aligned p \<Longrightarrow> unat p + 4096 \<le> 4294967296"
  using page_plus_less [of p 4095] by (simp add: page_aligned_def)

lemma unat_elem:
  assumes "page_aligned p" "i < 1024"
  shows "unat (elem p i) = unat p + 4 * unat i"
proof -
  have i: "unat i < 1024" using assms(2) by (simp add: word_less_nat_alt)
  then have m: "unat (4 * i) = 4 * unat i" by (simp add: unat_word_ariths)
  have "unat p + 4 * unat i < 4294967296"
    using assms(1) i unfolding page_aligned_def by (intro page_plus_less) simp_all
  then show ?thesis unfolding elem_def by (subst unat_add_small) (simp_all add: m)
qed

lemma elem_aligned4:
  assumes "page_aligned p" "i < 1024"
  shows "aligned4 (elem p i)"
proof -
  have "unat p mod 4 = 0" using assms(1) page_mod_4 [of "unat p"] by (simp add: page_aligned_def)
  then show ?thesis unfolding aligned4_def unat_elem [OF assms] by presburger
qed

lemma elem_in_block:
  assumes "page_aligned p" "i < 1024"
  shows "word_bytes (elem p i) \<subseteq> block p 4096"
proof -
  have i: "unat i < 1024" using assms(2) by (simp add: word_less_nat_alt)
  have "elem p i + k \<in> block p 4096" if "unat k < 4" for k
    using i that aligned4_plus [OF elem_aligned4 [OF assms] that]
    unfolding mem_block_iff [OF page_block_fits [OF assms(1)]] by (simp add: unat_elem [OF assms])
  from this [of 0] this [of 1] this [of 2] this [of 3] show ?thesis by (simp add: word_bytes_def)
qed

lemma page_blocks_disjoint:
  assumes "page_aligned p" "page_aligned q" "p \<noteq> q"
  shows "block p 4096 \<inter> block q 4096 = {}"
proof -
  have "unat p div 4096 \<noteq> unat q div 4096"
    using assms unfolding page_aligned_def word_unat_eq_iff by (metis div_mult_mod_eq)
  moreover have "unat x div 4096 = unat r div 4096" if x: "x \<in> block r 4096" and r: "page_aligned r" for x r
  proof -
    have "unat r \<le> unat x" "unat x < unat r + 4096"
      using x mem_block_iff [OF page_block_fits [OF r], of x] by simp_all
    moreover obtain k where "unat r = 4096 * k" using r unfolding page_aligned_def by auto
    ultimately show ?thesis by (intro div_nat_eqI) simp_all
  qed
  ultimately show ?thesis using assms(1,2) by (metis disjoint_iff)
qed

lemma elem_inject:
  assumes "page_aligned p" "page_aligned q" "i < 1024" "j < 1024"
  shows "elem p i = elem q j \<longleftrightarrow> p = q \<and> i = j"
proof
  assume eq: "elem p i = elem q j"
  have "elem p i \<in> block p 4096" "elem q j \<in> block q 4096"
    using elem_in_block [OF assms(1,3)] elem_in_block [OF assms(2,4)] by (simp_all add: word_bytes_def)
  then have "p = q" using page_blocks_disjoint [OF assms(1,2)] eq by auto
  moreover have "unat p + 4 * unat i = unat q + 4 * unat j"
    using eq unat_elem [OF assms(1,3)] unat_elem [OF assms(2,4)] by simp
  ultimately show "p = q \<and> i = j" by (simp add: word_unat_eq_iff)
qed simp

section \<open>The kernel heap as words\<close>

text \<open>
  The kernel lives \<open>0xC0000000\<close> above its physical place. While the kernel's new tables are being
  built, the boot tables map the heap to that place, and map themselves to their own addresses.
\<close>

definition kphys :: "u32 \<Rightarrow> u32" where
  "kphys va = va - 0xC0000000"

definition heap :: "'a alloc_st_scheme \<Rightarrow> u32 set" where
  "heap s = {a. initialBase s \<le> a \<and> a < maxBase s}"

definition heap_word :: "'a machine_scheme \<Rightarrow> u32 \<Rightarrow> u32" where
  "heap_word s va = get32 (mem s) (kphys va)"

lemma kphys_inject [simp]: "kphys a = kphys b \<longleftrightarrow> a = b"
  by (simp add: kphys_def)

lemma kphys_plus: "kphys (a + k) = kphys a + k"
  by (simp add: kphys_def)

lemma kphys_word_bytes: "word_bytes (kphys a) = kphys ` word_bytes a"
  by (simp add: word_bytes_def kphys_plus)

lemma heap_word_cong:
  "(\<And>x. x \<in> word_bytes va \<Longrightarrow> mem s' (kphys x) = mem s (kphys x)) \<Longrightarrow> heap_word s' va = heap_word s va"
  unfolding heap_word_def by (rule get32_cong) (auto simp: kphys_word_bytes)

lemma heap_word_put_same [simp]: "heap_word (s\<lparr>mem := put32 (mem s) (kphys a) v\<rparr>) a = v"
  by (simp add: heap_word_def)

lemma word_bytes_disjoint:
  assumes "aligned4 a" "aligned4 b" "a \<noteq> b"
  shows "word_bytes a \<inter> word_bytes b = {}"
proof -
  have "a + i \<noteq> b + j" if "unat i < 4" "unat j < 4" for i j
    by (rule aligned4_bytes_neq [OF assms that])
  then have "x \<noteq> y" if "x \<in> word_bytes a" "y \<in> word_bytes b" for x y
  proof -
    have "\<exists>i. unat i < 4 \<and> z = c + i" if "z \<in> word_bytes c" for z c
      using that by (force simp: word_bytes_def intro: exI [of _ 0] exI [of _ 1] exI [of _ 2] exI [of _ 3])
    with that \<open>\<And>j i. \<lbrakk>unat i < 4; unat j < 4\<rbrakk> \<Longrightarrow> a + i \<noteq> b + j\<close> show ?thesis by metis
  qed
  then show ?thesis by blast
qed

lemma heap_word_put_other:
  assumes "aligned4 a" "aligned4 b" "a \<noteq> b"
  shows "heap_word (s\<lparr>mem := put32 (mem s) (kphys a) v\<rparr>) b = heap_word s b"
proof (rule heap_word_cong)
  fix x
  assume "x \<in> word_bytes b"
  then have "kphys x \<notin> word_bytes (kphys a)"
    using word_bytes_disjoint [OF assms] by (auto simp: kphys_word_bytes)
  then show "mem (s\<lparr>mem := put32 (mem s) (kphys a) v\<rparr>) (kphys x) = mem s (kphys x)"
    by (simp add: put32_def word_bytes_def)
qed

lemma heap_word_filled_in:
  "word_bytes va \<subseteq> A \<Longrightarrow> heap_word (filled (kphys ` A) 0 s) va = 0"
  unfolding heap_word_def filled_def get32_def
  by (simp add: word_bytes_def image_iff kphys_plus [symmetric]) (simp add: le32_def)

lemma heap_word_filled_out:
  "word_bytes va \<inter> A = {} \<Longrightarrow> heap_word (filled (kphys ` A) 0 s) va = heap_word s va"
  by (rule heap_word_cong) (auto simp: filled_def)

definition boot_mapped :: "'a paging_st_scheme \<Rightarrow> bool" where
  "boot_mapped s \<longleftrightarrow> paging_on s \<and> page_aligned (cr3 s) \<and> mapped (heap s) kphys s
     \<and> (\<forall>va\<in>heap s. \<forall>a\<in>walk_reads s va. mmu_walk s a = Some a \<and> walk_reads s a \<inter> kphys ` heap s = {})
     \<and> \<not> kernelPagingEnabled s"

lemma boot_mapped_frame:
  assumes "boot_mapped s" "cr0 s' = cr0 s" "cr3 s' = cr3 s"
    "heap s' = heap s" "kernelPagingEnabled s' = kernelPagingEnabled s"
    "\<And>x. x \<notin> kphys ` heap s \<Longrightarrow> mem s' x = mem s x"
  shows "boot_mapped s'"
proof -
  have m: "mapped (heap s) kphys s'"
    by (rule mapped_frame [of _ _ s]) (use assms in \<open>simp_all add: boot_mapped_def\<close>)
  have keep: "walk_reads s' va = walk_reads s va" "mmu_walk s' va = mmu_walk s va"
    if dis: "walk_reads s va \<inter> kphys ` heap s = {}" for va
  proof -
    have "mem s' x = mem s x" if "x \<in> walk_reads s va" for x
      by (rule assms(6)) (use that dis in blast)
    then show "walk_reads s' va = walk_reads s va" "mmu_walk s' va = mmu_walk s va"
      using walk_cong [OF assms(2,3), of va] by simp_all
  qed
  have "walk_reads s va \<inter> kphys ` heap s = {}" if "va \<in> heap s" for va
    using assms(1) that by (simp add: boot_mapped_def mapped_def)
  with keep assms(1) have "mmu_walk s' a = Some a \<and> walk_reads s' a \<inter> kphys ` heap s = {}"
    if "va \<in> heap s" "a \<in> walk_reads s' va" for va a
    using that unfolding boot_mapped_def by metis
  moreover have "paging_on s'" using assms(1,2) by (simp add: boot_mapped_def paging_on_def)
  ultimately show ?thesis using m assms(1,3,4,5) unfolding boot_mapped_def by simp
qed

lemma page_aligned_mask: "page_aligned p \<Longrightarrow> p AND 0xFFFFF000 = p"
proof -
  assume "page_aligned p"
  then have "unat p div 4096 * 4096 = unat p"
    using div_mult_mod_eq [of "unat p" 4096] by (simp only: page_aligned_def add_0_right)
  then show ?thesis by (simp only: word_unat_eq_iff unat_and_page_mask)
qed

lemma page_aligned_masked: "page_aligned (w AND 0xFFFFF000)"
  unfolding page_aligned_def unat_and_page_mask by simp

lemma pde_addr_elem: "page_aligned dir \<Longrightarrow> pde_addr dir va = elem dir (dir_index va)"
  by (simp add: pde_addr_def elem_def dir_index_drop page_aligned_mask)

lemma pte_addr_elem: "pte_addr pde va = elem (pde AND 0xFFFFF000) (table_index va)"
  by (simp add: pte_addr_def elem_def table_index_drop)

text \<open>During boot \<open>virt_to_phys\<close> returns the physical page of a heap address.\<close>

lemma virt_to_phys_boot:
  assumes "boot_mapped s" "va \<in> heap s"
  shows "virt_to_phys va s = Inr (kphys va AND 0xFFFFF000, s)"
proof -
  let ?pd = "cr3 s"
  let ?pde = "get32 (mem s) (elem ?pd (dir_index va))"
  let ?pt = "?pde AND 0xFFFFF000"
  let ?pte = "get32 (mem s) (elem ?pt (table_index va))"
  have on: "paging_on s" and al: "page_aligned ?pd" and dis: "\<not> kernelPagingEnabled s"
    using assms(1) by (simp_all add: boot_mapped_def)
  have "mmu_walk s va = Some (kphys va)"
    using assms by (simp add: boot_mapped_def mapped_def)
  then have pde1: "?pde AND 1 \<noteq> 0" and pte1: "?pte AND 1 \<noteq> 0"
    and pa: "kphys va = (?pte AND 0xFFFFF000) OR (va AND 0xFFF)"
    using on al by (auto simp: mmu_walk_def pde_addr_elem pte_addr_elem Let_def split: if_splits)
  then have "walk_reads s va = word_bytes (elem ?pd (dir_index va)) \<union> word_bytes (elem ?pt (table_index va))"
    using on al by (simp add: walk_reads_def pde_addr_elem pte_addr_elem Let_def)
  then have walks: "mmu_walk s (elem ?pd (dir_index va)) = Some (elem ?pd (dir_index va))"
    "mmu_walk s (elem ?pt (table_index va)) = Some (elem ?pt (table_index va))"
    using assms unfolding boot_mapped_def by (auto simp: word_bytes_def)
  have loads: "load32 (elem ?pd (dir_index va)) s = Inr (?pde, s)"
    "load32 (elem ?pt (table_index va)) s = Inr (?pte, s)"
    using walks al by (simp_all add: load32_walk elem_aligned4 page_aligned_masked)
  have "?pde \<noteq> 0x001010D8" using pde1 by auto
  moreover have "w \<noteq> 0x001010D8" if "page_aligned w" for w using that by (auto simp: page_aligned_def)
  ultimately have "virt_to_phys va s = Inr (?pte AND 0xFFFFF000, s)"
    using loads dis pde1 pte1 al
    by (simp add: virt_to_phys_def Let_def native_get_page_directory_def PAGE_ALIGN_def
        PAGE_ENTRY_PRESENT_def page_aligned_masked)
  moreover have "kphys va AND 0xFFFFF000 = ?pte AND 0xFFFFF000"
    unfolding pa page_mask offset_mask by (rule bit_eqI) (auto simp: bit_simps)
  ultimately show ?thesis by simp
qed

section \<open>Reading and writing table words\<close>

definition poke :: "'a machine_scheme \<Rightarrow> u32 \<Rightarrow> u32 \<Rightarrow> 'a machine_scheme" where
  "poke s a v = s\<lparr>mem := put32 (mem s) (kphys a) v\<rparr>"

lemma heap_word_poke:
  assumes "page_aligned p" "i < 1024" "page_aligned q" "j < 1024"
  shows "heap_word (poke s (elem p i) v) (elem q j) =
    (if p = q \<and> i = j then v else heap_word s (elem q j))"
  using heap_word_put_other [of "elem p i" "elem q j"] elem_inject [OF assms(1,3,2,4)] assms
  by (auto simp: poke_def elem_aligned4)

lemma heap_word_clear:
  assumes "page_aligned p" "page_aligned q" "j < 1024"
  shows "heap_word (filled (kphys ` block p 4096) 0 s) (elem q j) =
    (if p = q then 0 else heap_word s (elem q j))"
proof (cases "p = q")
  case True
  then show ?thesis using elem_in_block [OF assms(2,3)] by (simp add: heap_word_filled_in)
next
  case False
  then have "word_bytes (elem q j) \<inter> block p 4096 = {}"
    using elem_in_block [OF assms(2,3)] page_blocks_disjoint [OF assms(1,2)] by blast
  with False show ?thesis by (simp add: heap_word_filled_out)
qed

lemma poke_poke [simp]: "poke (poke s a v) a w = poke s a w"
  by (simp add: poke_def)

lemma poke_word_same [simp]: "heap_word (poke s a v) a = v"
  by (simp add: poke_def)

lemma heap_word_fields [simp]:
  "heap_word (s\<lparr>con := c\<rparr>) a = heap_word s a" "heap_word (t\<lparr>currentBase := b\<rparr>) a = heap_word t a"
  by (simp_all add: heap_word_def)

text \<open>Pages of the heap that have been handed out.\<close>

definition page_in :: "'a alloc_st_scheme \<Rightarrow> u32 \<Rightarrow> bool" where
  "page_in s p \<longleftrightarrow> page_aligned p \<and> initialBase s \<le> p \<and> unat p + 4096 \<le> unat (currentBase s)"

definition allocated :: "'a alloc_st_scheme \<Rightarrow> u32 set" where
  "allocated s = {a. initialBase s \<le> a \<and> a < currentBase s}"

lemma page_in_allocated:
  assumes "page_in s p"
  shows "block p 4096 \<subseteq> allocated s"
proof
  fix x
  assume "x \<in> block p 4096"
  then have "unat p \<le> unat x" "unat x < unat p + 4096"
    using assms mem_block_iff [OF page_block_fits, of p x] by (simp_all add: page_in_def)
  then show "x \<in> allocated s"
    using assms by (simp add: allocated_def page_in_def word_le_nat_alt word_less_nat_alt)
qed

lemma page_in_heap:
  assumes "arena_ok s" "page_in s p"
  shows "block p 4096 \<subseteq> heap s"
  using page_in_allocated [OF assms(2)] assms(1) by (fastforce simp: heap_def allocated_def arena_ok_def)

lemma load_elem:
  assumes "boot_mapped s" "block p 4096 \<subseteq> heap s" "page_aligned p" "i < 1024"
  shows "load32 (elem p i) s = Inr (heap_word s (elem p i), s)"
  unfolding heap_word_def
  by (rule vm.load32_region [of "heap s" kphys])
     (use assms elem_in_block [of p i] in \<open>auto simp: boot_mapped_def elem_aligned4\<close>)

lemma kphys_heap_frame: "block p 4096 \<subseteq> D \<Longrightarrow> page_aligned p \<Longrightarrow> i < 1024 \<Longrightarrow>
    x \<notin> kphys ` D \<Longrightarrow> mem (poke s (elem p i) v) x = mem s x"
  using elem_in_block [of p i]
  by (auto simp: poke_def put32_def word_bytes_def kphys_plus [symmetric])

lemma store_elem:
  assumes "boot_mapped s" "block p 4096 \<subseteq> heap s" "page_aligned p" "i < 1024"
  shows "store32 (elem p i) v s = Inr ((), poke s (elem p i) v)"
  unfolding poke_def
  by (rule vm.store32_region [of "heap s" kphys])
     (use assms elem_in_block [of p i] in \<open>auto simp: boot_mapped_def elem_aligned4\<close>)

lemma poke_fields [simp]:
  "cr0 (poke s a v) = cr0 s" "cr3 (poke s a v) = cr3 s" "initialBase (poke t a v) = initialBase t"
  "maxBase (poke t a v) = maxBase t" "currentBase (poke t a v) = currentBase t"
  "initialized (poke t a v) = initialized t" "pageDirectory (poke u a v) = pageDirectory u"
  "ptPhysToVirt (poke u a v) = ptPhysToVirt u" "kernelPagingEnabled (poke u a v) = kernelPagingEnabled u"
  "heap (poke t a v) = heap t"
  by (simp_all add: poke_def heap_def)

lemma boot_mapped_poke:
  assumes "boot_mapped s" "block p 4096 \<subseteq> heap s" "page_aligned p" "i < 1024"
  shows "boot_mapped (poke s (elem p i) v)"
  by (rule boot_mapped_frame [OF assms(1)])
     (use kphys_heap_frame [OF assms(2-4)] in simp_all)

lemma update_elem_run:
  assumes "boot_mapped s" "block p 4096 \<subseteq> heap s" "page_aligned p" "i < 1024"
  shows "update_elem p i f s = Inr ((), poke s (elem p i) (f (heap_word s (elem p i))))"
  using load_elem [OF assms] store_elem [OF assms] by (simp add: update_elem_def)

definition pte_update :: "u32 \<Rightarrow> u32 \<Rightarrow> u32 \<Rightarrow> u32" where
  "pte_update phys perm v = (v AND 0xFFF) OR phys OR perm OR 1"

lemma page_map_pte_run:
  assumes "boot_mapped s" "block p 4096 \<subseteq> heap s" "page_aligned p" "i < 1024" "p \<noteq> 0"
  shows "page_map_pte p i phys perm s = Inr ((), poke s (elem p i) (pte_update phys perm (heap_word s (elem p i))))"
proof -
  have upd: "update_elem p i f (poke s (elem p i) v) = Inr ((), poke s (elem p i) (f v))" for f v
    using update_elem_run [of "poke s (elem p i) v" p i f] boot_mapped_poke [OF assms(1-4), of v] assms
    by simp
  show ?thesis
    using assms(4,5) update_elem_run [OF assms(1-4)]
    by (simp add: page_map_pte_def upd PAGE_ENTRIES_def NOT_PAGE_ALIGN PAGE_ENTRY_PRESENT_def pte_update_def
        or.assoc)
qed

section \<open>The tables under construction\<close>

definition dir_entry :: "'a paging_st_scheme \<Rightarrow> u32 \<Rightarrow> u32" where
  "dir_entry s i = heap_word s (elem (pageDirectory s) i)"

definition tab_entry :: "'a paging_st_scheme \<Rightarrow> u32 \<Rightarrow> u32" where
  "tab_entry s i = heap_word s (elem (ptPhysToVirt s) i)"

definition present :: "'a paging_st_scheme \<Rightarrow> u32 \<Rightarrow> bool" where
  "present s i \<longleftrightarrow> dir_entry s i AND 1 \<noteq> 0"

text \<open>The page table entry the tables hold for an address, 0 where there is no page table.\<close>

definition page_entry :: "'a paging_st_scheme \<Rightarrow> u32 \<Rightarrow> u32" where
  "page_entry s va =
     (if present s (dir_index va) then heap_word s (elem (tab_entry s (dir_index va)) (table_index va)) else 0)"

text \<open>
  The invariant: both directories are pages of the heap, every present slot names a page table
  of its own, the physical address in the one and the virtual address in the other.
\<close>

definition slot_ok :: "'a paging_st_scheme \<Rightarrow> u32 \<Rightarrow> bool" where
  "slot_ok s i \<longleftrightarrow> page_in s (tab_entry s i) \<and> tab_entry s i \<noteq> pageDirectory s
     \<and> tab_entry s i \<noteq> ptPhysToVirt s \<and> dir_entry s i = kphys (tab_entry s i) OR 3"

definition tables_ok :: "'a paging_st_scheme \<Rightarrow> bool" where
  "tables_ok s \<longleftrightarrow> boot_mapped s \<and> arena_ok s \<and> 0xC0000000 \<le> initialBase s
     \<and> page_in s (pageDirectory s) \<and> page_in s (ptPhysToVirt s) \<and> pageDirectory s \<noteq> ptPhysToVirt s
     \<and> (\<forall>i<1024. present s i \<longrightarrow> slot_ok s i)
     \<and> (\<forall>i<1024. \<forall>j<1024. present s i \<and> present s j \<and> tab_entry s i = tab_entry s j \<longrightarrow> i = j)"

text \<open>The part of the invariant that speaks of the tables only.\<close>

definition tables_shape :: "'a paging_st_scheme \<Rightarrow> bool" where
  "tables_shape s \<longleftrightarrow> 0xC0000000 \<le> initialBase s
     \<and> page_in s (pageDirectory s) \<and> page_in s (ptPhysToVirt s) \<and> pageDirectory s \<noteq> ptPhysToVirt s
     \<and> (\<forall>i<1024. present s i \<longrightarrow> slot_ok s i)
     \<and> (\<forall>i<1024. \<forall>j<1024. present s i \<and> present s j \<and> tab_entry s i = tab_entry s j \<longrightarrow> i = j)"

lemma tables_ok_shape: "tables_ok s \<longleftrightarrow> boot_mapped s \<and> arena_ok s \<and> tables_shape s"
  by (simp add: tables_ok_def tables_shape_def)

text \<open>What an operation on the tables may change of the state.\<close>

definition tables_frame :: "'a paging_st_scheme \<Rightarrow> 'a paging_st_scheme \<Rightarrow> bool" where
  "tables_frame s s' \<longleftrightarrow> (\<exists>m c b. s' = s\<lparr>mem := m, con := c, currentBase := b\<rparr>
     \<and> (\<forall>x. x \<notin> kphys ` {a. initialBase s \<le> a \<and> a < b} \<longrightarrow> m x = mem s x) \<and> currentBase s \<le> b \<and> b \<le> maxBase s)"

lemma tables_frame_fields:
  assumes "tables_frame s s'"
  shows "cr0 s' = cr0 s" "cr3 s' = cr3 s" "initialBase s' = initialBase s" "maxBase s' = maxBase s"
    "initialized s' = initialized s" "pageDirectory s' = pageDirectory s" "ptPhysToVirt s' = ptPhysToVirt s"
    "kernelPagingEnabled s' = kernelPagingEnabled s" "heap s' = heap s"
    "currentBase s \<le> currentBase s'" "currentBase s' \<le> maxBase s"
    "\<And>x. x \<notin> kphys ` heap s \<Longrightarrow> mem s' x = mem s x"
    "\<And>x. x \<notin> kphys ` allocated s' \<Longrightarrow> mem s' x = mem s x"
proof -
  obtain m c b where t: "s' = s\<lparr>mem := m, con := c, currentBase := b\<rparr>"
    "\<And>x. x \<notin> kphys ` {a. initialBase s \<le> a \<and> a < b} \<Longrightarrow> m x = mem s x" "currentBase s \<le> b" "b \<le> maxBase s"
    using assms unfolding tables_frame_def by blast
  then show "cr0 s' = cr0 s" "cr3 s' = cr3 s" "initialBase s' = initialBase s" "maxBase s' = maxBase s"
    "initialized s' = initialized s" "pageDirectory s' = pageDirectory s" "ptPhysToVirt s' = ptPhysToVirt s"
    "kernelPagingEnabled s' = kernelPagingEnabled s" "heap s' = heap s"
    "currentBase s \<le> currentBase s'" "currentBase s' \<le> maxBase s"
    by (simp_all add: heap_def)
  show "mem s' x = mem s x" if "x \<notin> kphys ` allocated s'" for x
    using t(2) [of x] that by (simp add: t(1) allocated_def)
  have "{a. initialBase s \<le> a \<and> a < b} \<subseteq> heap s" using t(4) by (auto simp: heap_def)
  then show "mem s' x = mem s x" if "x \<notin> kphys ` heap s" for x
    using t(2) [of x] that by (auto simp: t(1))
qed

lemma tables_frameI:
  assumes "s' = s\<lparr>mem := m, con := c, currentBase := b\<rparr>" "currentBase s \<le> b" "b \<le> maxBase s"
    and "\<And>x. x \<notin> kphys ` allocated s' \<Longrightarrow> m x = mem s x"
  shows "tables_frame s s'"
  using assms unfolding tables_frame_def by (auto simp: allocated_def)

lemma tables_frame_trans:
  assumes "tables_frame s t" "tables_frame t u"
  shows "tables_frame s u"
proof -
  obtain m c b where t: "t = s\<lparr>mem := m, con := c, currentBase := b\<rparr>" using assms(1) by (auto simp: tables_frame_def)
  obtain m' c' b' where u: "u = t\<lparr>mem := m', con := c', currentBase := b'\<rparr>"
    using assms(2) by (auto simp: tables_frame_def)
  note ft = tables_frame_fields [OF assms(1)] and fu = tables_frame_fields [OF assms(2)]
  show ?thesis
  proof (rule tables_frameI)
    show "u = s\<lparr>mem := m', con := c', currentBase := b'\<rparr>" using t u by simp
    show "currentBase s \<le> b'" "b' \<le> maxBase s" using ft(4,10) fu(10,11) u by simp_all
    fix x
    assume x: "x \<notin> kphys ` allocated u"
    have "allocated t \<subseteq> allocated u" using fu(3,10) by (auto simp: allocated_def)
    then have "x \<notin> kphys ` allocated t" using x by blast
    then show "m' x = mem s x" using ft(13) fu(13) [OF x] u by simp
  qed
qed

lemma tables_frame_base:
  assumes "tables_ok s" "tables_frame s s'"
  shows "boot_mapped s'" "arena_ok s'" "\<And>p. page_in s p \<Longrightarrow> page_in s' p"
proof -
  note fr = tables_frame_fields [OF assms(2)]
  have ok: "boot_mapped s" "arena_ok s" using assms(1) by (simp_all add: tables_ok_def)
  show "boot_mapped s'" by (rule boot_mapped_frame [OF ok(1) fr(1,2,9,8,12)])
  show "arena_ok s'" using ok(2) fr(3,4,5,10,11) by (auto simp: arena_ok_def)
  show "page_in s' p" if "page_in s p" for p
    using that fr(3,10) by (auto simp: page_in_def word_le_nat_alt)
qed

text \<open>The invariant survives when slots keep their words, except for one new slot with a fresh table.\<close>

lemma tables_ok_step:
  assumes "tables_ok s" "tables_frame s s'" "i < 1024"
    and same: "\<And>j. j < 1024 \<Longrightarrow> j \<noteq> i \<Longrightarrow> dir_entry s' j = dir_entry s j \<and> tab_entry s' j = tab_entry s j"
    and new: "dir_entry s' i = dir_entry s i \<and> tab_entry s' i = tab_entry s i
      \<or> slot_ok s' i \<and> (\<forall>j<1024. present s j \<longrightarrow> tab_entry s j \<noteq> tab_entry s' i)"
  shows "tables_ok s'"
proof -
  note fr = tables_frame_fields [OF assms(2)] and base = tables_frame_base [OF assms(1,2)]
  have ok: "page_in s (pageDirectory s)" "page_in s (ptPhysToVirt s)" "pageDirectory s \<noteq> ptPhysToVirt s"
      "0xC0000000 \<le> initialBase s" "\<And>i. i < 1024 \<Longrightarrow> present s i \<Longrightarrow> slot_ok s i"
      "\<And>i j. i < 1024 \<Longrightarrow> j < 1024 \<Longrightarrow> present s i \<Longrightarrow> present s j \<Longrightarrow> tab_entry s i = tab_entry s j \<Longrightarrow> i = j"
    using assms(1) unfolding tables_ok_def by blast+
  have old: "slot_ok s' j"
    if "j < 1024" "present s' j" "dir_entry s' j = dir_entry s j" "tab_entry s' j = tab_entry s j" for j
    using ok(5) [OF that(1)] that base(3) fr(6,7) by (simp add: slot_ok_def present_def)
  have slots: "slot_ok s' j" if "j < 1024" "present s' j" for j
    using old [OF that] same [OF that(1)] new by (cases "j = i") auto
  have dist: "j = k" if "j < 1024" "k < 1024" "present s' j" "present s' k" "tab_entry s' j = tab_entry s' k" for j k
    using that same new ok(6) unfolding present_def by metis
  show ?thesis
    unfolding tables_ok_def using base ok(1-4) fr(3,6,7) slots dist by auto
qed

section \<open>Creating a page table\<close>

lemma kphys_page_aligned:
  assumes "0xC0000000 \<le> p" "page_aligned p"
  shows "page_aligned (kphys p)"
proof -
  obtain k where k: "unat p = 4096 * k" using assms(2) unfolding page_aligned_def by auto
  have "unat (kphys p) = unat p - 3221225472" using assms(1) by (simp add: kphys_def unat_sub_le)
  also have "\<dots> = 4096 * (k - 786432)" unfolding k by (simp add: diff_mult_distrib2)
  finally show ?thesis by (simp add: page_aligned_def)
qed

lemma created_prints:
  "prints_only (k_printfln (Some ''page_map: table %u created at %p (%p)'') [VInt a, VInt b, VInt d])"
  by (rule prints_only_printfln [where ks = "[KInt, KInt, KInt]"]) (simp_all add: conv_kinds_def)

text \<open>The table that the allocator returns next.\<close>

definition next_table :: "'a alloc_st_scheme \<Rightarrow> u32" where
  "next_table s = page_up (currentBase s)"

lemma next_table_fresh:
  assumes "arena_ok s" "unat (next_table s) + 4096 \<le> unat (maxBase s)"
  shows "page_aligned (next_table s)" "currentBase s \<le> next_table s"
    "unat (next_table s + 4096) = unat (next_table s) + 4096" "next_table s + 4096 \<le> maxBase s"
    "block (next_table s) 4096 \<subseteq> heap s"
    "kmalloc_early_align 4096 s = Inr (next_table s, s\<lparr>currentBase := next_table s + 4096\<rparr>)"
proof -
  let ?T = "next_table s"
  have cb: "unat (currentBase s) \<le> 4294963200" "unat (initialBase s) \<le> unat (currentBase s)"
    using assms(1) by (auto simp: arena_ok_def word_le_nat_alt)
  show T: "page_aligned ?T" "currentBase s \<le> ?T"
    using page_up_bounds [OF cb(1)] by (simp_all add: next_table_def page_aligned_def word_le_nat_alt)
  have "unat ?T + 4096 < 4294967296" using assms(2) u32_less [of "maxBase s"] by linarith
  then show sum: "unat (?T + 4096) = unat ?T + 4096" using unat_add_small [of ?T 4096] by simp
  with assms(2) show "?T + 4096 \<le> maxBase s" by (simp add: word_le_nat_alt)
  show "kmalloc_early_align 4096 s = Inr (?T, s\<lparr>currentBase := ?T + 4096\<rparr>)"
    and *: "block ?T 4096 \<subseteq> heap s"
  proof -
    let ?s = "s\<lparr>currentBase := ?T + 4096\<rparr>"
    show "kmalloc_early_align 4096 s = Inr (?T, ?s)"
      using kmalloc_early_align_run(1) [OF assms(1), of 4096] assms(2) by (simp add: next_table_def)
    have "page_in ?s ?T" using T cb sum by (simp add: page_in_def word_le_nat_alt)
    moreover have "arena_ok ?s"
      using kmalloc_early_align_run(2) [OF assms(1), of 4096] assms(2) by (simp add: next_table_def)
    ultimately show "block ?T 4096 \<subseteq> heap s" using page_in_heap [of ?s ?T] by (simp add: heap_def)
  qed
qed

text \<open>Clearing it and translating its address.\<close>

lemma clear_page_run:
  assumes "boot_mapped s" "block p 4096 \<subseteq> heap s" "page_aligned p" "0xC0000000 \<le> initialBase s"
  defines "s' \<equiv> filled (kphys ` block p 4096) 0 s"
  shows "memset p 0 4096 s = Inr (p, s')" "boot_mapped s'" "heap s' = heap s"
    "virt_to_phys p s = Inr (kphys p, s)" "virt_to_phys p s' = Inr (kphys p, s')"
proof -
  show "memset p 0 4096 s = Inr (p, s')"
    using vm.memset_region(1) [of "heap s" kphys s p 4096 0] assms(1,2) by (simp add: boot_mapped_def s'_def)
  show h: "heap s' = heap s" by (simp add: s'_def heap_def filled_def)
  show b: "boot_mapped s'"
    by (rule boot_mapped_frame [OF assms(1)]) (use h assms(2) in \<open>auto simp: s'_def filled_def\<close>)
  have "p \<in> heap s" using assms(2) block_mem [of 0 4096 p] by auto
  moreover from this have "0xC0000000 \<le> p" using assms(4) by (auto simp: heap_def)
  then have "kphys p AND 0xFFFFF000 = kphys p"
    using assms(3) by (simp add: kphys_page_aligned page_aligned_mask)
  ultimately show "virt_to_phys p s = Inr (kphys p, s)" "virt_to_phys p s' = Inr (kphys p, s')"
    using virt_to_phys_boot [OF assms(1)] virt_to_phys_boot [OF b] h by simp_all
qed

text \<open>The two stores that enter it into the directories, with the message between them.\<close>

definition enter_table :: "u32 \<Rightarrow> u32 \<Rightarrow> console \<Rightarrow> 'a paging_st_scheme \<Rightarrow> 'a paging_st_scheme" where
  "enter_table i T c s =
     poke ((poke s (elem (pageDirectory s) i) (kphys T OR 3))\<lparr>con := c\<rparr>) (elem (ptPhysToVirt s) i) T"

lemma enter_table_run:
  assumes "boot_mapped s" "block (pageDirectory s) 4096 \<subseteq> heap s" "block (ptPhysToVirt s) 4096 \<subseteq> heap s"
    and "page_aligned (pageDirectory s)" "page_aligned (ptPhysToVirt s)" "i < 1024"
  shows "\<exists>c. kbind (kgets pageDirectory) (\<lambda>pd.
      kthen (store32 (elem pd i) (kphys T OR 3))
     (kbind (load32 (elem pd i)) (\<lambda>e.
      kthen (k_printfln (Some ''page_map: table %u created at %p (%p)'') [VInt i, VInt T, VInt e])
     (kbind (kgets ptPhysToVirt) (\<lambda>pv. store32 (elem pv i) T))))) s = Inr ((), enter_table i T c s)"
proof -
  let ?s3 = "poke s (elem (pageDirectory s) i) (kphys T OR 3)"
  have b3: "boot_mapped ?s3" by (rule boot_mapped_poke [OF assms(1,2,4,6)])
  obtain c where pr: "k_printfln (Some ''page_map: table %u created at %p (%p)'')
      [VInt i, VInt T, VInt (kphys T OR 3)] ?s3 = Inr ((), ?s3\<lparr>con := c\<rparr>)"
    by (rule prints_onlyE [OF created_prints])
  have "boot_mapped (?s3\<lparr>con := c\<rparr>)" by (rule boot_mapped_frame [OF b3]) (simp_all add: heap_def)
  from store_elem [OF this, of "ptPhysToVirt s" i T]
  have "store32 (elem (ptPhysToVirt s) i) T (?s3\<lparr>con := c\<rparr>) = Inr ((), enter_table i T c s)"
    using assms(3,5,6) by (simp add: enter_table_def heap_def)
  with pr store_elem [OF assms(1,2,4,6)] load_elem [OF b3, of "pageDirectory s" i] assms(2,4,6)
  show ?thesis by auto
qed

lemma enter_table_frame:
  assumes "block (pageDirectory s) 4096 \<subseteq> D" "block (ptPhysToVirt s) 4096 \<subseteq> D"
    and "page_aligned (pageDirectory s)" "page_aligned (ptPhysToVirt s)" "i < 1024" "x \<notin> kphys ` D"
  shows "mem (enter_table i T c s) x = mem s x"
proof -
  let ?t = "(poke s (elem (pageDirectory s) i) (kphys T OR 3))\<lparr>con := c\<rparr>"
  have "mem (enter_table i T c s) x = mem ?t x"
    unfolding enter_table_def using kphys_heap_frame [of "ptPhysToVirt s" D i x ?t T] assms by simp
  also have "\<dots> = mem s x" using kphys_heap_frame [OF assms(1,3,5,6)] by simp
  finally show ?thesis .
qed

lemma enter_table_word:
  assumes "page_aligned (pageDirectory s)" "page_aligned (ptPhysToVirt s)" "i < 1024" "page_aligned p" "j < 1024"
  shows "heap_word (enter_table i T c s) (elem p j) =
    (if p = ptPhysToVirt s \<and> j = i then T else if p = pageDirectory s \<and> j = i then kphys T OR 3
     else heap_word s (elem p j))"
  using assms by (simp add: enter_table_def heap_word_poke)

lemma page_map_create_run:
  assumes ok: "tables_ok s" and i: "i < 1024" and room: "unat (next_table s) + 4096 \<le> unat (maxBase s)"
  shows "\<exists>s'. page_map_create i s = Inr ((), s') \<and> tables_frame s s'
    \<and> currentBase s' = next_table s + 4096
    \<and> (\<forall>p j. page_aligned p \<and> j < 1024 \<longrightarrow> heap_word s' (elem p j) =
         (if p = ptPhysToVirt s \<and> j = i then next_table s
          else if p = pageDirectory s \<and> j = i then kphys (next_table s) OR 3
          else if p = next_table s then 0 else heap_word s (elem p j)))"
proof -
  let ?T = "next_table s" and ?PD = "pageDirectory s" and ?PV = "ptPhysToVirt s"
  have base: "boot_mapped s" "arena_ok s" "page_in s ?PD" "page_in s ?PV" "0xC0000000 \<le> initialBase s"
    using ok by (simp_all add: tables_ok_def)
  have al: "page_aligned ?PD" "page_aligned ?PV" using base(3,4) by (simp_all add: page_in_def)
  have inh: "block ?PD 4096 \<subseteq> heap s" "block ?PV 4096 \<subseteq> heap s" using page_in_heap base(2-4) by blast+
  note T = next_table_fresh [OF base(2) room]
  define s1 where "s1 = s\<lparr>currentBase := ?T + 4096\<rparr>"
  define s2 where "s2 = filled (kphys ` block ?T 4096) 0 s1"
  have hp: "heap s1 = heap s" "heap s2 = heap s" by (simp_all add: heap_def s1_def s2_def filled_def)
  have b1: "boot_mapped s1" by (rule boot_mapped_frame [OF base(1)]) (simp_all add: s1_def heap_def)
  note clr = clear_page_run [of s1 ?T, folded s2_def]
  have c: "memset ?T 0 4096 s1 = Inr (?T, s2)" "boot_mapped s2" "virt_to_phys ?T s2 = Inr (kphys ?T, s2)"
    using clr b1 T(1,5) hp(1) base(5) by (simp_all add: s1_def)
  have f2: "pageDirectory s2 = ?PD" "ptPhysToVirt s2 = ?PV" by (simp_all add: s2_def s1_def filled_def)
  obtain c where c': "page_map_create i s = Inr ((), enter_table i ?T c s2)"
    using enter_table_run [OF c(2), of i ?T] c T(6) hp(2) f2 inh al i
    by (auto simp: page_map_create_def PAGE_TABLE_SIZE_def PAGE_ENTRIES_def PAGE_ENTRY_PRESENT_def
        PAGE_ENTRY_RW_def simp flip: s1_def)
  let ?s5 = "enter_table i ?T c s2"
  have "?s5 = s\<lparr>mem := mem ?s5, con := c, currentBase := ?T + 4096\<rparr>"
    by (simp add: enter_table_def s2_def s1_def poke_def filled_def)
  moreover have cb: "currentBase s \<le> ?T + 4096" using T(2,3) by (simp add: word_le_nat_alt)
  moreover have "mem ?s5 x = mem s x" if "x \<notin> kphys ` allocated ?s5" for x
  proof -
    have a5: "allocated ?s5 = allocated s1" by (simp add: allocated_def enter_table_def s2_def s1_def filled_def)
    have "allocated s \<subseteq> allocated s1" using cb by (auto simp: allocated_def s1_def)
    then have in1: "block ?PD 4096 \<subseteq> allocated s1" "block ?PV 4096 \<subseteq> allocated s1"
      using page_in_allocated base(3,4) by blast+
    have "page_in s1 ?T" using T(1-3) base(2) by (auto simp: page_in_def arena_ok_def s1_def word_le_nat_alt)
    then have inT: "block ?T 4096 \<subseteq> allocated s1" by (rule page_in_allocated)
    have "mem ?s5 x = mem s2 x" by (rule enter_table_frame [where D = "allocated s1"]) (use f2 in1 al i that a5 in simp_all)
    then show ?thesis using that inT a5 by (auto simp: s2_def s1_def filled_def)
  qed
  ultimately have "tables_frame s ?s5" using T(4) by (intro tables_frameI)
  moreover have "currentBase ?s5 = ?T + 4096" by (simp add: enter_table_def s2_def s1_def filled_def)
  moreover have "heap_word ?s5 (elem p j) =
       (if p = ?PV \<and> j = i then ?T else if p = ?PD \<and> j = i then kphys ?T OR 3
        else if p = ?T then 0 else heap_word s (elem p j))" if "page_aligned p" "j < 1024" for p j
    using enter_table_word [of s2 i p j ?T c] f2 al i that T(1)
    by (auto simp: s2_def s1_def heap_word_clear)
  ultimately show ?thesis using c' by blast
qed

lemma or_3_present: "(x OR 3) AND 1 \<noteq> (0 :: u32)"
proof -
  have "odd (x OR 3)" by (simp add: even_or_iff)
  then show ?thesis by (simp add: and_one_eq odd_iff_mod_2_eq_one)
qed

lemma page_in_below_next:
  assumes "arena_ok s" "unat (next_table s) + 4096 \<le> unat (maxBase s)" "page_in s p"
  shows "p \<noteq> next_table s"
  using next_table_fresh(2) [OF assms(1,2)] assms(3) by (auto simp: page_in_def word_le_nat_alt)

lemma page_map_create_ok:
  assumes ok: "tables_ok s" and i: "i < 1024" and abs: "\<not> present s i"
    and room: "unat (next_table s) + 4096 \<le> unat (maxBase s)"
  shows "\<exists>s'. page_map_create i s = Inr ((), s') \<and> tables_frame s s' \<and> tables_ok s'
    \<and> currentBase s' = next_table s + 4096 \<and> (\<forall>va. page_entry s' va = page_entry s va)
    \<and> (\<forall>j<1024. present s' j \<longleftrightarrow> present s j \<or> j = i)"
proof -
  let ?T = "next_table s"
  have base: "arena_ok s" "page_in s (pageDirectory s)" "page_in s (ptPhysToVirt s)"
      "pageDirectory s \<noteq> ptPhysToVirt s"
    using ok by (simp_all add: tables_ok_def)
  have al: "page_aligned (pageDirectory s)" "page_aligned (ptPhysToVirt s)"
    using base(2,3) by (simp_all add: page_in_def)
  note T = next_table_fresh [OF base(1) room] and apart = page_in_below_next [OF base(1) room]
  obtain s' where s': "page_map_create i s = Inr ((), s')" "tables_frame s s'" "currentBase s' = ?T + 4096"
    and word: "\<And>p j. page_aligned p \<Longrightarrow> j < 1024 \<Longrightarrow> heap_word s' (elem p j) =
         (if p = ptPhysToVirt s \<and> j = i then ?T
          else if p = pageDirectory s \<and> j = i then kphys ?T OR 3
          else if p = ?T then 0 else heap_word s (elem p j))"
    using page_map_create_run [OF ok i room] by blast
  note fr = tables_frame_fields [OF s'(2)]
  have ent: "dir_entry s' j = (if j = i then kphys ?T OR 3 else dir_entry s j)"
    "tab_entry s' j = (if j = i then ?T else tab_entry s j)" if "j < 1024" for j
    using word al that fr(6,7) base(4) apart base(2,3) by (auto simp: dir_entry_def tab_entry_def)
  have pres: "present s' j \<longleftrightarrow> present s j \<or> j = i" if "j < 1024" for j
    using ent(1) [OF that] by (simp add: present_def or_3_present)
  have slot: "page_in s (tab_entry s j)" "tab_entry s j \<noteq> pageDirectory s" "tab_entry s j \<noteq> ptPhysToVirt s"
    if "j < 1024" "present s j" for j
    using ok that unfolding tables_ok_def slot_ok_def by blast+
  have "page_in s' ?T"
    using T(1-3) base(1) s'(3) fr(3) by (auto simp: page_in_def arena_ok_def word_le_nat_alt)
  then have "slot_ok s' i"
    using ent [OF i] apart [OF base(2)] apart [OF base(3)] fr(6,7) by (simp add: slot_ok_def)
  then have "tables_ok s'"
    using ent slot apart i by (intro tables_ok_step [OF ok s'(2) i]) auto
  moreover have "page_entry s' va = page_entry s va" for va
  proof (cases "dir_index va = i")
    case True
    then show ?thesis
      using abs pres [OF i] ent(2) [OF i] word [OF T(1), of "table_index va"]
        apart [OF base(2)] apart [OF base(3)]
      by (auto simp: page_entry_def)
  next
    case False
    then show ?thesis
      using pres [of "dir_index va"] ent(2) [of "dir_index va"] slot [of "dir_index va"] apart
        word [of "tab_entry s (dir_index va)" "table_index va"]
      by (auto simp: page_entry_def page_in_def)
  qed
  ultimately show ?thesis using s' pres by blast
qed

section \<open>Mapping a page\<close>

definition map_entry :: "u32 \<Rightarrow> u32 \<Rightarrow> u32 \<Rightarrow> 'a paging_st_scheme \<Rightarrow> 'a paging_st_scheme" where
  "map_entry virt phys perm s =
     poke s (elem (tab_entry s (dir_index virt)) (table_index virt)) (pte_update phys perm (page_entry s virt))"

lemma page_map_pte_ok:
  assumes ok: "tables_ok s" and i: "present s (dir_index virt)" and s': "s' = map_entry virt phys perm s"
  shows "page_map_pte (tab_entry s (dir_index virt)) (table_index virt) phys perm s = Inr ((), s')"
    "tables_frame s s'" "tables_ok s'" "\<And>j. j < 1024 \<Longrightarrow> present s' j = present s j"
    "tab_entry s' (dir_index virt) = tab_entry s (dir_index virt)"
    "\<And>va. page_entry s' va =
       (if unat va div 4096 = unat virt div 4096 then pte_update phys perm (page_entry s virt) else page_entry s va)"
proof -
  let ?T = "tab_entry s (dir_index virt)"
  have base: "boot_mapped s" "arena_ok s" "page_in s (pageDirectory s)" "page_in s (ptPhysToVirt s)"
      "0xC0000000 \<le> initialBase s"
    using ok by (simp_all add: tables_ok_def)
  have slot: "page_in s (tab_entry s j)" "tab_entry s j \<noteq> pageDirectory s" "tab_entry s j \<noteq> ptPhysToVirt s"
    if "j < 1024" "present s j" for j
    using ok that unfolding tables_ok_def slot_ok_def by blast+
  note T = slot [OF index_less(1) i]
  have al: "page_aligned (pageDirectory s)" "page_aligned (ptPhysToVirt s)" "page_aligned ?T"
    using base(3,4) T(1) by (simp_all add: page_in_def)
  have inh: "block ?T 4096 \<subseteq> heap s" using page_in_heap [OF base(2) T(1)] .
  have "?T \<noteq> 0" using T(1) base(5) by (auto simp: page_in_def)
  then show "page_map_pte ?T (table_index virt) phys perm s = Inr ((), s')"
    using page_map_pte_run [OF base(1) inh al(3) index_less(2)] i by (simp add: s' map_entry_def page_entry_def)
  have "s' = s\<lparr>mem := mem s', con := con s, currentBase := currentBase s\<rparr>" by (simp add: s' map_entry_def poke_def)
  moreover have "mem s' x = mem s x" if "x \<notin> kphys ` allocated s'" for x
  proof -
    have "x \<notin> kphys ` allocated s" using that by (simp add: s' map_entry_def allocated_def)
    then show ?thesis unfolding s' map_entry_def by (rule kphys_heap_frame [OF page_in_allocated [OF T(1)] al(3) index_less(2)])
  qed
  ultimately show fr: "tables_frame s s'"
    using base(2) by (elim tables_frameI) (auto simp: arena_ok_def)
  have word: "heap_word s' (elem p j) = (if ?T = p \<and> table_index virt = j
      then pte_update phys perm (page_entry s virt) else heap_word s (elem p j))" if "page_aligned p" "j < 1024" for p j
    unfolding s' map_entry_def by (rule heap_word_poke [OF al(3) index_less(2) that])
  have ent: "dir_entry s' j = dir_entry s j" "tab_entry s' j = tab_entry s j" if "j < 1024" for j
    using word [OF al(1) that] word [OF al(2) that] T(2,3) by (simp_all add: dir_entry_def tab_entry_def s' map_entry_def)
  then show pres: "present s' j = present s j" if "j < 1024" for j using that by (simp add: present_def)
  show "tab_entry s' (dir_index virt) = tab_entry s (dir_index virt)" using ent(2) by simp
  show "tables_ok s'" using ent by (intro tables_ok_step [OF ok fr index_less(1)]) auto
  fix va
  show "page_entry s' va = (if unat va div 4096 = unat virt div 4096
      then pte_update phys perm (page_entry s virt) else page_entry s va)"
  proof (cases "present s (dir_index va)")
    case True
    then have "?T = tab_entry s (dir_index va) \<longleftrightarrow> dir_index virt = dir_index va"
      using ok i unfolding tables_ok_def by (metis index_less(1))
    moreover have "page_aligned (tab_entry s (dir_index va))" using slot True by (simp add: page_in_def)
    ultimately show ?thesis
      using True pres [of "dir_index va"] ent(2) [of "dir_index va"] word [of "tab_entry s (dir_index va)" "table_index va"]
        same_indices_iff [of virt va]
      by (auto simp: page_entry_def)
  next
    case False
    then have "dir_index va \<noteq> dir_index virt" using i by auto
    then have "unat va div 4096 \<noteq> unat virt div 4096" using same_indices_iff [of va virt] by auto
    with False pres [of "dir_index va"] show ?thesis by (simp add: page_entry_def)
  qed
qed

text \<open>Room for the page table that mapping a page may need.\<close>

definition room_for :: "'a paging_st_scheme \<Rightarrow> u32 \<Rightarrow> bool" where
  "room_for s virt \<longleftrightarrow> present s (dir_index virt) \<or> unat (next_table s) + 4096 \<le> unat (maxBase s)"

lemma ensure_table:
  assumes ok: "tables_ok s" and room: "room_for s virt"
  defines "i \<equiv> dir_index virt"
  shows "\<exists>s'. (if dir_entry s i AND PAGE_ENTRY_PRESENT = 0 then page_map_create i else kreturn ()) s = Inr ((), s')
    \<and> tables_frame s s' \<and> tables_ok s' \<and> (\<forall>va. page_entry s' va = page_entry s va)
    \<and> (\<forall>j<1024. present s' j \<longleftrightarrow> present s j \<or> j = i)
    \<and> currentBase s' = (if present s i then currentBase s else next_table s + 4096)"
proof (cases "present s i")
  case True
  have "tables_frame s s"
    unfolding tables_frame_def using ok
    by (intro exI [of _ "mem s"] exI [of _ "con s"] exI [of _ "currentBase s"])
       (simp add: tables_ok_def arena_ok_def)
  moreover have "\<forall>j<1024. present s j \<longleftrightarrow> present s j \<or> j = i" using True by blast
  ultimately show ?thesis
    using True ok by (intro exI [of _ s]) (simp add: present_def PAGE_ENTRY_PRESENT_def)
next
  case False
  with page_map_create_ok [OF ok _ False] room show ?thesis
    by (auto simp: room_for_def present_def PAGE_ENTRY_PRESENT_def i_def)
qed

lemma tables_loads:
  assumes "tables_ok s" "i < 1024"
  shows "load32 (elem (pageDirectory s) i) s = Inr (dir_entry s i, s)"
    "load32 (elem (ptPhysToVirt s) i) s = Inr (tab_entry s i, s)"
  using assms page_in_heap [of s]
  by (auto simp: tables_ok_def page_in_def dir_entry_def tab_entry_def intro!: load_elem)

lemma page_map_ok:
  assumes ok: "tables_ok s" and al: "page_aligned virt" "page_aligned phys" and room: "room_for s virt"
  shows "\<exists>s'. page_map virt phys perm s = Inr (elem (tab_entry s' (dir_index virt)) (table_index virt), s')
    \<and> tables_frame s s' \<and> tables_ok s'
    \<and> (\<forall>va. page_entry s' va =
         (if unat va div 4096 = unat virt div 4096 then pte_update phys perm (page_entry s virt) else page_entry s va))
    \<and> (\<forall>j<1024. present s' j \<longleftrightarrow> present s j \<or> j = dir_index virt)
    \<and> currentBase s' = (if present s (dir_index virt) then currentBase s else next_table s + 4096)"
proof -
  let ?i = "dir_index virt" and ?j = "table_index virt"
  obtain s1 where s1:
      "(if dir_entry s ?i AND PAGE_ENTRY_PRESENT = 0 then page_map_create ?i else kreturn ()) s = Inr ((), s1)"
      "tables_frame s s1" "tables_ok s1"
      "\<forall>va. page_entry s1 va = page_entry s va" "\<forall>j<1024. present s1 j \<longleftrightarrow> present s j \<or> j = ?i"
      "currentBase s1 = (if present s ?i then currentBase s else next_table s + 4096)"
    using ensure_table [OF ok room] by blast
  note fr = tables_frame_fields [OF s1(2)]
  have pres: "present s1 ?i" using s1(5) by simp
  define s2 where "s2 = map_entry virt phys perm s1"
  note pte = page_map_pte_ok [OF s1(3) pres s2_def]
  have same: "currentBase s2 = currentBase s1" by (simp add: s2_def map_entry_def)
  have pd: "pageDirectory s \<noteq> 0" using ok by (auto simp: tables_ok_def page_in_def)
  have "virt AND NOT_ALIGNED = 0" "phys AND NOT_ALIGNED = 0"
    using al by (simp_all add: NOT_ALIGNED_def NOT_PAGE_ALIGN offset_zero_iff page_aligned_def)
  then have "page_map virt phys perm s = Inr (elem (tab_entry s1 ?i) ?j, s2)"
    using pd tables_loads [OF ok, of ?i] tables_loads [OF s1(3), of ?i] s1(1) pte(1) fr(6,7)
    by (simp add: page_map_def Let_def split del: if_split)
  then show ?thesis
    using tables_frame_trans [OF s1(2) pte(2)] pte(3-6) s1(4-6) pres same
    by (intro exI [of _ s2]) (auto simp: pte(4))
qed

section \<open>What the processor sees in the new tables\<close>

lemma masked_or_3:
  assumes "page_aligned p"
  shows "(p OR 3) AND 0xFFFFF000 = p"
proof -
  have "(p OR 3) AND 0xFFFFF000 = (p AND 0xFFFFF000) OR (3 AND 0xFFFFF000)"
    by (rule bit.conj_disj_distrib2)
  then show ?thesis using page_aligned_mask [OF assms] by simp
qed

lemma shape_walk:
  assumes ok: "tables_shape s" and s': "mem s' = mem s" "cr3 s' = kphys (pageDirectory s)" "paging_on s'"
  shows "mmu_walk s' va =
    (if page_entry s va AND 1 = 0 then None
     else Some ((page_entry s va AND 0xFFFFF000) OR (va AND 0xFFF)))"
proof -
  let ?i = "dir_index va" and ?j = "table_index va"
  have lo: "0xC0000000 \<le> initialBase s" and pd: "page_in s (pageDirectory s)"
    using ok by (simp_all add: tables_shape_def)
  have kal: "page_aligned (kphys p)" if "page_in s p" for p
    using that lo by (intro kphys_page_aligned) (auto simp: page_in_def)
  have elem: "elem (kphys p) k = kphys (elem p k)" for p k by (simp add: elem_def kphys_plus)
  have pde: "get32 (mem s') (pde_addr (cr3 s') va) = dir_entry s ?i"
    using s' kal [OF pd] by (simp add: pde_addr_elem elem dir_entry_def heap_word_def)
  show ?thesis
  proof (cases "present s ?i")
    case True
    then have slot: "page_in s (tab_entry s ?i)" "dir_entry s ?i = kphys (tab_entry s ?i) OR 3"
      using ok index_less(1) [of va] unfolding tables_shape_def slot_ok_def by blast+
    have "get32 (mem s') (pte_addr (dir_entry s ?i) va) = page_entry s va"
      unfolding pte_addr_elem slot(2) masked_or_3 [OF kal [OF slot(1)]]
      using True s'(1) by (simp add: elem page_entry_def heap_word_def)
    with True pde s'(3) show ?thesis by (simp add: mmu_walk_def Let_def present_def)
  next
    case False
    with pde s'(3) show ?thesis by (simp add: mmu_walk_def Let_def present_def page_entry_def)
  qed
qed

lemma walk_new_tables:
  assumes "tables_ok s" "mem s' = mem s" "cr3 s' = kphys (pageDirectory s)" "paging_on s'"
  shows "mmu_walk s' va =
    (if page_entry s va AND 1 = 0 then None
     else Some ((page_entry s va AND 0xFFFFF000) OR (va AND 0xFFF)))"
  using shape_walk [OF _ assms(2-4)] assms(1) by (simp add: tables_ok_shape)

section \<open>Mapping ranges\<close>

text \<open>Room below \<open>L\<close> for the page tables of the directory slots \<open>R\<close>.\<close>

definition budget :: "nat \<Rightarrow> 'a paging_st_scheme \<Rightarrow> u32 set \<Rightarrow> bool" where
  "budget L s R \<longleftrightarrow> finite R \<and> unat (next_table s) + 4096 * card {i\<in>R. \<not> present s i} \<le> L \<and> L \<le> unat (maxBase s)"

lemma page_up_aligned: "page_aligned a \<Longrightarrow> page_up a = a"
  by (simp add: page_up_def NOT_PAGE_ALIGN offset_zero_iff page_aligned_def)

lemma page_aligned_plus:
  assumes "page_aligned p" "unat (p + 4096) = unat p + 4096"
  shows "page_aligned (p + 4096)"
  using assms unfolding page_aligned_def by (simp only: mod_add_self2)

lemma budget_room:
  assumes "budget L s R" "dir_index virt \<in> R"
  shows "room_for s virt"
proof (cases "present s (dir_index virt)")
  case False
  with assms have "{i \<in> R. \<not> present s i} \<noteq> {}" by blast
  with assms(1) have "1 \<le> card {i \<in> R. \<not> present s i}" by (simp add: budget_def Suc_le_eq card_gt_0_iff)
  with assms(1) show ?thesis unfolding budget_def room_for_def by linarith
qed (simp add: room_for_def)

lemma budget_used:
  assumes "tables_ok s" "budget L s R"
  shows "unat (currentBase s) \<le> L"
proof -
  have "unat (currentBase s) \<le> 4294963200" using assms(1) by (auto simp: tables_ok_def arena_ok_def word_le_nat_alt)
  then have "unat (currentBase s) \<le> unat (next_table s)" using page_up_bounds(1) by (simp add: next_table_def)
  then show ?thesis using assms(2) by (simp add: budget_def)
qed

lemma budget_step:
  assumes "tables_ok s" "budget L s R" "dir_index virt \<in> R" "R \<subseteq> {..<1024}" "tables_frame s s'"
    and pres: "\<forall>j<1024. present s' j \<longleftrightarrow> present s j \<or> j = dir_index virt"
    and cb: "currentBase s' = (if present s (dir_index virt) then currentBase s else next_table s + 4096)"
  shows "budget L s' R"
proof (cases "present s (dir_index virt)")
  case True
  then have "{i \<in> R. \<not> present s' i} = {i \<in> R. \<not> present s i}" using pres assms(4) by blast
  with True assms(2) cb tables_frame_fields(4) [OF assms(5)] show ?thesis by (simp add: budget_def next_table_def)
next
  case False
  let ?A = "{i \<in> R. \<not> present s i}"
  have A: "{i \<in> R. \<not> present s' i} = ?A - {dir_index virt}" using pres assms(4) by auto
  have room: "unat (next_table s) + 4096 \<le> unat (maxBase s)"
    using budget_room [OF assms(2,3)] False by (simp add: room_for_def)
  have "arena_ok s" using assms(1) by (simp add: tables_ok_def)
  note T = next_table_fresh [OF this room]
  have "next_table s' = next_table s + 4096"
    using cb False page_up_aligned [OF page_aligned_plus [OF T(1,3)]] by (simp add: next_table_def)
  moreover have "card ?A = Suc (card (?A - {dir_index virt}))"
    using False assms(2,3) by (intro card.remove) (auto simp: budget_def)
  ultimately show ?thesis
    using assms(2) T(3) tables_frame_fields(4) [OF assms(5)] unfolding budget_def A by simp
qed

text \<open>\<open>built L R f s s'\<close>: from \<open>s\<close> the tables were brought to hold the entries \<open>f\<close>.\<close>

definition built :: "nat \<Rightarrow> u32 set \<Rightarrow> (u32 \<Rightarrow> u32) \<Rightarrow> 'a paging_st_scheme \<Rightarrow> 'a paging_st_scheme \<Rightarrow> bool" where
  "built L R f s s' \<longleftrightarrow> tables_frame s s' \<and> tables_ok s' \<and> budget L s' R \<and> (\<forall>va. page_entry s' va = f va)"

lemma tables_frame_refl: "tables_ok s \<Longrightarrow> tables_frame s s"
  unfolding tables_frame_def
  by (intro exI [of _ "mem s"] exI [of _ "con s"] exI [of _ "currentBase s"])
     (simp add: tables_ok_def arena_ok_def)

lemma map_step:
  assumes "tables_ok s" "budget L s R" "R \<subseteq> {..<1024}" "dir_index virt \<in> R" "page_aligned virt" "page_aligned phys"
  shows "\<exists>a s'. page_map virt phys perm s = Inr (a, s')
    \<and> built L R (\<lambda>va. if unat va div 4096 = unat virt div 4096
                   then pte_update phys perm (page_entry s va) else page_entry s va) s s'"
proof -
  have same: "page_entry s va = page_entry s virt" if "unat va div 4096 = unat virt div 4096" for va
    using that same_indices_iff [of va virt] by (simp add: page_entry_def)
  from page_map_ok [OF assms(1,5,6) budget_room [OF assms(2,4)], of perm]
  obtain s' where s': "page_map virt phys perm s = Inr (elem (tab_entry s' (dir_index virt)) (table_index virt), s')"
    "tables_frame s s'" "tables_ok s'"
    "\<forall>va. page_entry s' va =
       (if unat va div 4096 = unat virt div 4096 then pte_update phys perm (page_entry s virt) else page_entry s va)"
    "\<forall>j<1024. present s' j \<longleftrightarrow> present s j \<or> j = dir_index virt"
    "currentBase s' = (if present s (dir_index virt) then currentBase s else next_table s + 4096)"
    by blast
  have "budget L s' R" by (rule budget_step [OF assms(1,2,4,3) s'(2,5,6)])
  moreover have "page_entry s' va = (if unat va div 4096 = unat virt div 4096
      then pte_update phys perm (page_entry s va) else page_entry s va)" for va
    using s'(4) same [of va] by (cases "unat va div 4096 = unat virt div 4096") simp_all
  ultimately show ?thesis using s'(1-3) unfolding built_def by blast
qed

lemma same_page_iff:
  assumes "page_aligned p"
  shows "unat va div 4096 = unat p div 4096 \<longleftrightarrow> unat p \<le> unat va \<and> unat va < unat p + 4096"
proof -
  obtain k where k: "unat p = 4096 * k" using assms unfolding page_aligned_def by auto
  have "unat va div 4096 = k \<longleftrightarrow> 4096 * k \<le> unat va \<and> unat va < 4096 * k + 4096"
    by (metis add.commute div_nat_eqI mult_Suc_right div_times_less_eq_dividend dividend_less_times_div mult.commute zero_less_numeral)
  then show ?thesis by (simp add: k)
qed

lemma page_base:
  assumes "page_aligned p" "unat va div 4096 = unat p div 4096"
  shows "va AND 0xFFFFF000 = p"
  using assms page_aligned_mask [OF assms(1)] by (simp add: word_unat_eq_iff unat_and_page_mask)

lemma map_pages_ok:
  assumes "tables_ok s" "budget L s R" "R \<subseteq> {..<1024}" "page_aligned start" "page_aligned addr"
    and "unat finish = unat start + 4096 * n" "unat addr + 4096 * n < 4294967296"
    and "\<And>va. start \<le> va \<Longrightarrow> va < finish \<Longrightarrow> dir_index va \<in> R"
  shows "\<exists>s'. map_pages start finish addr perm s = Inr ((), s')
    \<and> built L R (\<lambda>va. if start \<le> va \<and> va < finish
                   then pte_update (addr + ((va AND 0xFFFFF000) - start)) perm (page_entry s va)
                   else page_entry s va) s s'"
  using assms
proof (induction n arbitrary: s start addr)
  case 0
  then have "finish = start" by (simp add: word_unat_eq_iff)
  with 0 show ?case
    by (subst map_pages.simps) (auto simp: built_def tables_frame_refl)
next
  case (Suc n)
  let ?start = "start + 4096" and ?addr = "addr + 4096"
  have st: "unat ?start = unat start + 4096"
    using Suc.prems(6) u32_less [of finish] unat_add_small [of start 4096] by simp
  have ad: "unat ?addr = unat addr + 4096"
    using Suc.prems(7) unat_add_small [of addr 4096] by simp
  have lt: "start < finish" "\<not> ?start < start"
    using Suc.prems(6) st by (simp_all add: word_less_nat_alt)
  then have "dir_index start \<in> R" using Suc.prems(8) by simp
  from map_step [OF Suc.prems(1-3) this Suc.prems(4,5), of perm]
  obtain a s1 where s1: "page_map start addr perm s = Inr (a, s1)"
    "tables_frame s s1" "tables_ok s1" "budget L s1 R"
    "\<forall>va. page_entry s1 va = (if unat va div 4096 = unat start div 4096
       then pte_update addr perm (page_entry s va) else page_entry s va)"
    unfolding built_def by blast
  have "\<exists>s'. map_pages ?start finish ?addr perm s1 = Inr ((), s')
    \<and> built L R (\<lambda>va. if ?start \<le> va \<and> va < finish
                   then pte_update (?addr + ((va AND 0xFFFFF000) - ?start)) perm (page_entry s1 va)
                   else page_entry s1 va) s1 s'"
  proof (rule Suc.IH [OF s1(3,4) Suc.prems(3)])
    show "page_aligned ?start" "page_aligned ?addr"
      using page_aligned_plus st ad Suc.prems(4,5) by blast+
    show "dir_index va \<in> R" if "?start \<le> va" "va < finish" for va
      using Suc.prems(8) [of va] that st by (simp add: word_le_nat_alt)
  qed (use Suc.prems(6,7) st ad in simp_all)
  then obtain s' where s': "map_pages ?start finish ?addr perm s1 = Inr ((), s')"
    "tables_frame s1 s'" "tables_ok s'" "budget L s' R"
    "\<forall>va. page_entry s' va = (if ?start \<le> va \<and> va < finish
                   then pte_update (?addr + ((va AND 0xFFFFF000) - ?start)) perm (page_entry s1 va)
                   else page_entry s1 va)"
    unfolding built_def by blast
  have "page_entry s' va = (if start \<le> va \<and> va < finish
      then pte_update (addr + ((va AND 0xFFFFF000) - start)) perm (page_entry s va) else page_entry s va)" for va
  proof (cases "unat va div 4096 = unat start div 4096")
    case True
    then have "start \<le> va" "va < finish" "\<not> ?start \<le> va"
      using same_page_iff [OF Suc.prems(4), of va] Suc.prems(6) st
      by (simp_all add: word_le_nat_alt word_less_nat_alt)
    with True s'(5) s1(5) page_base [OF Suc.prems(4) True] show ?thesis by simp
  next
    case False
    then have "start \<le> va \<longleftrightarrow> ?start \<le> va"
      using same_page_iff [OF Suc.prems(4), of va] st by (auto simp: word_le_nat_alt)
    with False s'(5) s1(5) show ?thesis by (simp add: algebra_simps)
  qed
  moreover have "map_pages start finish addr perm s = Inr ((), s')"
    using lt s1(1) s'(1) by (subst map_pages.simps) (simp add: PAGE_SIZE_def)
  ultimately show ?case
    using tables_frame_trans [OF s1(2) s'(2)] s'(3,4) unfolding built_def by blast
qed

section \<open>Initialisation\<close>

lemma low_loop_ok:
  assumes "tables_ok s" "budget L s R" "R \<subseteq> {..<1024}" "0 \<in> R"
  shows "\<exists>s'. kfor 256 (\<lambda>i. kthen (page_ident_map (of_nat i * PAGE_SIZE) perm) (kreturn ())) s = Inr ((), s')
    \<and> built L R (\<lambda>va. if unat va < 4096 * 256 then pte_update (va AND 0xFFFFF000) perm (page_entry s va)
                   else page_entry s va) s s'"
proof (rule kfor_invariant)
  show "built L R (\<lambda>va. if unat va < 4096 * 0 then pte_update (va AND 0xFFFFF000) perm (page_entry s va)
                   else page_entry s va) s s"
    using assms(1,2) by (simp add: built_def tables_frame_refl)
  fix k :: nat and t
  assume k: "k < 256" and t: "built L R (\<lambda>va. if unat va < 4096 * k
      then pte_update (va AND 0xFFFFF000) perm (page_entry s va) else page_entry s va) s t"
  let ?p = "of_nat k * PAGE_SIZE :: u32"
  have p: "unat ?p = 4096 * k"
    using k unat_of_nat_u32 [of "k * 4096"] by (simp add: PAGE_SIZE_def mult.commute)
  then have al: "page_aligned ?p" by (simp add: page_aligned_def)
  have "unat (dir_index ?p) = 0" using k p by (simp add: unat_dir_index)
  then have "dir_index ?p \<in> R" using assms(4) by (simp add: unat_eq_0)
  then obtain a t' where t': "page_map ?p ?p perm t = Inr (a, t')" "tables_frame t t'" "tables_ok t'" "budget L t' R"
      "\<forall>va. page_entry t' va = (if unat va div 4096 = unat ?p div 4096
         then pte_update ?p perm (page_entry t va) else page_entry t va)"
    using map_step [of t L R ?p ?p perm] t assms(3) al unfolding built_def by blast
  have "page_entry t' va = (if unat va < 4096 * Suc k then pte_update (va AND 0xFFFFF000) perm (page_entry s va)
      else page_entry s va)" for va
  proof (cases "unat va div 4096 = unat ?p div 4096")
    case True
    then have "4096 * k \<le> unat va" "unat va < 4096 * k + 4096" using same_page_iff [OF al, of va] p by simp_all
    with True t'(5) t page_base [OF al True] show ?thesis by (simp add: built_def)
  next
    case False
    then have "unat va < 4096 * Suc k \<longleftrightarrow> unat va < 4096 * k" using same_page_iff [OF al, of va] p by auto
    with False t'(5) t show ?thesis by (simp add: built_def)
  qed
  then have "built L R (\<lambda>va. if unat va < 4096 * Suc k then pte_update (va AND 0xFFFFF000) perm (page_entry s va)
      else page_entry s va) s t'"
    using t t'(2-4) tables_frame_trans unfolding built_def by blast
  moreover have "kthen (page_ident_map ?p perm) (kreturn ()) t = Inr ((), t')"
    using t'(1) by (simp add: page_ident_map_def)
  ultimately show "\<exists>t'. kthen (page_ident_map ?p perm) (kreturn ()) t = Inr ((), t')
      \<and> built L R (\<lambda>va. if unat va < 4096 * Suc k then pte_update (va AND 0xFFFFF000) perm (page_entry s va)
          else page_entry s va) s t'" by blast
qed

text \<open>The two directories, allocated and cleared.\<close>

definition new_dirs :: "'a paging_st_scheme \<Rightarrow> 'a paging_st_scheme" where
  "new_dirs s =
     (let pd = next_table s; pv = pd + 4096;
          s = s\<lparr>pageDirectory := pd, currentBase := pv + 4096, ptPhysToVirt := pv\<rparr>
      in filled (kphys ` block pv 4096) 0 (filled (kphys ` block pd 4096) 0 s))"

lemma new_dirs_ok:
  assumes b: "boot_mapped s" and ar: "arena_ok s" and lo: "0xC0000000 \<le> initialBase s"
    and room: "unat (next_table s) + 4096 * 2 \<le> unat (maxBase s)"
  defines "pd \<equiv> next_table s"
  defines "s1 \<equiv> s\<lparr>currentBase := pd + 4096, pageDirectory := pd\<rparr>"
  defines "s2 \<equiv> s\<lparr>pageDirectory := pd, currentBase := pd + 4096 + 4096, ptPhysToVirt := pd + 4096\<rparr>"
  defines "s3 \<equiv> filled (kphys ` block pd 4096) 0 s2"
  shows "kmalloc_early_align 4096 s = Inr (pd, s\<lparr>currentBase := pd + 4096\<rparr>)"
    "kmalloc_early_align 4096 s1 = Inr (pd + 4096, s1\<lparr>currentBase := pd + 4096 + 4096\<rparr>)"
    "memset pd 0 4096 s2 = Inr (pd, s3)" "memset (pd + 4096) 0 4096 s3 = Inr (pd + 4096, new_dirs s)"
    "tables_ok (new_dirs s)" "\<And>i. i < 1024 \<Longrightarrow> \<not> present (new_dirs s) i"
    "unat (currentBase (new_dirs s)) = unat pd + 8192" "page_aligned (currentBase (new_dirs s))"
proof -
  have room1: "unat pd + 4096 \<le> unat (maxBase s)" using room by (simp add: pd_def)
  note T = next_table_fresh [OF ar room1 [unfolded pd_def], folded pd_def]
  show "kmalloc_early_align 4096 s = Inr (pd, s\<lparr>currentBase := pd + 4096\<rparr>)" by (rule T(6))
  have al: "page_aligned (pd + 4096)" by (rule page_aligned_plus [OF T(1,3)])
  have nt: "next_table s1 = pd + 4096" using page_up_aligned [OF al] by (simp add: next_table_def s1_def)
  have ar1: "arena_ok s1" using ar T(2,3,4) by (auto simp: arena_ok_def s1_def word_le_nat_alt)
  have room2: "unat (next_table s1) + 4096 \<le> unat (maxBase s1)"
    using room T(3) by (simp add: nt) (simp add: s1_def pd_def)
  note U = next_table_fresh [OF ar1 room2, unfolded nt]
  show "kmalloc_early_align 4096 s1 = Inr (pd + 4096, s1\<lparr>currentBase := pd + 4096 + 4096\<rparr>)" by (rule U(6))
  have h: "heap s2 = heap s" "heap s3 = heap s" "heap s1 = heap s"
    by (simp_all add: heap_def s1_def s2_def s3_def filled_def)
  have b2: "boot_mapped s2" by (rule boot_mapped_frame [OF b]) (simp_all add: s2_def heap_def)
  have c: "memset pd 0 4096 s2 = Inr (pd, s3)" "boot_mapped s3"
    using clear_page_run [OF b2, of pd, folded s3_def] T(1,5) h(1) lo by (simp_all add: s2_def)
  then show "memset pd 0 4096 s2 = Inr (pd, s3)" by simp
  have s4: "new_dirs s = filled (kphys ` block (pd + 4096) 4096) 0 s3"
    by (simp add: new_dirs_def Let_def s3_def s2_def pd_def)
  have d: "memset (pd + 4096) 0 4096 s3 = Inr (pd + 4096, new_dirs s)" "boot_mapped (new_dirs s)"
    unfolding s4 using clear_page_run [OF c(2), of "pd + 4096"] U(1,5) h(2,3) lo
    by (simp_all add: s3_def s2_def filled_def)
  then show "memset (pd + 4096) 0 4096 s3 = Inr (pd + 4096, new_dirs s)" by simp
  have f: "pageDirectory (new_dirs s) = pd" "ptPhysToVirt (new_dirs s) = pd + 4096"
      "currentBase (new_dirs s) = pd + 4096 + 4096" "initialBase (new_dirs s) = initialBase s"
      "maxBase (new_dirs s) = maxBase s" "initialized (new_dirs s) = initialized s"
    by (simp_all add: new_dirs_def Let_def filled_def pd_def)
  have u4: "unat (pd + 4096 + 4096) = unat pd + 8192" using U(3) T(3) by simp
  then show "unat (currentBase (new_dirs s)) = unat pd + 8192" by (simp add: f)
  show "page_aligned (currentBase (new_dirs s))" unfolding f by (rule page_aligned_plus [OF U(1,3)])
  have ne: "pd \<noteq> pd + 4096" by simp
  have zero: "dir_entry (new_dirs s) i = 0" if "i < 1024" for i
    using heap_word_clear [OF U(1) T(1) that, of s3] heap_word_clear [OF T(1) T(1) that, of s2] ne
    unfolding dir_entry_def f(1) unfolding s4 by (simp add: s3_def)
  then show "\<not> present (new_dirs s) i" if "i < 1024" for i using that by (simp add: present_def)
  moreover have "arena_ok (new_dirs s)"
    using ar u4 U(4) T(2) by (auto simp: arena_ok_def f s1_def word_le_nat_alt)
  moreover have "page_in (new_dirs s) pd" "page_in (new_dirs s) (pd + 4096)"
    using T(1-3) U(1) u4 ar by (auto simp: page_in_def f arena_ok_def word_le_nat_alt)
  ultimately show "tables_ok (new_dirs s)"
    using d(2) lo ne unfolding tables_ok_def f by blast
qed

lemma tables_con_frame: "tables_ok s \<Longrightarrow> tables_frame s (s\<lparr>con := c\<rparr>)"
  unfolding tables_frame_def
  by (intro exI [of _ "mem s"] exI [of _ c] exI [of _ "currentBase s"]) (simp add: tables_ok_def arena_ok_def)

lemma tables_con:
  assumes "tables_ok s"
  shows "tables_ok (s\<lparr>con := c\<rparr>)" "page_entry (s\<lparr>con := c\<rparr>) va = page_entry s va"
    "budget L (s\<lparr>con := c\<rparr>) R = budget L s R"
proof -
  have e: "dir_entry (s\<lparr>con := c\<rparr>) i = dir_entry s i" "tab_entry (s\<lparr>con := c\<rparr>) i = tab_entry s i" for i
    by (simp_all add: dir_entry_def tab_entry_def)
  from tables_ok_step [OF assms tables_con_frame [OF assms], of 0] e show "tables_ok (s\<lparr>con := c\<rparr>)" by simp
  show "page_entry (s\<lparr>con := c\<rparr>) va = page_entry s va" "budget L (s\<lparr>con := c\<rparr>) R = budget L s R"
    by (simp_all add: page_entry_def present_def e budget_def next_table_def)
qed

text \<open>The directory slots of the first megabyte and of the kernel.\<close>

definition boot_slots :: "u32 set" where
  "boot_slots = {0, 768, 769}"

lemma boot_slots_less: "boot_slots \<subseteq> {..<1024}"
  by (simp add: boot_slots_def)

lemma kernel_slot:
  assumes "0xC0000000 \<le> va" "unat va < 0xC0800000"
  shows "dir_index va \<in> boot_slots"
proof -
  have "768 \<le> unat va div 4194304" "unat va div 4194304 < 770"
    using assms by (simp_all add: word_le_nat_alt less_eq_div_iff_mult_less_eq div_less_iff_less_mult)
  then have "unat va div 4194304 = 768 \<or> unat va div 4194304 = 769" by linarith
  then show ?thesis
    by (auto simp: boot_slots_def word_unat_eq_iff unat_dir_index)
qed

text \<open>What the new tables hold after both loops, and the walk they give.\<close>

definition kernel_entries :: "u32 \<Rightarrow> u32 \<Rightarrow> u32 \<Rightarrow> u32" where
  "kernel_entries start finish va =
     (if start \<le> va \<and> va < finish then kphys (va AND 0xFFFFF000) OR 3
      else if unat va < 1048576 then (va AND 0xFFFFF000) OR 3 else 0)"

lemma va_split: "(va AND 0xFFFFF000) + (va AND 0xFFF) = (va :: u32)"
proof -
  have "unat ((va AND 0xFFFFF000) + (va AND 0xFFF)) = unat va"
    unfolding frame_or_offset [symmetric] unat_frame_or_offset by simp
  then show ?thesis by (simp only: word_unat_eq_iff)
qed

lemma entry_walk:
  assumes "page_aligned p"
  shows "(p OR 3) AND 1 \<noteq> 0" "((p OR 3) AND 0xFFFFF000) OR (va AND 0xFFF) = p + (va AND 0xFFF)"
  using or_3_present frame_or_offset [of p va] page_aligned_mask [OF assms] masked_or_3 [OF assms] by simp_all

lemma kernel_entries_walk:
  assumes "tables_ok s" "\<And>va. page_entry s va = kernel_entries start finish va" "0xC0000000 \<le> start"
    and "mem s' = mem s" "cr3 s' = kphys (pageDirectory s)" "paging_on s'"
  shows "mmu_walk s' va =
    (if unat va < 1048576 then Some va
     else if start \<le> va \<and> va < finish then Some (kphys va) else None)"
proof -
  note w = walk_new_tables [OF assms(1,4-6), of va, unfolded assms(2)]
  let ?p = "va AND 0xFFFFF000"
  consider (low) "unat va < 1048576" "\<not> start \<le> va" | (kern) "start \<le> va" "va < finish" "\<not> unat va < 1048576"
    | (none) "\<not> unat va < 1048576" "\<not> (start \<le> va \<and> va < finish)"
    using assms(3) by (auto simp: word_le_nat_alt)
  then show ?thesis
  proof cases
    case low
    with w show ?thesis
      using entry_walk [OF page_aligned_masked] va_split by (simp add: kernel_entries_def)
  next
    case kern
    have "0xC0000000 \<le> va" using kern(1) assms(3) by simp
    then have "0xC0000000 \<le> ?p"
      unfolding word_le_nat_alt unat_and_page_mask by (simp add: div_le_mono less_eq_div_iff_mult_less_eq)
    then have "page_aligned (kphys ?p)" using kphys_page_aligned page_aligned_masked by blast
    moreover have "kphys ?p + (va AND 0xFFF) = kphys va"
      using va_split [of va] by (simp flip: kphys_plus)
    ultimately show ?thesis using w kern entry_walk by (simp add: kernel_entries_def)
  next
    case none
    with w show ?thesis by (simp add: kernel_entries_def)
  qed
qed

text \<open>Both loops, from freshly cleared directories.\<close>

lemma PAGE_ALIGN_UP_page_up: "PAGE_ALIGN_UP a = page_up a"
  by (simp add: PAGE_ALIGN_UP_def page_up_def NOT_ALIGNED_def)

lemma map_kernel_ok:
  assumes ok: "tables_ok s" "budget L s boot_slots" "\<And>va. page_entry s va = 0"
    and ks: "page_aligned start" "0xC0000000 \<le> start" "start \<le> finish" "page_aligned finish"
      "unat finish \<le> 0xC0800000"
  shows "\<exists>s'. kthen (kfor 256 (\<lambda>i. kthen (page_ident_map (of_nat i * PAGE_SIZE) PAGE_ENTRY_RW) (kreturn ())))
      (map_pages start finish (kphys start) PAGE_ENTRY_RW) s = Inr ((), s')
    \<and> tables_frame s s' \<and> tables_ok s' \<and> (\<forall>va. page_entry s' va = kernel_entries start finish va)
    \<and> unat (currentBase s') \<le> L"
proof -
  have "0 \<in> boot_slots" by (simp add: boot_slots_def)
  from low_loop_ok [OF ok(1,2) boot_slots_less this, of PAGE_ENTRY_RW]
  obtain s1 where s1: "kfor 256 (\<lambda>i. kthen (page_ident_map (of_nat i * PAGE_SIZE) PAGE_ENTRY_RW) (kreturn ())) s
        = Inr ((), s1)" "tables_frame s s1" "tables_ok s1" "budget L s1 boot_slots"
      "\<forall>va. page_entry s1 va = (if unat va < 4096 * 256
        then pte_update (va AND 0xFFFFF000) PAGE_ENTRY_RW (page_entry s va) else page_entry s va)"
    unfolding built_def by blast
  obtain m where m: "unat start = 4096 * m" using ks(1) unfolding page_aligned_def by auto
  obtain k where k: "unat finish = 4096 * k" using ks(4) unfolding page_aligned_def by auto
  have "m \<le> k" using ks(3) m k by (simp add: word_le_nat_alt)
  then have n: "unat finish = unat start + 4096 * (k - m)" using m k by (simp add: diff_mult_distrib2)
  have "unat (kphys start) = unat start - 3221225472" using ks(2) by (simp add: kphys_def unat_sub_le)
  then have bound: "unat (kphys start) + 4096 * (k - m) < 4294967296" using n ks(5) by simp
  have "dir_index va \<in> boot_slots" if "start \<le> va" "va < finish" for va
    using that ks(2,5) by (intro kernel_slot) (auto simp: word_le_nat_alt word_less_nat_alt)
  from map_pages_ok [OF s1(3,4) boot_slots_less ks(1) kphys_page_aligned [OF ks(2,1)] n bound this,
      of PAGE_ENTRY_RW]
  obtain s2 where s2: "map_pages start finish (kphys start) PAGE_ENTRY_RW s1 = Inr ((), s2)"
      "tables_frame s1 s2" "tables_ok s2" "budget L s2 boot_slots"
      "\<forall>va. page_entry s2 va = (if start \<le> va \<and> va < finish
        then pte_update (kphys start + ((va AND 0xFFFFF000) - start)) PAGE_ENTRY_RW (page_entry s1 va)
        else page_entry s1 va)"
    unfolding built_def by blast
  have pte: "pte_update p PAGE_ENTRY_RW 0 = p OR 3" for p by (simp add: pte_update_def PAGE_ENTRY_RW_def)
  have "page_entry s2 va = kernel_entries start finish va" for va
  proof (cases "start \<le> va \<and> va < finish")
    case True
    then have "\<not> unat va < 1048576" using ks(2) by (auto simp: word_le_nat_alt)
    moreover have "kphys start + ((va AND 0xFFFFF000) - start) = kphys (va AND 0xFFFFF000)"
      by (simp add: kphys_def)
    ultimately show ?thesis using True s2(5) s1(5) ok(3) pte by (simp add: kernel_entries_def)
  qed (use s2(5) s1(5) ok(3) pte in \<open>auto simp: kernel_entries_def\<close>)
  with s1(1) s2(1,3) budget_used [OF s2(3,4)] tables_frame_trans [OF s1(2) s2(2)] show ?thesis by auto
qed

lemma new_dirs_mem:
  assumes "boot_mapped s" "arena_ok s" "0xC0000000 \<le> initialBase s" "unat (next_table s) + 4096 * 2 \<le> unat (maxBase s)"
    and "x \<notin> kphys ` allocated (new_dirs s)"
  shows "mem (new_dirs s) x = mem s x"
proof -
  have "page_in (new_dirs s) (pageDirectory (new_dirs s))" "page_in (new_dirs s) (ptPhysToVirt (new_dirs s))"
    using new_dirs_ok(5) [OF assms(1-4)] by (simp_all add: tables_ok_def)
  then have "block (pageDirectory (new_dirs s)) 4096 \<subseteq> allocated (new_dirs s)"
      "block (ptPhysToVirt (new_dirs s)) 4096 \<subseteq> allocated (new_dirs s)"
    by (simp_all add: page_in_allocated)
  then have "x \<notin> kphys ` block (next_table s) 4096" "x \<notin> kphys ` block (next_table s + 4096) 4096"
    using assms(5) by (auto simp: new_dirs_def Let_def filled_def)
  then show ?thesis by (simp add: new_dirs_def Let_def filled_def)
qed

lemma new_dirs_budget:
  assumes "boot_mapped s" "arena_ok s" "0xC0000000 \<le> initialBase s"
    and "unat (next_table s) + 4096 * 5 \<le> unat (maxBase s)"
  shows "budget (unat (next_table s) + 4096 * 5) (new_dirs s) boot_slots" "page_entry (new_dirs s) va = 0"
proof -
  have room: "unat (next_table s) + 4096 * 2 \<le> unat (maxBase s)" using assms(4) by simp
  note nd = new_dirs_ok [OF assms(1-3) room]
  have "card {i \<in> boot_slots. \<not> present (new_dirs s) i} \<le> card boot_slots"
    by (intro card_mono) (auto simp: boot_slots_def)
  also have "\<dots> = 3" by (simp add: boot_slots_def)
  finally have "card {i \<in> boot_slots. \<not> present (new_dirs s) i} \<le> 3" .
  moreover have "next_table (new_dirs s) = currentBase (new_dirs s)"
    by (simp add: next_table_def page_up_aligned nd(8))
  moreover have "maxBase (new_dirs s) = maxBase s" by (simp add: new_dirs_def Let_def filled_def)
  ultimately show "budget (unat (next_table s) + 4096 * 5) (new_dirs s) boot_slots"
    using assms(4) nd(7) by (simp add: budget_def boot_slots_def)
  show "page_entry (new_dirs s) va = 0" using nd(6) by (simp add: page_entry_def)
qed

lemma init_prints:
  "prints_only (k_printf (Some (''paging: PTD at %p (old %p)'' @ [CHR 0x0A])) [VInt a, VInt b])"
  "prints_only (k_printfln (Some ''pagedir=%p, virtpagedir=%p'') [VInt a, VInt b])"
  by (rule prints_only_printf [where ks = "[KInt, KInt]"] prints_only_printfln [where ks = "[KInt, KInt]"];
      simp add: conv_kinds_def)+

lemma tables_virt_to_phys:
  assumes "tables_ok s" "boot_mapped t" "heap t = heap s" "initialBase t = initialBase s"
  shows "virt_to_phys (pageDirectory s) t = Inr (kphys (pageDirectory s), t)"
  by (rule clear_page_run(4) [OF assms(2)])
     (use assms page_in_heap [of s "pageDirectory s"] in \<open>auto simp: tables_ok_def page_in_def\<close>)

lemma kernel_limit:
  assumes "unat kernel_end \<le> 0xC0800000" "start \<le> kernel_end"
  shows "page_aligned (PAGE_ALIGN_UP kernel_end)" "start \<le> PAGE_ALIGN_UP kernel_end"
    "unat (PAGE_ALIGN_UP kernel_end) \<le> 0xC0800000"
proof -
  let ?f = "PAGE_ALIGN_UP kernel_end"
  have up: "unat kernel_end \<le> unat ?f" "unat ?f < unat kernel_end + 4096" "unat ?f mod 4096 = 0"
    using page_up_bounds [of kernel_end] assms(1) by (simp_all add: PAGE_ALIGN_UP_page_up)
  show "page_aligned ?f" using up(3) by (simp add: page_aligned_def)
  show "start \<le> ?f" using up(1) assms(2) by (simp add: word_le_nat_alt)
  obtain k where k: "unat ?f = 4096 * k" using up(3) by auto
  then have "4096 * k < 4096 * 788481" using up(2) assms(1) by simp
  then show "unat ?f \<le> 0xC0800000" unfolding k by simp
qed

text \<open>The steps after the tables are filled.\<close>

lemma init_switch:
  assumes "tables_ok t"
  shows "\<exists>c. kthen (isr_register_interrupt_handler 14 pfh)
      (kbind (virt_to_phys (pageDirectory t)) (\<lambda>p.
       kthen (k_printfln (Some ''pagedir=%p, virtpagedir=%p'') [VInt p, VInt (pageDirectory t)])
      (kbind (virt_to_phys (pageDirectory t)) (\<lambda>p.
       kthen (native_set_page_directory p)
      (kthen native_paging_enable
             (kmodify (\<lambda>s. s\<lparr>kernelPagingEnabled := True\<rparr>))))))) t
    = Inr ((), t\<lparr>con := c, g_interrupt_handlers := (g_interrupt_handlers t)[14 := pfh],
            cr3 := kphys (pageDirectory t), cr0 := cr0 t OR 0x80000000, kernelPagingEnabled := True\<rparr>)"
proof -
  let ?pd = "pageDirectory t"
  have bt: "boot_mapped t" using assms by (simp add: tables_ok_def)
  obtain c1 where reg: "isr_register_interrupt_handler 14 pfh t =
      Inr ((), t\<lparr>con := c1, g_interrupt_handlers := (g_interrupt_handlers t)[14 := pfh]\<rparr>)" (is "_ = Inr ((), ?t1)")
    using register_run [of 14 pfh t] by auto
  have "boot_mapped ?t1" by (rule boot_mapped_frame [OF bt]) (simp_all add: heap_def)
  then have v1: "virt_to_phys ?pd ?t1 = Inr (kphys ?pd, ?t1)"
    by (intro tables_virt_to_phys [OF assms]) (simp_all add: heap_def)
  obtain c2 where pr: "k_printfln (Some ''pagedir=%p, virtpagedir=%p'') [VInt (kphys ?pd), VInt ?pd] ?t1
      = Inr ((), ?t1\<lparr>con := c2\<rparr>)" by (rule prints_onlyE [OF init_prints(2)])
  have "boot_mapped (?t1\<lparr>con := c2\<rparr>)" by (rule boot_mapped_frame [OF bt]) (simp_all add: heap_def)
  then have "virt_to_phys ?pd (?t1\<lparr>con := c2\<rparr>) = Inr (kphys ?pd, ?t1\<lparr>con := c2\<rparr>)"
    by (intro tables_virt_to_phys [OF assms]) (simp_all add: heap_def)
  with reg v1 pr show ?thesis
    by (intro exI [of _ c2]) (simp add: native_set_page_directory_def native_paging_enable_def)
qed

lemma init_paging_ok:
  assumes boot: "boot_mapped s" "arena_ok s" "0xC0000000 \<le> initialBase s"
    and room: "unat (next_table s) + 4096 * 5 \<le> unat (maxBase s)"
    and ks: "page_aligned kernel_start" "0xC0000000 \<le> kernel_start" "kernel_start \<le> kernel_end"
      "unat kernel_end \<le> 0xC0800000"
  defines "finish \<equiv> PAGE_ALIGN_UP kernel_end"
  shows "\<exists>c t. init_paging kernel_start kernel_end pfh s =
        Inr ((), t\<lparr>con := c, g_interrupt_handlers := (g_interrupt_handlers t)[14 := pfh],
            cr3 := kphys (pageDirectory t), cr0 := cr0 t OR 0x80000000, kernelPagingEnabled := True\<rparr>)
    \<and> tables_ok t \<and> (\<forall>va. page_entry t va = kernel_entries kernel_start finish va)
    \<and> tables_frame (new_dirs s) t \<and> unat (currentBase t) \<le> unat (next_table s) + 4096 * 5
    \<and> (\<forall>x. x \<notin> kphys ` allocated t \<longrightarrow> mem t x = mem s x)"
proof -
  let ?pd = "next_table s" and ?n = "new_dirs s"
  have room2: "unat ?pd + 4096 * 2 \<le> unat (maxBase s)" using room by simp
  note nd = new_dirs_ok [OF boot room2] and bud = new_dirs_budget [OF boot room]
  have pdn: "pageDirectory ?n = ?pd" by (simp add: new_dirs_def Let_def filled_def)
  have bn: "boot_mapped ?n" using nd(5) by (simp add: tables_ok_def)
  have vn: "virt_to_phys ?pd ?n = Inr (kphys ?pd, ?n)"
    using tables_virt_to_phys [OF nd(5) bn] pdn by simp
  obtain c1 where c1: "k_printf (Some (''paging: PTD at %p (old %p)'' @ [CHR 0x0A])) [VInt (kphys ?pd), VInt (cr3 ?n)] ?n
      = Inr ((), ?n\<lparr>con := c1\<rparr>)" by (rule prints_onlyE [OF init_prints(1)])
  have mb: "unat (PAGES_PER_MB 1) = 256"
    by (simp add: PAGES_PER_MB_def PAGE_ALIGN_UP_def NOT_ALIGNED_def PAGE_ALIGN_def PAGE_SIZE_def)
  note lim = kernel_limit [OF ks(4,3), folded finish_def]
  have "tables_ok (?n\<lparr>con := c1\<rparr>)" "budget (unat ?pd + 4096 * 5) (?n\<lparr>con := c1\<rparr>) boot_slots"
      "\<And>va. page_entry (?n\<lparr>con := c1\<rparr>) va = 0"
    using tables_con [OF nd(5)] bud by simp_all
  from map_kernel_ok [OF this ks(1,2) lim(2,1,3)] obtain t where
    t: "kthen (kfor 256 (\<lambda>i. kthen (page_ident_map (of_nat i * PAGE_SIZE) PAGE_ENTRY_RW) (kreturn ())))
      (map_pages kernel_start finish (kphys kernel_start) PAGE_ENTRY_RW) (?n\<lparr>con := c1\<rparr>) = Inr ((), t)"
    "tables_frame (?n\<lparr>con := c1\<rparr>) t" "tables_ok t" "\<forall>va. page_entry t va = kernel_entries kernel_start finish va"
    "unat (currentBase t) \<le> unat ?pd + 4096 * 5"
    by blast
  have fr: "tables_frame ?n t"
    using tables_con_frame [OF nd(5)] t(2) by (rule tables_frame_trans)
  have pdt: "pageDirectory t = ?pd" using tables_frame_fields(6) [OF fr] pdn by simp
  obtain c where sw: "kthen (isr_register_interrupt_handler 14 pfh)
      (kbind (virt_to_phys ?pd) (\<lambda>p.
       kthen (k_printfln (Some ''pagedir=%p, virtpagedir=%p'') [VInt p, VInt ?pd])
      (kbind (virt_to_phys ?pd) (\<lambda>p.
       kthen (native_set_page_directory p)
      (kthen native_paging_enable
             (kmodify (\<lambda>s. s\<lparr>kernelPagingEnabled := True\<rparr>))))))) t
    = Inr ((), t\<lparr>con := c, g_interrupt_handlers := (g_interrupt_handlers t)[14 := pfh],
            cr3 := kphys (pageDirectory t), cr0 := cr0 t OR 0x80000000, kernelPagingEnabled := True\<rparr>)"
    using init_switch [OF t(3), of pfh] unfolding pdt by blast
  have "init_paging kernel_start kernel_end pfh s =
     kthen (kthen (kfor 256 (\<lambda>i. kthen (page_ident_map (of_nat i * PAGE_SIZE) PAGE_ENTRY_RW) (kreturn ())))
      (map_pages kernel_start finish (kphys kernel_start) PAGE_ENTRY_RW))
    (kthen (isr_register_interrupt_handler 14 pfh)
      (kbind (virt_to_phys ?pd) (\<lambda>p.
       kthen (k_printfln (Some ''pagedir=%p, virtpagedir=%p'') [VInt p, VInt ?pd])
      (kbind (virt_to_phys ?pd) (\<lambda>p.
       kthen (native_set_page_directory p)
      (kthen native_paging_enable
             (kmodify (\<lambda>s. s\<lparr>kernelPagingEnabled := True\<rparr>)))))))) (?n\<lparr>con := c1\<rparr>)"
    using nd(1-4) vn c1
    by (simp add: init_paging_def PAGE_TABLE_SIZE_def PAGE_ENTRIES_def native_get_page_directory_def mb
        kthen_assoc flip: finish_def kphys_def)
  moreover have "mem t x = mem s x" if x: "x \<notin> kphys ` allocated t" for x
  proof -
    have "allocated ?n \<subseteq> allocated t" using tables_frame_fields(3,10) [OF fr] by (auto simp: allocated_def)
    then have "x \<notin> kphys ` allocated ?n" using x by blast
    then show ?thesis using tables_frame_fields(13) [OF fr x] new_dirs_mem [OF boot room2] by simp
  qed
  ultimately show ?thesis using t sw fr by auto
qed

section \<open>Properties\<close>

lemma paging_bit: "(x OR 0x80000000) AND 0x80000000 \<noteq> (0 :: u32)"
proof -
  have "(x OR 0x80000000) AND 0x80000000 = (0x80000000 :: u32)" by (rule bit_eqI) (auto simp: bit_simps)
  then show ?thesis by simp
qed

text \<open>
  C6: \<open>init_paging\<close> returns and switches to exactly the intended address space. Afterwards the
  processor translates the first megabyte to itself and every address of the kernel's pages to
  the address \<open>0xC0000000\<close> below it; every other access faults. It holds whenever the boot
  tables map the heap, five pages of it are free, and the kernel starts on a page boundary in
  the higher half and ends at most 8 MiB into it.
\<close>

theorem init_paging_address_space:
  assumes "boot_mapped s" "arena_ok s" "0xC0000000 \<le> initialBase s"
    and "unat (page_up (currentBase s)) + 4096 * 5 \<le> unat (maxBase s)"
    and "page_aligned kernel_start" "0xC0000000 \<le> kernel_start" "kernel_start \<le> kernel_end"
      "unat kernel_end \<le> 0xC0800000"
  shows "\<exists>s'. init_paging kernel_start kernel_end pfh s = Inr ((), s') \<and> kernelPagingEnabled s'
    \<and> (\<forall>va. mmu_walk s' va =
         (if unat va < 1048576 then Some va
          else if kernel_start \<le> va \<and> va < PAGE_ALIGN_UP kernel_end then Some (va - 0xC0000000)
          else None))"
proof -
  from init_paging_ok [OF assms(1-3) _ assms(5-8), of pfh] assms(4) obtain c t where
    t: "init_paging kernel_start kernel_end pfh s =
        Inr ((), t\<lparr>con := c, g_interrupt_handlers := (g_interrupt_handlers t)[14 := pfh],
            cr3 := kphys (pageDirectory t), cr0 := cr0 t OR 0x80000000, kernelPagingEnabled := True\<rparr>)"
      (is "_ = Inr ((), ?s')")
    "tables_ok t" "\<And>va. page_entry t va = kernel_entries kernel_start (PAGE_ALIGN_UP kernel_end) va"
    by (auto simp: next_table_def)
  have "paging_on ?s'" using paging_bit by (simp add: paging_on_def)
  then have "mmu_walk ?s' va = (if unat va < 1048576 then Some va
      else if kernel_start \<le> va \<and> va < PAGE_ALIGN_UP kernel_end then Some (kphys va) else None)" for va
    by (intro kernel_entries_walk [OF t(2,3) assms(6)]) simp_all
  then show ?thesis using t(1) by (simp add: kphys_def)
qed

text \<open>
  \<open>page_map\<close> refines an update of the page map: it returns the address of the entry it
  wrote, the entry of the requested page becomes the old flag bits with the frame, the
  permissions and the present bit or-ed in, the entries of all other pages keep their values,
  whether or not a page table had to be created, and the tables stay well formed.
\<close>

lemma page_map_updates_one_page:
  assumes "tables_ok s" "page_aligned virt" "page_aligned phys" "room_for s virt"
  shows "\<exists>a s'. page_map virt phys perm s = Inr (a, s') \<and> tables_ok s' \<and> heap_word s' a = page_entry s' virt
    \<and> (\<forall>va. page_entry s' va =
         (if unat va div 4096 = unat virt div 4096
          then (page_entry s virt AND 0xFFF) OR phys OR perm OR 1 else page_entry s va))"
proof -
  from page_map_ok [OF assms, of perm] obtain s' where
    s': "page_map virt phys perm s = Inr (elem (tab_entry s' (dir_index virt)) (table_index virt), s')" "tables_ok s'"
    "\<forall>va. page_entry s' va =
       (if unat va div 4096 = unat virt div 4096 then pte_update phys perm (page_entry s virt) else page_entry s va)"
    "\<forall>j<1024. present s' j \<longleftrightarrow> present s j \<or> j = dir_index virt"
    by blast
  then have "heap_word s' (elem (tab_entry s' (dir_index virt)) (table_index virt)) = page_entry s' virt"
    by (simp add: page_entry_def)
  with s' show ?thesis unfolding pte_update_def by blast
qed

text \<open>
  C32: during boot \<open>virt_to_phys\<close> follows the processor's own tables: for a heap address it
  returns the start of the physical page the processor would access; the offset within the page
  is dropped.
\<close>

theorem virt_to_phys_page_frame:
  assumes "boot_mapped s" "va \<in> heap s"
  shows "\<exists>pa. mmu_walk s va = Some pa \<and> virt_to_phys va s = Inr (pa AND 0xFFFFF000, s)"
  using virt_to_phys_boot [OF assms] assms by (auto simp: boot_mapped_def mapped_def)

text \<open>
  \<open>page_map\<close> refuses addresses that are not page aligned: the assertion panics before any
  table is touched.
\<close>

lemma page_map_rejects_unaligned:
  assumes "\<not> (page_aligned virt \<and> page_aligned phys)"
  shows "\<exists>c. page_map virt phys perm s = Inl (Panic assert_reason, s\<lparr>intf := False, con := c\<rparr>)"
proof -
  have "virt AND NOT_ALIGNED \<noteq> 0 \<or> phys AND NOT_ALIGNED \<noteq> 0"
    using assms by (simp add: NOT_ALIGNED_def NOT_PAGE_ALIGN offset_zero_iff page_aligned_def)
  moreover obtain c where "ASSERT False paging_c ''page_map'' 79 s = Inl (Panic assert_reason, s\<lparr>intf := False, con := c\<rparr>)"
    using ASSERT_false by blast
  ultimately show ?thesis by (auto simp: page_map_def)
qed

text \<open>
  A page fault ends the kernel: the handler prints the fault and panics, with interrupts
  masked, whatever the error code is.
\<close>

lemma page_fault_halts:
  "\<exists>c. page_fault_handler regs s = Inl (Panic ''here'', s\<lparr>intf := False, con := c\<rparr>)"
proof -
  let ?f = "''Page fault at address=%p | present=%d read-only=%d user-mode=%d'' @ [CHR 0x0A]
              @ ''reserved=%d instruction-fetch=%d''"
  have "prints_only (k_printfln (Some ?f) [VInt a, VInt b, VInt d, VInt e, VInt f, VInt g])" for a b d e f g
    by (rule prints_only_printfln [where ks = "[KInt, KInt, KInt, KInt, KInt, KInt]"]) (simp_all add: conv_kinds_def)
  note pr = prints_onlyE [OF this, of "cr2 s" "if err_code regs AND 1 = 0 then 1 else 0" "err_code regs AND 2"
      "err_code regs AND 4" "err_code regs AND 8" "err_code regs AND 16" s]
  obtain c where "page_fault_handler regs s = panic ''here'' [] (s\<lparr>con := c\<rparr>)"
    by (rule pr) (simp add: page_fault_handler_def del: append.simps)
  moreover obtain c' where "(panic ''here'' [] :: ('a kcore_scheme, unit) kernel) (s\<lparr>con := c\<rparr>)
      = Inl (Panic ''here'', s\<lparr>con := c\<rparr>\<lparr>intf := False, con := c'\<rparr>)"
    using panic_stops [of "''here''" "[]" "[]" "s\<lparr>con := c\<rparr>"] by auto
  ultimately show ?thesis by auto
qed

section \<open>A boot state\<close>

text \<open>
  Boot tables as a loader could leave them: a directory at \<open>0x1000\<close> whose slots 0 and 768 name
  one page table at \<open>0x2000\<close> that maps the first 4 MiB, and a heap of eight pages.
\<close>

definition words_mem :: "(nat \<Rightarrow> u32) \<Rightarrow> u32 \<Rightarrow> u8" where
  "words_mem g x = byte_of (unat x mod 4) (g (unat x div 4))"

lemma get32_words_mem:
  assumes "aligned4 a"
  shows "get32 (words_mem g) a = g (unat a div 4)"
proof -
  obtain k where k: "unat a = 4 * k" using assms unfolding aligned4_def by auto
  have word: "words_mem g (a + w) = byte_of (unat w) (g k)" if "unat w < 4" for w
    unfolding words_mem_def aligned4_plus [OF assms that] k using that by simp
  show ?thesis
    using word [of 0] word [of 1] word [of 2] word [of 3] k by (simp add: get32_def)
qed

definition sample_words :: "nat \<Rightarrow> u32" where
  "sample_words n =
     (if n = 1024 \<or> n = 1792 then 0x2003
      else if 2048 \<le> n \<and> n < 3072 then (of_nat (n - 2048) * 4096) OR 3 else 0)"

definition sample_boot :: paging_st where
  "sample_boot = timer_st.extend
     (sample_timer\<lparr>mem := words_mem sample_words, cr0 := 0x80000001, cr3 := 0x1000,
        initialBase := 0xC0200000, currentBase := 0xC0200000, maxBase := 0xC0208000\<rparr>)
     \<lparr>pageDirectory = 0, ptPhysToVirt = 0, kernelPagingEnabled = False\<rparr>"

lemma sample_boot_fields [simp]:
  "mem sample_boot = words_mem sample_words" "cr0 sample_boot = 0x80000001" "cr3 sample_boot = 0x1000"
  "initialBase sample_boot = 0xC0200000" "currentBase sample_boot = 0xC0200000"
  "maxBase sample_boot = 0xC0208000" "initialized sample_boot = 1" "kernelPagingEnabled sample_boot = False"
  by (simp_all add: sample_boot_def timer_st.defs sample_timer_def idt_st.defs sample_idt_def gdt_st.defs
      sample_gdt_def isr_st.defs sample_isr_def)

lemma sample_on: "paging_on sample_boot"
  by (simp add: paging_on_def)

lemma sample_walk:
  assumes "dir_index va = 0 \<or> dir_index va = 768"
  shows "mmu_walk sample_boot va = Some (of_nat (unat va mod 4194304))"
    "walk_reads sample_boot va \<subseteq> {a. 0x1000 \<le> a \<and> a < 0x3000}"
proof -
  let ?i = "dir_index va" and ?j = "table_index va"
  have al: "page_aligned 0x1000" "page_aligned 0x2000" by (simp_all add: page_aligned_def)
  have j: "unat ?j < 1024" using index_less(2) [of va] by (simp add: word_less_nat_alt)
  have i: "unat ?i = 0 \<or> unat ?i = 768" using assms by auto
  have pde: "get32 (words_mem sample_words) (pde_addr 0x1000 va) = 0x2003"
    using i by (auto simp: pde_addr_elem al get32_words_mem elem_aligned4 unat_elem sample_words_def)
  let ?p = "of_nat (unat ?j) * 4096 :: u32"
  have up: "unat ?p = unat ?j * 4096" using unat_of_nat_u32 [of "unat ?j * 4096"] j by simp
  have pte: "get32 (words_mem sample_words) (elem 0x2000 ?j) = ?p OR 3"
    using j by (simp add: al get32_words_mem elem_aligned4 unat_elem sample_words_def)
  have "page_aligned ?p" using up by (simp add: page_aligned_def)
  from entry_walk [OF this] have "mmu_walk sample_boot va = Some (?p + (va AND 0xFFF))"
    using sample_on pde pte by (simp add: mmu_walk_def Let_def pte_addr_elem)
  moreover have "?p + (va AND 0xFFF) = of_nat (unat va mod 4194304)"
  proof -
    have split: "unat va mod 4194304 = (unat va div 4096 mod 1024) * 4096 + unat va mod 4096"
      using mod_mult2_eq' [of "unat va" 4096 1024] by simp
    have "unat (?p + (va AND 0xFFF)) = unat ?j * 4096 + unat va mod 4096"
      using up j by (subst unat_add_small) (simp_all add: unat_and_offset_mask)
    also have "\<dots> = unat va mod 4194304" unfolding split unat_table_index ..
    finally show ?thesis by (metis unat_of_nat_u32 word_unat_eq_iff u32_less)
  qed
  ultimately show "mmu_walk sample_boot va = Some (of_nat (unat va mod 4194304))" by simp
  have inS: "block 0x1000 4096 \<subseteq> {a. 0x1000 \<le> a \<and> a < 0x3000}" "block 0x2000 4096 \<subseteq> {a. 0x1000 \<le> a \<and> a < 0x3000}"
    using mem_block_iff [of "0x1000" 4096] mem_block_iff [of "0x2000" 4096]
    by (simp_all add: subset_iff word_le_nat_alt word_less_nat_alt)
  have "word_bytes (elem 0x1000 ?i) \<subseteq> block 0x1000 4096" "word_bytes (elem 0x2000 ?j) \<subseteq> block 0x2000 4096"
    using elem_in_block al by simp_all
  moreover have "walk_reads sample_boot va = word_bytes (elem 0x1000 ?i) \<union> word_bytes (elem 0x2000 ?j)"
    using sample_on pde by (simp add: walk_reads_def Let_def pte_addr_elem pde_addr_elem al)
  ultimately show "walk_reads sample_boot va \<subseteq> {a. 0x1000 \<le> a \<and> a < 0x3000}"
    using inS by blast
qed

lemma sample_boot_ok: "boot_mapped sample_boot" "arena_ok sample_boot"
proof -
  have heap: "heap sample_boot = {a. 0xC0200000 \<le> a \<and> a < 0xC0208000}" by (simp add: heap_def)
  have img: "unat x \<ge> 0x200000" if "x \<in> kphys ` heap sample_boot" for x
    using that by (auto simp: heap kphys_def unat_sub_le word_le_nat_alt word_less_nat_alt)
  have dir: "dir_index va = 768" "of_nat (unat va mod 4194304) = kphys va" if "va \<in> heap sample_boot" for va
  proof -
    have va: "0xC0200000 \<le> unat va" "unat va < 0xC0208000" using that by (simp_all add: heap word_le_nat_alt word_less_nat_alt)
    then have "unat va div 4194304 = 768" by (intro div_nat_eqI) simp_all
    then show "dir_index va = 768" by (simp add: word_unat_eq_iff unat_dir_index)
    from \<open>unat va div 4194304 = 768\<close> have "unat va mod 4194304 = unat va - 3221225472"
      using div_mult_mod_eq [of "unat va" 4194304] by simp
    then show "of_nat (unat va mod 4194304) = kphys va"
      using va by (simp add: kphys_def of_nat_diff)
  qed
  have low: "mmu_walk sample_boot a = Some a" "walk_reads sample_boot a \<subseteq> {a. 0x1000 \<le> a \<and> a < 0x3000}"
    if "a \<in> {a. 0x1000 \<le> a \<and> a < 0x3000}" for a
  proof -
    have a: "unat a < 12288" using that by (simp add: word_less_nat_alt)
    then have "dir_index a = 0" by (simp add: word_unat_eq_iff unat_dir_index)
    with sample_walk [of a] a show "mmu_walk sample_boot a = Some a"
        "walk_reads sample_boot a \<subseteq> {a. 0x1000 \<le> a \<and> a < 0x3000}" by simp_all
  qed
  have apart: "{a. 0x1000 \<le> a \<and> a < 0x3000} \<inter> kphys ` heap sample_boot = {}"
    using img by (fastforce simp: word_less_nat_alt)
  have "inj_on kphys (heap sample_boot)" by (auto simp: inj_on_def)
  then have "mapped (heap sample_boot) kphys sample_boot"
    unfolding mapped_def using sample_walk dir apart by (metis (no_types, lifting) disjoint_iff subsetD)
  moreover have "mmu_walk sample_boot a = Some a \<and> walk_reads sample_boot a \<inter> kphys ` heap sample_boot = {}"
    if "va \<in> heap sample_boot" "a \<in> walk_reads sample_boot va" for va a
  proof -
    have "a \<in> {a. 0x1000 \<le> a \<and> a < 0x3000}" using sample_walk(2) [of va] dir(1) [OF that(1)] that(2) by blast
    from low [OF this] apart show ?thesis by blast
  qed
  ultimately show "boot_mapped sample_boot"
    unfolding boot_mapped_def using sample_on by (simp add: page_aligned_def)
  show "arena_ok sample_boot" by (simp add: arena_ok_def)
qed

theorem init_paging_address_space_witness:
  "\<exists>s'. init_paging 0xC0104000 0xC0208000 0xC0105000 sample_boot = Inr ((), s') \<and> kernelPagingEnabled s'
    \<and> mmu_walk s' 0xB8000 = Some 0xB8000 \<and> mmu_walk s' 0xC0104ABC = Some 0x104ABC \<and> mmu_walk s' 0x200000 = None"
proof -
  have "unat (page_up (currentBase sample_boot)) + 4096 * 5 \<le> unat (maxBase sample_boot)"
    by (simp add: page_up_def PAGE_ALIGN_def PAGE_SIZE_def)
  from init_paging_address_space [OF sample_boot_ok _ this, of "0xC0104000" "0xC0208000" "0xC0105000"]
  show ?thesis
    by (auto simp: page_aligned_def PAGE_ALIGN_UP_def NOT_ALIGNED_def PAGE_ALIGN_def)
qed

theorem virt_to_phys_page_frame_witness:
  "\<exists>pa. mmu_walk sample_boot 0xC0203ABC = Some pa
     \<and> virt_to_phys 0xC0203ABC sample_boot = Inr (pa AND 0xFFFFF000, sample_boot)"
  by (rule virt_to_phys_page_frame [OF sample_boot_ok(1)]) (simp add: heap_def)

text \<open>The directories \<open>init_paging\<close> starts from are well formed.\<close>

lemma sample_tables_ok: "tables_ok (new_dirs sample_boot)" "room_for (new_dirs sample_boot) 0x3000"
proof -
  have nt: "next_table sample_boot = 0xC0200000"
    by (simp add: next_table_def page_up_def PAGE_ALIGN_def PAGE_SIZE_def)
  have lo: "0xC0000000 \<le> initialBase sample_boot" by simp
  have room: "unat (next_table sample_boot) + 4096 * 2 \<le> unat (maxBase sample_boot)"
      "unat (next_table sample_boot) + 4096 * 5 \<le> unat (maxBase sample_boot)"
    unfolding nt by simp_all
  show "tables_ok (new_dirs sample_boot)" by (rule new_dirs_ok(5) [OF sample_boot_ok lo room(1)])
  have "dir_index 0x3000 \<in> boot_slots" by (simp add: boot_slots_def word_unat_eq_iff unat_dir_index)
  then show "room_for (new_dirs sample_boot) 0x3000"
    using budget_room new_dirs_budget(1) [OF sample_boot_ok lo room(2)] by blast
qed

end
