(* ===== verification/PagingLive.thy ===== *)
theory PagingLive
  imports Paging
begin

unbundle bit_operations_syntax

text \<open>
  The page tables in use (\<^verbatim>\<open>src/mm/paging.c\<close>): after \<open>init_paging\<close> the processor walks the tables that
  \<open>page_map\<close> writes, and reaches them through their own mappings. The invariant \<open>live\<close> says so, and a call
  of \<open>page_map\<close> for a page that holds no table keeps it.
\<close>

section \<open>The invariant\<close>

definition table_page :: "'a paging_st_scheme \<Rightarrow> u32 \<Rightarrow> bool" where
  "table_page s T \<longleftrightarrow> T = pageDirectory s \<or> T = ptPhysToVirt s \<or> (\<exists>i<1024. present s i \<and> T = tab_entry s i)"

definition live :: "'a paging_st_scheme \<Rightarrow> bool" where
  "live s \<longleftrightarrow> tables_shape s \<and> cr3 s = kphys (pageDirectory s) \<and> paging_on s
     \<and> (\<forall>T. table_page s T \<longrightarrow> (\<forall>a \<in> block T 4096. mmu_walk s a = Some (kphys a)))"

lemma live_walk:
  "live s \<Longrightarrow> mmu_walk s va = (if page_entry s va AND 1 = 0 then None
     else Some ((page_entry s va AND 0xFFFFF000) OR (va AND 0xFFF)))"
  by (rule shape_walk) (simp_all add: live_def)

lemma table_page_in: "tables_shape s \<Longrightarrow> table_page s T \<Longrightarrow> page_in s T"
  by (auto simp: table_page_def tables_shape_def slot_ok_def)

lemma live_at:
  assumes "live s" "table_page s T" "i < 1024"
  shows "mmu_walk s (elem T i) = Some (kphys (elem T i))" "aligned4 (elem T i)"
proof -
  have al: "page_aligned T" using table_page_in assms(1,2) by (auto simp: live_def page_in_def)
  show "aligned4 (elem T i)" by (rule elem_aligned4 [OF al assms(3)])
  have "elem T i \<in> block T 4096" using elem_in_block [OF al assms(3)] by (auto simp: word_bytes_def)
  then show "mmu_walk s (elem T i) = Some (kphys (elem T i))" using assms(1,2) by (auto simp: live_def)
qed

lemma live_load:
  assumes "live s" "table_page s T" "i < 1024"
  shows "load32 (elem T i) s = Inr (heap_word s (elem T i), s)"
  unfolding heap_word_def by (rule load32_walk [OF live_at [OF assms]])

lemma store32_walk:
  assumes "mmu_walk s va = Some pa" "aligned4 va"
  shows "store32 va v s = Inr ((), s\<lparr>mem := put32 (mem s) pa v\<rparr>)"
proof -
  have "mmu_walk s (va + 1) = Some (pa + 1)" "mmu_walk s (va + 2) = Some (pa + 2)" "mmu_walk s (va + 3) = Some (pa + 3)"
    using mmu_walk_aligned4 [OF assms] by simp_all
  with assms(1) show ?thesis by (simp add: store32_def put32_def eval_nat_numeral)
qed

lemma live_store:
  assumes "live s" "table_page s T" "i < 1024"
  shows "store32 (elem T i) v s = Inr ((), poke s (elem T i) v)"
  unfolding poke_def by (rule store32_walk [OF live_at [OF assms]])

section \<open>Writing an entry\<close>

text \<open>A word of a page table is the entry of one page.\<close>

lemma poke_entry:
  fixes v :: u32
  assumes ok: "tables_shape s" and i: "present s (dir_index virt)"
  defines "s' \<equiv> poke s (elem (tab_entry s (dir_index virt)) (table_index virt)) v"
  shows "\<And>j. j < 1024 \<Longrightarrow> dir_entry s' j = dir_entry s j" "\<And>j. j < 1024 \<Longrightarrow> tab_entry s' j = tab_entry s j"
    "page_entry s' va = (if unat va div 4096 = unat virt div 4096 then v else page_entry s va)"
proof -
  let ?T = "tab_entry s (dir_index virt)"
  have slot: "page_in s (tab_entry s j)" "tab_entry s j \<noteq> pageDirectory s" "tab_entry s j \<noteq> ptPhysToVirt s"
    if "j < 1024" "present s j" for j
    using ok that unfolding tables_shape_def slot_ok_def by blast+
  note T = slot [OF index_less(1) i]
  have al: "page_aligned (pageDirectory s)" "page_aligned (ptPhysToVirt s)" "page_aligned ?T"
    using ok T(1) by (simp_all add: tables_shape_def page_in_def)
  have word: "heap_word s' (elem p j) = (if ?T = p \<and> table_index virt = j then v else heap_word s (elem p j))"
    if "page_aligned p" "j < 1024" for p j
    unfolding s'_def by (rule heap_word_poke [OF al(3) index_less(2) that])
  show ent: "dir_entry s' j = dir_entry s j" "tab_entry s' j = tab_entry s j" if "j < 1024" for j
    using word [OF al(1) that] word [OF al(2) that] T(2,3) by (simp_all add: dir_entry_def tab_entry_def s'_def)
  then have pres: "present s' j = present s j" if "j < 1024" for j using that by (simp add: present_def)
  show "page_entry s' va = (if unat va div 4096 = unat virt div 4096 then v else page_entry s va)"
  proof (cases "present s (dir_index va)")
    case True
    then have "?T = tab_entry s (dir_index va) \<longleftrightarrow> dir_index virt = dir_index va"
      using ok i unfolding tables_shape_def by (metis index_less(1))
    moreover have "page_aligned (tab_entry s (dir_index va))" using slot True by (simp add: page_in_def)
    ultimately show ?thesis
      using True pres [of "dir_index va"] ent(2) [of "dir_index va"] word [of "tab_entry s (dir_index va)" "table_index va"]
        same_indices_iff [of virt va]
      by (auto simp: page_entry_def)
  next
    case False
    then have "dir_index va \<noteq> dir_index virt" using i by auto
    then have "unat va div 4096 \<noteq> unat virt div 4096" using same_indices_iff [of va virt] by auto
    with False pres [of "dir_index va"] show ?thesis by (simp add: page_entry_def)
  qed
qed

lemma in_page:
  assumes "page_aligned T" "a \<in> block T 4096"
  shows "unat a div 4096 = unat T div 4096"
proof -
  have "unat T \<le> unat a" "unat a < unat T + 4096"
    using assms(2) mem_block_iff [OF page_block_fits [OF assms(1)], of a] by simp_all
  moreover obtain k where "unat T = 4096 * k" using assms(1) unfolding page_aligned_def by auto
  ultimately show ?thesis by (intro div_nat_eqI) simp_all
qed

text \<open>The page of \<open>virt\<close> holds no table.\<close>

definition clear_of_tables :: "'a paging_st_scheme \<Rightarrow> u32 \<Rightarrow> bool" where
  "clear_of_tables s virt \<longleftrightarrow> (\<forall>T. table_page s T \<longrightarrow> unat T div 4096 \<noteq> unat virt div 4096)"

lemma live_poke:
  fixes v :: u32
  assumes lv: "live s" and i: "present s (dir_index virt)" and clear: "clear_of_tables s virt"
  defines "s' \<equiv> poke s (elem (tab_entry s (dir_index virt)) (table_index virt)) v"
  shows "live s'" "table_page s' = table_page s"
proof -
  have ok: "tables_shape s" using lv by (simp add: live_def)
  note ent = poke_entry [OF ok i, where v = v, folded s'_def]
  have same: "pageDirectory s' = pageDirectory s" "ptPhysToVirt s' = ptPhysToVirt s" "initialBase s' = initialBase s"
      "currentBase s' = currentBase s" "cr3 s' = cr3 s" "cr0 s' = cr0 s"
    by (simp_all add: s'_def)
  have pres: "present s' j = present s j" if "j < 1024" for j using ent(1) [OF that] by (simp add: present_def)
  have shape: "tables_shape s'"
    using ok ent(1,2) pres by (simp add: tables_shape_def slot_ok_def page_in_def same)
  show tp: "table_page s' = table_page s" using pres ent(2) by (auto simp: table_page_def same fun_eq_iff)
  have "paging_on s'" "cr3 s' = kphys (pageDirectory s')" using lv by (simp_all add: live_def same paging_on_def)
  note walk' = shape_walk [OF shape refl this(2,1)]
  have "mmu_walk s' a = Some (kphys a)" if T: "table_page s T" and a: "a \<in> block T 4096" for T a
  proof -
    have "page_aligned T" using table_page_in [OF ok T] by (simp add: page_in_def)
    then have "unat a div 4096 \<noteq> unat virt div 4096" using in_page [OF _ a] clear T by (simp add: clear_of_tables_def)
    then have "mmu_walk s' a = mmu_walk s a" unfolding walk' live_walk [OF lv] by (simp add: ent(3))
    then show ?thesis using lv T a by (simp add: live_def)
  qed
  then show "live s'" using shape lv by (simp add: live_def tp same paging_on_def)
qed

section \<open>Mapping a page\<close>

lemma live_page_map_pte:
  assumes lv: "live s" and i: "present s (dir_index virt)" and clear: "clear_of_tables s virt"
  shows "page_map_pte (tab_entry s (dir_index virt)) (table_index virt) phys perm s = Inr ((), map_entry virt phys perm s)"
proof -
  let ?T = "tab_entry s (dir_index virt)" and ?j = "table_index virt"
  let ?a = "elem ?T ?j"
  have T: "table_page s ?T" unfolding table_page_def using i index_less(1) by blast
  have nz: "?T \<noteq> 0" using table_page_in [OF _ T] lv by (auto simp: live_def tables_shape_def page_in_def)
  have upd: "update_elem ?T ?j f (poke s ?a v) = Inr ((), poke s ?a (f v))" for f v
    using live_load [of "poke s ?a v" ?T ?j] live_store [of "poke s ?a v" ?T ?j] live_poke [OF assms, of v] T
    by (simp add: update_elem_def)
  have first: "update_elem ?T ?j f s = Inr ((), poke s ?a (f (heap_word s ?a)))" for f
    using live_load [OF lv T] live_store [OF lv T] by (simp add: update_elem_def)
  have "heap_word s ?a = page_entry s virt" using i by (simp add: page_entry_def)
  then show ?thesis
    using nz index_less(2) [of virt]
    by (simp add: page_map_pte_def first upd PAGE_ENTRIES_def NOT_PAGE_ALIGN PAGE_ENTRY_PRESENT_def pte_update_def
        map_entry_def or.assoc)
qed

lemma pte_update_frame:
  assumes "page_aligned phys" "perm AND 0xFFFFF000 = 0"
  shows "pte_update phys perm v AND 0xFFFFF000 = phys" "pte_update phys perm v AND 1 \<noteq> 0"
proof -
  have "pte_update phys perm v AND 0xFFFFF000 =
      (v AND 0xFFF AND 0xFFFFF000) OR (phys AND 0xFFFFF000) OR (perm AND 0xFFFFF000) OR (1 AND 0xFFFFF000)"
    by (simp add: pte_update_def bit.conj_disj_distrib2 and.assoc)
  also have "(v AND 0xFFF AND 0xFFFFF000) = 0" by simp
  finally have "pte_update phys perm v AND 0xFFFFF000 = (phys AND 0xFFFFF000) OR (perm AND 0xFFFFF000)" by simp
  then show "pte_update phys perm v AND 0xFFFFF000 = phys" using page_aligned_mask [OF assms(1)] assms(2) by simp
  show "pte_update phys perm v AND 1 \<noteq> 0" by (simp add: pte_update_def bit.conj_disj_distrib2)
qed

lemma page_map_live_run:
  assumes lv: "live s" and al: "page_aligned virt" "page_aligned phys" and i: "present s (dir_index virt)"
    and clear: "clear_of_tables s virt"
  shows "page_map virt phys perm s =
    Inr (elem (tab_entry s (dir_index virt)) (table_index virt), map_entry virt phys perm s)"
proof -
  let ?i = "dir_index virt"
  have "table_page s (pageDirectory s)" "table_page s (ptPhysToVirt s)" by (simp_all add: table_page_def)
  then have ld: "load32 (elem (pageDirectory s) ?i) s = Inr (dir_entry s ?i, s)"
      "load32 (elem (ptPhysToVirt s) ?i) s = Inr (tab_entry s ?i, s)"
    using live_load [OF lv] by (simp_all add: dir_entry_def tab_entry_def)
  have "pageDirectory s \<noteq> 0" using lv by (auto simp: live_def tables_shape_def page_in_def)
  moreover have "virt AND NOT_ALIGNED = 0" "phys AND NOT_ALIGNED = 0"
    using al by (simp_all add: NOT_ALIGNED_def NOT_PAGE_ALIGN offset_zero_iff page_aligned_def)
  moreover have "dir_entry s ?i AND PAGE_ENTRY_PRESENT \<noteq> 0" using i by (simp add: present_def PAGE_ENTRY_PRESENT_def)
  ultimately show ?thesis
    using ld live_page_map_pte [OF lv i clear] by (simp add: page_map_def Let_def)
qed

lemma map_entry_live:
  assumes lv: "live s" and i: "present s (dir_index virt)" and clear: "clear_of_tables s virt"
    and al: "page_aligned phys" "perm AND 0xFFFFF000 = 0"
  defines "s' \<equiv> map_entry virt phys perm s"
  shows "live s'" "table_page s' = table_page s" "\<And>j. j < 1024 \<Longrightarrow> present s' j = present s j"
    "mmu_walk s' va = (if unat va div 4096 = unat virt div 4096 then Some (phys + (va AND 0xFFF)) else mmu_walk s va)"
proof -
  have ok: "tables_shape s" using lv by (simp add: live_def)
  note ent = poke_entry [OF ok i, where v = "pte_update phys perm (page_entry s virt)", folded map_entry_def, folded s'_def]
  show live: "live s'" and "table_page s' = table_page s"
    using live_poke [OF lv i clear] by (simp_all add: s'_def map_entry_def)
  show "present s' j = present s j" if "j < 1024" for j using ent(1) [OF that] by (simp add: present_def)
  show "mmu_walk s' va = (if unat va div 4096 = unat virt div 4096 then Some (phys + (va AND 0xFFF)) else mmu_walk s va)"
    using pte_update_frame [OF al, of "page_entry s virt"] frame_or_offset [of phys va] page_aligned_mask [OF al(1)]
    unfolding live_walk [OF live] live_walk [OF lv] ent(3) by simp
qed

text \<open>The tables that \<open>init_paging\<close> switches to are live when the heap is mapped by them.\<close>

lemma tables_live:
  assumes ok: "tables_ok t" and z: "mem z = mem t" "pageDirectory z = pageDirectory t" "ptPhysToVirt z = ptPhysToVirt t"
      "initialBase z = initialBase t" "currentBase z = currentBase t" "cr3 z = kphys (pageDirectory t)" "paging_on z"
    and map: "\<And>a. a \<in> heap t \<Longrightarrow> mmu_walk z a = Some (kphys a)"
  shows "live z"
proof -
  have shape: "tables_shape t" and ar: "arena_ok t" using ok by (simp_all add: tables_ok_shape)
  have hw: "heap_word z a = heap_word t a" for a by (simp add: heap_word_def z(1))
  have words: "dir_entry z i = dir_entry t i" "tab_entry z i = tab_entry t i" for i
    by (simp_all add: dir_entry_def tab_entry_def z hw)
  then have pres: "present z i = present t i" for i by (simp add: present_def)
  have "tables_shape z" using shape by (simp add: tables_shape_def slot_ok_def page_in_def z words pres)
  moreover have "block T 4096 \<subseteq> heap t" if "table_page z T" for T
  proof -
    have "table_page t T" using that by (simp add: table_page_def z words pres)
    then show ?thesis by (intro page_in_heap [OF ar] table_page_in [OF shape])
  qed
  ultimately show ?thesis using map z(2,6,7) unfolding live_def by auto
qed

section \<open>Live tables and the allocator\<close>

text \<open>The part of the arena that has been handed out; the tables lie in it.\<close>

definition arena_used :: "'a alloc_st_scheme \<Rightarrow> u32 set" where
  "arena_used s = {x. initialBase s \<le> x \<and> x < currentBase s}"

lemma page_in_used:
  assumes "page_in s T"
  shows "block T 4096 \<subseteq> arena_used s"
proof
  fix x
  assume "x \<in> block T 4096"
  then have "unat T \<le> unat x" "unat x < unat T + 4096"
    using assms mem_block_iff [OF page_block_fits, of T x] by (simp_all add: page_in_def)
  then show "x \<in> arena_used s" using assms by (simp add: arena_used_def page_in_def word_le_nat_alt word_less_nat_alt)
qed

lemma live_present: "live s \<Longrightarrow> mmu_walk s va = Some pa \<Longrightarrow> present s (dir_index va)"
  by (auto simp: live_walk page_entry_def split: if_splits)

lemma live_fresh_page:
  assumes "live s" "page_aligned p" "currentBase s \<le> p"
  shows "clear_of_tables s p"
proof -
  have "unat T div 4096 \<noteq> unat p div 4096" if "table_page s T" for T
  proof -
    have "page_in s T" using table_page_in that assms(1) by (auto simp: live_def)
    then have "unat T + 4096 \<le> unat p" using assms(3) by (simp add: page_in_def word_le_nat_alt)
    then have "(unat T + 4096) div 4096 \<le> unat p div 4096" by (rule div_le_mono)
    then show ?thesis by simp
  qed
  then show ?thesis by (simp add: clear_of_tables_def)
qed

lemma live_base:
  fixes s :: "'a paging_st_scheme"
  assumes "live s" "currentBase s \<le> b"
  shows "live (s\<lparr>currentBase := b\<rparr>)"
proof -
  let ?s = "s\<lparr>currentBase := b\<rparr>"
  have same: "dir_entry ?s i = dir_entry s i" "tab_entry ?s i = tab_entry s i" for i
    by (simp_all add: dir_entry_def tab_entry_def heap_word_def)
  then have pres: "present ?s i = present s i" for i by (simp add: present_def)
  have pg: "page_in ?s T" if "page_in s T" for T using that assms(2) by (auto simp: page_in_def word_le_nat_alt)
  have "mmu_walk ?s va = mmu_walk s va" for va by (simp add: mmu_walk_def paging_on_def cong: if_cong)
  moreover have "table_page ?s = table_page s" by (simp add: table_page_def pres same fun_eq_iff)
  moreover have "tables_shape ?s"
    using assms(1) pg by (auto simp: live_def tables_shape_def slot_ok_def pres same)
  ultimately show ?thesis using assms(1) by (simp add: live_def paging_on_def)
qed

text \<open>A walk reads words of the tables only.\<close>

lemma live_reads:
  assumes "live s"
  shows "walk_reads s va \<subseteq> kphys ` arena_used s"
proof -
  have shape: "tables_shape s" and cr: "cr3 s = kphys (pageDirectory s)" using assms by (simp_all add: live_def)
  have words: "word_bytes (elem (kphys T) i) \<subseteq> kphys ` arena_used s" if "table_page s T" "i < 1024" for T i
  proof -
    have T: "page_in s T" by (rule table_page_in [OF shape that(1)])
    then have "word_bytes (elem T i) \<subseteq> arena_used s"
      using elem_in_block [of T i] that(2) page_in_used [OF T] by (auto simp: page_in_def)
    moreover have "elem (kphys T) i = kphys (elem T i)" by (simp add: elem_def kphys_plus)
    ultimately show ?thesis by (simp add: kphys_word_bytes image_mono)
  qed
  have kal: "page_aligned (kphys T)" if "table_page s T" for T
    using table_page_in [OF shape that] shape by (intro kphys_page_aligned) (auto simp: page_in_def tables_shape_def)
  have pd: "table_page s (pageDirectory s)" by (simp add: table_page_def)
  have pde: "pde_addr (cr3 s) va = elem (kphys (pageDirectory s)) (dir_index va)"
    unfolding cr by (rule pde_addr_elem [OF kal [OF pd]])
  have de: "get32 (mem s) (elem (kphys (pageDirectory s)) (dir_index va)) = dir_entry s (dir_index va)"
    by (simp add: dir_entry_def heap_word_def elem_def kphys_plus)
  have "word_bytes (pte_addr (dir_entry s (dir_index va)) va) \<subseteq> kphys ` arena_used s" if "present s (dir_index va)"
  proof -
    have T: "table_page s (tab_entry s (dir_index va))" unfolding table_page_def using that index_less(1) by blast
    have "dir_entry s (dir_index va) = kphys (tab_entry s (dir_index va)) OR 3"
      using shape that index_less(1) by (simp add: tables_shape_def slot_ok_def)
    then show ?thesis
      unfolding pte_addr_elem using words [OF T index_less(2)] masked_or_3 [OF kal [OF T]] by simp
  qed
  then show ?thesis
    using words [OF pd index_less(1)] by (auto simp: walk_reads_def Let_def pde de present_def)
qed

text \<open>Mapping a fresh page of the arena, as the later code sees it.\<close>

lemma live_map_fresh:
  fixes s :: "'a paging_st_scheme"
  assumes lv: "live s" and al: "page_aligned virt" "page_aligned phys" and walk: "mmu_walk s virt = Some pa"
    and clear: "clear_of_tables s virt"
  obtains a m where "page_map virt phys PAGE_ENTRY_RW s = Inr (a, s\<lparr>mem := m\<rparr>)" "live (s\<lparr>mem := m\<rparr>)"
    "\<And>va. mmu_walk (s\<lparr>mem := m\<rparr>) va =
       (if unat va div 4096 = unat virt div 4096 then Some (phys + (va AND 0xFFF)) else mmu_walk s va)"
    "\<And>x. x \<notin> kphys ` arena_used s \<Longrightarrow> m x = mem s x"
proof -
  let ?T = "tab_entry s (dir_index virt)"
  let ?a = "elem ?T (table_index virt)"
  let ?m = "put32 (mem s) (kphys ?a) (pte_update phys PAGE_ENTRY_RW (page_entry s virt))"
  have i: "present s (dir_index virt)" by (rule live_present [OF lv walk])
  have rw: "PAGE_ENTRY_RW AND 0xFFFFF000 = 0" by (simp add: PAGE_ENTRY_RW_def)
  have s': "map_entry virt phys PAGE_ENTRY_RW s = s\<lparr>mem := ?m\<rparr>" by (simp add: map_entry_def poke_def)
  have "table_page s ?T" unfolding table_page_def using i index_less(1) by blast
  then have T: "page_in s ?T" using table_page_in lv by (auto simp: live_def)
  then have "word_bytes ?a \<subseteq> arena_used s"
    using elem_in_block [of ?T "table_index virt"] page_in_used [OF T] by (auto simp: page_in_def)
  then have "word_bytes (kphys ?a) \<subseteq> kphys ` arena_used s" by (simp add: kphys_word_bytes image_mono)
  then have "?m x = mem s x" if "x \<notin> kphys ` arena_used s" for x
    using that by (auto simp: put32_def word_bytes_def)
  then show thesis
    using that [of ?a ?m] page_map_live_run [OF lv al i clear, of PAGE_ENTRY_RW] map_entry_live(1,4) [OF lv i clear al(2) rw, unfolded s'] s'
    by auto
qed

section \<open>Properties\<close>

text \<open>
  C25: \<open>page_map\<close> on the tables in use: for a page in the reach of an existing page table that holds no table itself, it returns
  after writing one word, the entry whose address it returns; from then on the processor translates the page to
  the frame and every other address as before, and the tables stay live.
\<close>

theorem page_map_live_tables:
  fixes s :: "'a paging_st_scheme"
  assumes "live s" "page_aligned virt" "page_aligned phys" "perm AND 0xFFFFF000 = 0"
    and "present s (dir_index virt)" "clear_of_tables s virt"
  shows "\<exists>a m. page_map virt phys perm s = Inr (a, s\<lparr>mem := m\<rparr>) \<and> live (s\<lparr>mem := m\<rparr>)
    \<and> (\<forall>va. mmu_walk (s\<lparr>mem := m\<rparr>) va =
         (if unat va div 4096 = unat virt div 4096 then Some (phys + (va AND 0xFFF)) else mmu_walk s va))
    \<and> (\<forall>x. x \<in> word_bytes (kphys a) \<or> m x = mem s x)"
proof -
  let ?a = "elem (tab_entry s (dir_index virt)) (table_index virt)"
  let ?m = "put32 (mem s) (kphys ?a) (pte_update phys perm (page_entry s virt))"
  have s': "map_entry virt phys perm s = s\<lparr>mem := ?m\<rparr>" by (simp add: map_entry_def poke_def)
  have "?m x = mem s x" if "x \<notin> word_bytes (kphys ?a)" for x using that by (auto simp: put32_def word_bytes_def)
  then show ?thesis
    using page_map_live_run [OF assms(1-3,5,6), of perm] map_entry_live [OF assms(1,5,6,3,4), unfolded s'] s'
    by (intro exI [of _ ?a] exI [of _ ?m]) auto
qed

text \<open>The tables that \<open>init_paging\<close> builds for the sample boot state are live.\<close>

lemma sample_live:
  "\<exists>s :: paging_st. live s \<and> present s (dir_index 0xC0104000) \<and> clear_of_tables s 0xC0104000"
proof -
  have room: "unat (next_table sample_boot) + 4096 * 5 \<le> unat (maxBase sample_boot)"
    by (simp add: next_table_def page_up_def PAGE_ALIGN_def PAGE_SIZE_def)
  have al: "page_aligned 0xC0104000" and lo: "0xC0000000 \<le> initialBase sample_boot" by (simp_all add: page_aligned_def)
  have up: "PAGE_ALIGN_UP 0xC0208000 = 0xC0208000" by (simp add: PAGE_ALIGN_UP_def NOT_ALIGNED_def PAGE_ALIGN_def)
  obtain c t where t: "tables_ok t" "\<forall>va. page_entry t va = kernel_entries 0xC0104000 0xC0208000 va"
      "tables_frame (new_dirs sample_boot) t"
    using init_paging_ok [OF sample_boot_ok lo room al, of "0xC0208000" 0] up by auto
  let ?z = "t\<lparr>cr3 := kphys (pageDirectory t), cr0 := cr0 t OR 0x80000000\<rparr>"
  have heap: "heap t = heap sample_boot" and ib: "initialBase t = 0xC0200000"
    using tables_frame_fields(3,9) [OF t(3)] by (simp_all add: new_dirs_def Let_def filled_def heap_def)
  have on: "paging_on ?z" using paging_bit by (simp add: paging_on_def)
  have walk: "mmu_walk ?z a = (if unat a < 1048576 then Some a else if 0xC0104000 \<le> a \<and> a < 0xC0208000 then Some (kphys a) else None)" for a
    using t(2) on by (intro kernel_entries_walk [OF t(1)]) simp_all
  have lv: "live ?z"
  proof (rule tables_live [OF t(1) _ _ _ _ _ _ on])
    show "mmu_walk ?z a = Some (kphys a)" if "a \<in> heap t" for a
      using that unfolding walk heap by (auto simp: heap_def word_le_nat_alt word_less_nat_alt)
  qed simp_all
  have shape: "tables_shape ?z" using lv by (simp add: live_def)
  have "page_entry t 0xC0104000 \<noteq> 0" unfolding t(2) [rule_format] by (simp add: kernel_entries_def kphys_def)
  then have "present t (dir_index 0xC0104000)" by (auto simp: page_entry_def split: if_splits)
  then have pres: "present ?z (dir_index 0xC0104000)" by (simp add: present_def dir_entry_def heap_word_def)
  have "unat T div 4096 \<noteq> unat (0xC0104000 :: u32) div 4096" if "table_page ?z T" for T
  proof -
    have "0xC0200000 \<le> T" using table_page_in [OF shape that] ib by (simp add: page_in_def)
    then have "3223322624 div 4096 \<le> unat T div 4096" by (intro div_le_mono) (simp add: word_le_nat_alt)
    then show ?thesis by simp
  qed
  then have "clear_of_tables ?z 0xC0104000" by (simp add: clear_of_tables_def)
  with lv pres show ?thesis by blast
qed

theorem page_map_live_tables_witness:
  "\<exists>(s :: paging_st) a m. page_map 0xC0104000 0x800000 2 s = Inr (a, s\<lparr>mem := m\<rparr>) \<and> mmu_walk (s\<lparr>mem := m\<rparr>) 0xC0104ABC = Some 0x800ABC"
proof -
  obtain s :: paging_st where s: "live s" "present s (dir_index 0xC0104000)" "clear_of_tables s 0xC0104000"
    using sample_live by blast
  have c: "page_aligned 0xC0104000" "page_aligned 0x800000" "(2 :: u32) AND 0xFFFFF000 = 0" by (simp_all add: page_aligned_def)
  obtain a m where am: "page_map 0xC0104000 0x800000 2 s = Inr (a, s\<lparr>mem := m\<rparr>)"
      "\<forall>va. mmu_walk (s\<lparr>mem := m\<rparr>) va = (if unat va div 4096 = unat (0xC0104000 :: u32) div 4096
         then Some (0x800000 + (va AND 0xFFF)) else mmu_walk s va)"
    using page_map_live_tables [OF s(1) c s(2,3)] by blast
  have "mmu_walk (s\<lparr>mem := m\<rparr>) 0xC0104ABC = Some 0x800ABC" using am(2) [rule_format, of "0xC0104ABC"] by simp
  with am(1) show ?thesis by blast
qed

end
