(* ===== verification/View.thy ===== *)
theory View
  imports Cstring Kerror
begin

text \<open>
  Virtual memory as the code above the page tables sees it. A \<^emph>\<open>view\<close> of a region is the function
  from its virtual addresses to the bytes they show; on a mapped region every load, store and string
  routine acts on the view as on flat memory. A computation that does nothing else is described by
  the views before and after it, and such descriptions compose.
\<close>

section \<open>Views\<close>

definition view :: "u32 set \<Rightarrow> (u32 \<Rightarrow> u32) \<Rightarrow> (u32 \<Rightarrow> u8) \<Rightarrow> 'a machine_scheme \<Rightarrow> bool" where
  "view D tr V s \<longleftrightarrow> mapped D tr s \<and> (\<forall>va\<in>D. mem s (tr va) = V va)"

text \<open>The string of a view, and the view after bytes are written at an address.\<close>

definition vstr :: "(u32 \<Rightarrow> u8) \<Rightarrow> u32 \<Rightarrow> u8 list \<Rightarrow> bool" where
  "vstr V a cs \<longleftrightarrow> 0 \<notin> set cs \<and> V (a + of_nat (length cs)) = 0 \<and> (\<forall>i<length cs. V (a + of_nat i) = cs ! i)"

definition vwrite :: "u32 \<Rightarrow> u8 list \<Rightarrow> (u32 \<Rightarrow> u8) \<Rightarrow> (u32 \<Rightarrow> u8)" where
  "vwrite a cs V = (\<lambda>x. if x \<in> block a (length cs) then cs ! unat (x - a) else V x)"

definition vread :: "(u32 \<Rightarrow> u8) \<Rightarrow> u32 \<Rightarrow> nat \<Rightarrow> u8 list" where
  "vread V a n = map (\<lambda>i. V (a + of_nat i)) [0..<n]"

lemma length_vread [simp]: "length (vread V a n) = n"
  by (simp add: vread_def)

lemma vread_0 [simp]: "vread V a 0 = []"
  by (simp add: vread_def)

lemma vread_nth [simp]: "i < n \<Longrightarrow> vread V a n ! i = V (a + of_nat i)"
  by (simp add: vread_def)

lemma vread_cong: "(\<And>x. x \<in> block a n \<Longrightarrow> V x = W x) \<Longrightarrow> vread V a n = vread W a n"
  by (rule nth_equalityI) (simp_all add: block_mem)

lemma vread_vwrite: "length cs \<le> 4294967296 \<Longrightarrow> vread (vwrite a cs V) a (length cs) = cs"
  by (rule nth_equalityI) (auto simp: vwrite_def addr_nat)

lemma vwrite_other: "x \<notin> block a (length cs) \<Longrightarrow> vwrite a cs V x = V x"
  by (simp add: vwrite_def)

lemma vstr_cong:
  "vstr V a cs \<Longrightarrow> (\<And>x. x \<in> block a (Suc (length cs)) \<Longrightarrow> W x = V x) \<Longrightarrow> vstr W a cs"
  unfolding vstr_def using block_mem by (metis less_Suc_eq)

lemma vstr_vread: "vstr V a cs \<Longrightarrow> vread V a (length cs) = cs"
  by (rule nth_equalityI) (auto simp: vstr_def)

lemma vstr_vwrite:
  assumes "0 \<notin> set cs" "V (a + of_nat (length cs)) = 0" "length cs < 4294967296"
  shows "vstr (vwrite a cs V) a cs"
proof -
  have "a + of_nat (length cs) \<notin> block a (length cs)"
    using assms(3) of_nat_u32_inj by (auto simp: block_def)
  then show ?thesis using assms by (auto simp: vstr_def vwrite_def addr_nat intro: block_mem)
qed

lemma vstr_unique:
  assumes "vstr V a cs" "vstr V a ds"
  shows "cs = ds"
proof -
  have "\<not> length xs < length ys" if "vstr V a xs" "vstr V a ys" for xs ys
    using that by (auto simp: vstr_def) (metis nth_mem)
  then have "length cs = length ds" using assms by (metis linorder_neqE_nat)
  then show ?thesis using vstr_vread assms by metis
qed

lemma view_cstr:
  assumes "view D tr V s" "block a (Suc (length cs)) \<subseteq> D"
  shows "cstr tr s a cs \<longleftrightarrow> vstr V a cs"
proof -
  have "mem s (tr (a + of_nat i)) = V (a + of_nat i)" if "i < Suc (length cs)" for i
    using assms that by (auto simp: view_def)
  then show ?thesis by (simp add: cstr_def vstr_def less_Suc_eq)
qed

text \<open>The view that a state itself shows.\<close>

definition shown :: "(u32 \<Rightarrow> u32) \<Rightarrow> 'a machine_scheme \<Rightarrow> u32 \<Rightarrow> u8" where
  "shown tr s = (\<lambda>va. mem s (tr va))"

lemma view_shown: "view D tr (shown tr s) s \<longleftrightarrow> mapped D tr s"
  by (simp add: view_def shown_def)

lemma view_eq_shown: "view D tr V s \<Longrightarrow> va \<in> D \<Longrightarrow> shown tr s va = V va"
  by (simp add: view_def shown_def)

lemma view_frame:
  assumes "view D tr V s" "mem s' = mem s" "cr0 s' = cr0 s" "cr3 s' = cr3 s"
  shows "view D tr V s'"
  using assms mapped_frame [of D tr s s'] by (simp add: view_def)

section \<open>Loads and stores\<close>

lemma view_load32:
  assumes "view D tr V s" "aligned4 va" "word_bytes va \<subseteq> D"
  shows "load32 va s = Inr (get32 V va, s)"
proof -
  have m: "mapped D tr s" using assms(1) by (simp add: view_def)
  have "get32 (mem s) (tr va) = get32 V va"
    using assms(1,3) vm.tr_word(1-3) [OF m assms(2,3)]
    by (simp add: get32_def view_def word_bytes_def) metis
  then show ?thesis using vm.load32_region [OF m assms(2,3)] by simp
qed

text \<open>
  \<open>writes D tr V m V'\<close>: from any state with view \<open>V\<close> the computation returns, with view \<open>V'\<close>, and
  changes nothing but memory behind \<open>D\<close>.
\<close>

definition writes ::
  "u32 set \<Rightarrow> (u32 \<Rightarrow> u32) \<Rightarrow> (u32 \<Rightarrow> u8) \<Rightarrow> ('a machine_scheme, 'b) kernel \<Rightarrow> 'b \<Rightarrow> (u32 \<Rightarrow> u8) \<Rightarrow> bool" where
  "writes D tr V m r V' \<longleftrightarrow> (\<forall>s. view D tr V s \<longrightarrow>
     (\<exists>mm. m s = Inr (r, s\<lparr>mem := mm\<rparr>) \<and> view D tr V' (s\<lparr>mem := mm\<rparr>) \<and> (\<forall>x. x \<notin> tr ` D \<longrightarrow> mm x = mem s x)))"

lemma writesE:
  assumes "writes D tr V m r V'" "view D tr V s"
  obtains mm where "m s = Inr (r, s\<lparr>mem := mm\<rparr>)" "view D tr V' (s\<lparr>mem := mm\<rparr>)"
    "\<forall>x. x \<notin> tr ` D \<longrightarrow> mm x = mem s x"
  using assms unfolding writes_def by blast

lemma writes_kreturn: "writes D tr V (kreturn r) r V"
  unfolding writes_def by (auto intro!: exI [of _ "mem _"])

lemma writes_kbind:
  fixes m :: "('a machine_scheme, 'b) kernel"
  assumes "writes D tr V m r V1" "writes D tr V1 (f r) r' V2"
  shows "writes D tr V (kbind m f) r' V2"
  unfolding writes_def
proof (intro allI impI)
  fix s :: "'a machine_scheme"
  assume v: "view D tr V s"
  obtain m1 where 1: "m s = Inr (r, s\<lparr>mem := m1\<rparr>)" "view D tr V1 (s\<lparr>mem := m1\<rparr>)"
      "\<forall>x. x \<notin> tr ` D \<longrightarrow> m1 x = mem s x" by (rule writesE [OF assms(1) v])
  obtain m2 where 2: "f r (s\<lparr>mem := m1\<rparr>) = Inr (r', s\<lparr>mem := m1, mem := m2\<rparr>)"
      "view D tr V2 (s\<lparr>mem := m1, mem := m2\<rparr>)"
      "\<forall>x. x \<notin> tr ` D \<longrightarrow> m2 x = mem (s\<lparr>mem := m1\<rparr>) x" by (rule writesE [OF assms(2) 1(2)])
  from 1(1,3) 2 show "\<exists>mm. kbind m f s = Inr (r', s\<lparr>mem := mm\<rparr>) \<and> view D tr V2 (s\<lparr>mem := mm\<rparr>)
      \<and> (\<forall>x. x \<notin> tr ` D \<longrightarrow> mm x = mem s x)" by (intro exI [of _ m2]) simp
qed

lemma kthen_kbind: "kthen m k = kbind m (\<lambda>_. k)"
  by (simp add: kthen_def kbind_def fun_eq_iff split: sum.splits)

lemma writes_kthen:
  "writes D tr V m r V1 \<Longrightarrow> writes D tr V1 k r' V2 \<Longrightarrow> writes D tr V (kthen m k) r' V2"
  unfolding kthen_kbind by (rule writes_kbind)

lemma writes_load32: "aligned4 va \<Longrightarrow> word_bytes va \<subseteq> D \<Longrightarrow> writes D tr V (load32 va) (get32 V va) V"
  unfolding writes_def by (auto simp: view_load32 intro!: exI [of _ "mem _"])

lemma writes_store32:
  assumes "aligned4 va" "word_bytes va \<subseteq> D"
  shows "writes D tr V (store32 va v) () (put32 V va v)"
  unfolding writes_def
proof (intro allI impI)
  fix s :: "'a machine_scheme"
  assume v: "view D tr V s"
  then have m: "mapped D tr s" by (simp add: view_def)
  note st = vm.store32_region [OF m assms, of v] and w = vm.tr_word [OF m assms]
  have in_D: "va \<in> D" "va + 1 \<in> D" "va + 2 \<in> D" "va + 3 \<in> D"
    using assms(2) by (simp_all add: word_bytes_def)
  have "put32 (mem s) (tr va) v (tr x) = put32 V va v x" if "x \<in> D" for x
  proof -
    have "tr x = tr y \<longleftrightarrow> x = y" if "y \<in> D" for y
      using m \<open>x \<in> D\<close> that by (auto simp: mapped_def dest: inj_onD)
    then show ?thesis
      using in_D v \<open>x \<in> D\<close> unfolding put32_def view_def w(1-3) [symmetric] by simp
  qed
  moreover have "put32 (mem s) (tr va) v x = mem s x" if "x \<notin> tr ` D" for x
    using w(4) that by (auto simp: put32_def word_bytes_def)
  ultimately show "\<exists>mm. store32 va v s = Inr ((), s\<lparr>mem := mm\<rparr>) \<and> view D tr (put32 V va v) (s\<lparr>mem := mm\<rparr>)
      \<and> (\<forall>x. x \<notin> tr ` D \<longrightarrow> mm x = mem s x)"
    using st by (auto simp: view_def)
qed

lemma writes_store8:
  assumes "va \<in> D"
  shows "writes D tr V (store8 va b) () (V(va := b))"
  unfolding writes_def
proof (intro allI impI)
  fix s :: "'a machine_scheme"
  assume v: "view D tr V s"
  then have m: "mapped D tr s" by (simp add: view_def)
  have "((mem s)(tr va := b)) (tr x) = (V(va := b)) x" if "x \<in> D" for x
    using v m that assms by (auto simp: view_def mapped_def dest: inj_onD)
  with vm.store8_region [OF m assms, of b] assms
  show "\<exists>mm. store8 va b s = Inr ((), s\<lparr>mem := mm\<rparr>) \<and> view D tr (V(va := b)) (s\<lparr>mem := mm\<rparr>)
      \<and> (\<forall>x. x \<notin> tr ` D \<longrightarrow> mm x = mem s x)"
    by (intro exI [of _ "(mem s)(tr va := b)"]) (auto simp: view_def)
qed

section \<open>The string routines on a view\<close>

text \<open>A copy is the source's bytes written at the destination.\<close>

lemma copied_view:
  assumes "copied tr dst src {..<n} s s'" "view D tr V s" "mapped D tr s'"
    and "block dst n \<subseteq> D" "block src n \<subseteq> D" "n \<le> 4294967296"
  shows "view D tr (vwrite dst (vread V src n) V) s'" "\<And>x. x \<notin> tr ` D \<Longrightarrow> mem s' x = mem s x"
proof -
  have blk: "(\<lambda>i. dst + of_nat i) ` {..<n} = block dst n" by (simp add: block_def)
  have "mem s' (tr x) = vwrite dst (vread V src n) V x" if "x \<in> D" for x
  proof (cases "x \<in> block dst n")
    case True
    then obtain i where i: "i < n" "x = dst + of_nat i" by (auto simp: block_def)
    then have "mem s' (tr x) = mem s (tr (src + of_nat i))" using assms(1) by (simp add: copied_def)
    also have "\<dots> = V (src + of_nat i)" using assms(2,5) i(1) by (auto simp: view_def)
    finally show ?thesis using True i assms(6) by (simp add: vwrite_def addr_nat)
  next
    case False
    then have "tr x \<notin> tr ` block dst n"
      using that assms(3,4) by (auto simp: mapped_def dest: inj_onD)
    then have "mem s' (tr x) = mem s (tr x)" using assms(1) by (simp add: copied_def blk)
    with False that assms(2) show ?thesis by (simp add: view_def vwrite_def)
  qed
  then show "view D tr (vwrite dst (vread V src n) V) s'" using assms(3) by (simp add: view_def)
  show "mem s' x = mem s x" if "x \<notin> tr ` D" for x
    using that assms(1,4) unfolding copied_def blk by blast
qed

lemma copied_writes:
  assumes "\<And>s. view D tr V s \<Longrightarrow> \<exists>s'. m s = Inr (r, s') \<and> copied tr dst src {..<n} s s' \<and> mapped D tr s'"
    and "block dst n \<subseteq> D" "block src n \<subseteq> D" "n \<le> 4294967296"
  shows "writes D tr V m r (vwrite dst (vread V src n) V)"
  unfolding writes_def
proof (intro allI impI)
  fix s :: "'a machine_scheme"
  assume v: "view D tr V s"
  with assms(1) obtain s' where s': "m s = Inr (r, s')" "copied tr dst src {..<n} s s'" "mapped D tr s'"
    by blast
  moreover from s'(2) obtain mm where "s' = s\<lparr>mem := mm\<rparr>" by (auto simp: copied_def)
  ultimately show "\<exists>mm. m s = Inr (r, s\<lparr>mem := mm\<rparr>) \<and> view D tr (vwrite dst (vread V src n) V) (s\<lparr>mem := mm\<rparr>)
      \<and> (\<forall>x. x \<notin> tr ` D \<longrightarrow> mm x = mem s x)"
    using copied_view [OF s'(2) v s'(3) assms(2-4)] by (intro exI [of _ mm]) auto
qed

lemma writes_memcpy:
  assumes "block dst (unat n) \<subseteq> D" "block src (unat n) \<subseteq> D"
    and "block dst (unat n) \<inter> block src (unat n) = {}"
  shows "writes D tr V (memcpy dst src n) dst (vwrite dst (vread V src (unat n)) V)"
  by (rule copied_writes [OF _ assms(1,2)])
     (use vm.memcpy_region [OF _ assms] u32_less [of n] in \<open>auto simp: view_def less_imp_le\<close>)

lemma writes_strcpy:
  assumes "block dst (length cs) \<subseteq> D" "block src (Suc (length cs)) \<subseteq> D"
    and "block dst (length cs) \<inter> block src (Suc (length cs)) = {}"
    and "vstr V src cs" "cs \<noteq> []" "unat src + length cs < 4294967296"
  shows "writes D tr V (strcpy dst src :: ('a machine_scheme, unit) kernel) () (vwrite dst cs V)"
proof -
  have blk: "block src (length cs) \<subseteq> D" using assms(2) by (simp add: block_Suc)
  have run: "\<exists>s'. strcpy dst src s = Inr ((), s') \<and> copied tr dst src {..<length cs} s s' \<and> mapped D tr s'"
    if v: "view D tr V s" for s :: "'a machine_scheme"
    using vm.strcpy_region [OF _ assms(1-3) _ assms(5,6)] view_cstr [OF v assms(2)] assms(4) v
    by (auto simp: view_def)
  have "length cs \<le> 4294967296" using assms(6) by simp
  from copied_writes [where V = V, OF run assms(1) blk this] show ?thesis by (simp add: vstr_vread [OF assms(4)])
qed

lemma writes_strlen:
  assumes "block a (Suc (length cs)) \<subseteq> D" "vstr V a cs" "length cs \<le> 2147483647"
  shows "writes D tr V (strlen a) (of_nat (length cs)) V"
proof -
  have "strlen a s = Inr (of_nat (length cs), s)" if "view D tr V s" for s :: "'a machine_scheme"
    using that vm.strlen_region [OF _ assms(1) _ assms(3)] view_cstr [OF that assms(1)] assms(2)
    by (auto simp: view_def)
  then show ?thesis by (auto simp: writes_def intro!: exI [of _ "mem _"])
qed

lemma writes_strcmp:
  assumes "block a (Suc (length cs)) \<subseteq> D" "block b (Suc (length ds)) \<subseteq> D"
    and "vstr V a cs" "vstr V b ds" "length cs \<le> 2147483647"
  shows "writes D tr V (strcmp a b) (if cs = ds then 0 else 1) V"
proof -
  have "strcmp a b s = Inr (if cs = ds then 0 else 1, s)" if "view D tr V s" for s :: "'a machine_scheme"
    using that vm.strcmp_region [OF _ assms(1,2) _ _ assms(5)] view_cstr [OF that assms(1)]
      view_cstr [OF that assms(2)] assms(3,4) by (auto simp: view_def)
  then show ?thesis by (auto simp: writes_def intro!: exI [of _ "mem _"])
qed

section \<open>Parts of a block\<close>

lemma unat_add_of_nat: "unat a + k < 4294967296 \<Longrightarrow> unat (a + of_nat k :: u32) = unat a + k"
  by (subst unat_add_small) (simp_all add: unat_of_nat_u32)

lemma sub_block: "p + q \<le> n \<Longrightarrow> block (a + of_nat p) q \<subseteq> block a n"
proof
  fix x
  assume "p + q \<le> n" "x \<in> block (a + of_nat p) q"
  then obtain i where "i < q" "x = a + of_nat (p + i)" by (auto simp: block_def add.assoc)
  moreover from this(1) \<open>p + q \<le> n\<close> have "p + i < n" by linarith
  ultimately show "x \<in> block a n" using block_mem by blast
qed

lemma sub_blocks_disjoint:
  assumes "p + q \<le> p'" "p' + q' \<le> 4294967296"
  shows "block (a + of_nat p) q \<inter> block (a + of_nat p') q' = {}"
proof (rule equals0I)
  fix x
  assume "x \<in> block (a + of_nat p) q \<inter> block (a + of_nat p') q'"
  then obtain i j where "i < q" "j < q'" "a + of_nat (p + i) = a + of_nat (p' + j)"
    by (auto simp: block_def add.assoc)
  moreover from this have "(of_nat (p + i) :: u32) = of_nat (p' + j)" by (metis add_left_imp_eq)
  ultimately show False using assms of_nat_u32_inj [of "p + i" "p' + j"] by simp
qed

lemma slots_disjoint:
  assumes "i \<noteq> j" "i < n" "j < n" "k + m * n \<le> 4294967296"
  shows "block (a + of_nat (k + m * i)) m \<inter> block (a + of_nat (k + m * j)) m = {}"
proof -
  have "block (a + of_nat (k + m * i)) m \<inter> block (a + of_nat (k + m * j)) m = {}"
    if "i < j" "j < n" for i j
  proof (rule sub_blocks_disjoint)
    have "m * i + m \<le> m * j" "m * j + m \<le> m * n"
      using that by (metis Suc_leI add.commute mult_Suc_right mult_le_mono2)+
    then show "k + m * i + m \<le> k + m * j" "k + m * j + m \<le> 4294967296" using assms(4) by linarith+
  qed
  then show ?thesis using assms(1-3) by (metis Int_commute linorder_neqE_nat)
qed

lemma slot_le: "i < n \<Longrightarrow> k + m * i + m \<le> k + m * (n :: nat)"
  by (metis Suc_leI add.assoc add.commute add_le_mono1 mult_Suc_right mult_le_mono2)

lemma word_bytes_block: "word_bytes a = block a 4"
  by (simp add: word_bytes_def block_def eval_nat_numeral lessThan_Suc insert_commute)

lemma field_bytes: "p + 4 \<le> n \<Longrightarrow> word_bytes (a + of_nat p) \<subseteq> block a n"
  unfolding word_bytes_block by (rule sub_block)

lemma aligned4_field: "aligned4 a \<Longrightarrow> p mod 4 = 0 \<Longrightarrow> aligned4 (a + of_nat p)"
proof -
  assume a: "aligned4 a" and p: "p mod 4 = 0"
  have "(p mod 4294967296) mod 4 = p mod 4" by (rule mod_mod_cancel) simp
  then have "(unat a + p mod 4294967296) mod 4 = (unat a + p) mod 4" by (metis mod_add_right_eq)
  then have "unat (a + of_nat p) mod 4 = (unat a + p) mod 4"
    by (simp add: unat_word_ariths unat_of_nat mod_mod_cancel)
  also have "\<dots> = 0" using a p by (simp add: aligned4_def mod_add_eq [symmetric])
  finally show ?thesis by (simp add: aligned4_def)
qed

lemma block_disjoint_mono:
  "A \<inter> B = {} \<Longrightarrow> A' \<subseteq> A \<Longrightarrow> B' \<subseteq> B \<Longrightarrow> A' \<inter> B' = {}"
  by blast

section \<open>Writing the fields of a structure\<close>

definition put_fields :: "u32 \<Rightarrow> (nat \<times> u32) list \<Rightarrow> (u32 \<Rightarrow> u8) \<Rightarrow> (u32 \<Rightarrow> u8)" where
  "put_fields a fs V = fold (\<lambda>(k, v) V. put32 V (a + of_nat k) v) fs V"

lemma put32_other: "x \<notin> word_bytes a \<Longrightarrow> put32 V a v x = V x"
  by (auto simp: put32_def word_bytes_def)

lemma put_fields_other:
  assumes "\<forall>(k, v) \<in> set fs. lo \<le> k \<and> k + 4 \<le> lo + n" "x \<notin> block (a + of_nat lo) n"
  shows "put_fields a fs V x = V x"
  using assms(1)
proof (induction fs arbitrary: V)
  case Nil
  then show ?case by (simp add: put_fields_def)
next
  case (Cons f fs)
  obtain k v where f: "f = (k, v)" by (cases f)
  with Cons.prems have "word_bytes (a + of_nat lo + of_nat (k - lo)) \<subseteq> block (a + of_nat lo) n"
    by (intro field_bytes) auto
  moreover have "a + of_nat lo + of_nat (k - lo) = a + of_nat k" using Cons.prems f by simp
  ultimately have "x \<notin> word_bytes (a + of_nat k)" using assms(2) by auto
  with Cons f show ?case by (simp add: put_fields_def put32_other)
qed

lemma get32_put_fields:
  assumes "aligned4 a" "distinct (map fst fs)" "\<forall>(k, v) \<in> set fs. k mod 4 = 0 \<and> k < 4294967296"
    and "p mod 4 = 0" "p < 4294967296"
  shows "get32 (put_fields a fs V) (a + of_nat p) =
    (case map_of fs p of Some v \<Rightarrow> v | None \<Rightarrow> get32 V (a + of_nat p))"
  using assms(2,3)
proof (induction fs arbitrary: V)
  case Nil
  then show ?case by (simp add: put_fields_def)
next
  case (Cons f fs)
  obtain k v where f: "f = (k, v)" by (cases f)
  have "get32 (put_fields a fs (put32 V (a + of_nat k) v)) (a + of_nat p) =
      (case map_of fs p of Some v \<Rightarrow> v | None \<Rightarrow> get32 (put32 V (a + of_nat k) v) (a + of_nat p))"
    using Cons by (simp add: f)
  moreover have "get32 (put32 V (a + of_nat k) v) (a + of_nat p) = (if k = p then v else get32 V (a + of_nat p))"
  proof (cases "k = p")
    case False
    with f Cons.prems assms(5) have "a + of_nat k \<noteq> a + of_nat p" using of_nat_u32_inj [of k p] by simp
    with f Cons.prems assms(1,4) False show ?thesis
      using get32_put32_other aligned4_field by simp
  qed simp
  moreover have "map_of fs k = None" using Cons.prems f by (simp add: map_of_eq_None_iff)
  ultimately show ?case using f by (cases "map_of fs p") (auto simp: put_fields_def)
qed

lemma get32_put_fields_mem:
  assumes "aligned4 a" "distinct (map fst fs)" "\<forall>(k, v) \<in> set fs. k mod 4 = 0 \<and> k < 4294967296"
    and "(p, v) \<in> set fs"
  shows "get32 (put_fields a fs V) (a + of_nat p) = v"
proof -
  have "map_of fs p = Some v" using assms(2,4) by simp
  moreover have "p mod 4 = 0" "p < 4294967296" using assms(3,4) by auto
  ultimately show ?thesis using get32_put_fields [OF assms(1-3)] by simp
qed

end
