(* ===== verification/Vfs.thy ===== *)
theory Vfs
  imports Paging View
begin

text \<open>
  The virtual file system layer (\<^verbatim>\<open>src/fs/vfs.c\<close>, \<^verbatim>\<open>include/fs/vfs.h\<close>): nodes are structures in
  memory, and each operation calls through a function pointer of the node when there is one. What
  the code behind a pointer does is an argument of the operation. The locale states what a file
  system promises about reading a file; a client of \<open>read_fs\<close> gets it for any file system.
\<close>

section \<open>Layout\<close>

definition NAME_LEN :: nat where "NAME_LEN = 64"
definition FS_FILE :: u32 where "FS_FILE = 0x01"
definition FS_DIRECTORY :: u32 where "FS_DIRECTORY = 0x02"

text \<open>\<open>struct dentry\<close>: 64 bytes of name, then the inode number.\<close>

definition dentry_ino :: "u32 \<Rightarrow> u32" where "dentry_ino d = d + 64"

text \<open>\<open>struct inode\<close>: 128 bytes of name and 14 words, 184 bytes in all.\<close>

definition inode_size :: u32 where "inode_size = 184"
definition inode_mask :: "u32 \<Rightarrow> u32" where "inode_mask n = n + 128"
definition inode_uid :: "u32 \<Rightarrow> u32" where "inode_uid n = n + 132"
definition inode_gid :: "u32 \<Rightarrow> u32" where "inode_gid n = n + 136"
definition inode_flags :: "u32 \<Rightarrow> u32" where "inode_flags n = n + 140"
definition inode_ino :: "u32 \<Rightarrow> u32" where "inode_ino n = n + 144"
definition inode_length :: "u32 \<Rightarrow> u32" where "inode_length n = n + 148"
definition inode_impl :: "u32 \<Rightarrow> u32" where "inode_impl n = n + 152"
definition inode_read :: "u32 \<Rightarrow> u32" where "inode_read n = n + 156"
definition inode_write :: "u32 \<Rightarrow> u32" where "inode_write n = n + 160"
definition inode_open :: "u32 \<Rightarrow> u32" where "inode_open n = n + 164"
definition inode_close :: "u32 \<Rightarrow> u32" where "inode_close n = n + 168"
definition inode_readdir :: "u32 \<Rightarrow> u32" where "inode_readdir n = n + 172"
definition inode_finddir :: "u32 \<Rightarrow> u32" where "inode_finddir n = n + 176"
definition inode_ptr :: "u32 \<Rightarrow> u32" where "inode_ptr n = n + 180"

lemmas inode_layout = inode_mask_def inode_uid_def inode_gid_def inode_flags_def inode_ino_def
  inode_length_def inode_impl_def inode_read_def inode_write_def inode_open_def inode_close_def
  inode_readdir_def inode_finddir_def inode_ptr_def

text \<open>A field of a node that lies in the region can be loaded and stored.\<close>

lemma inode_layout_nat:
  "inode_mask n = n + of_nat 128" "inode_uid n = n + of_nat 132" "inode_gid n = n + of_nat 136"
  "inode_flags n = n + of_nat 140" "inode_ino n = n + of_nat 144" "inode_length n = n + of_nat 148"
  "inode_impl n = n + of_nat 152" "inode_read n = n + of_nat 156" "inode_write n = n + of_nat 160"
  "inode_open n = n + of_nat 164" "inode_close n = n + of_nat 168" "inode_readdir n = n + of_nat 172"
  "inode_finddir n = n + of_nat 176" "inode_ptr n = n + of_nat 180"
  by (simp_all add: inode_layout)

lemma inode_fields_aligned:
  assumes "aligned4 n"
  shows "aligned4 (inode_mask n)" "aligned4 (inode_uid n)" "aligned4 (inode_gid n)" "aligned4 (inode_flags n)"
    "aligned4 (inode_ino n)" "aligned4 (inode_length n)" "aligned4 (inode_impl n)" "aligned4 (inode_read n)"
    "aligned4 (inode_write n)" "aligned4 (inode_open n)" "aligned4 (inode_close n)" "aligned4 (inode_readdir n)"
    "aligned4 (inode_finddir n)" "aligned4 (inode_ptr n)"
  unfolding inode_layout_nat by (rule aligned4_field [OF assms]; simp)+

lemma inode_fields_block:
  shows "word_bytes (inode_mask n) \<subseteq> block n 184" "word_bytes (inode_uid n) \<subseteq> block n 184"
    "word_bytes (inode_gid n) \<subseteq> block n 184" "word_bytes (inode_flags n) \<subseteq> block n 184"
    "word_bytes (inode_ino n) \<subseteq> block n 184" "word_bytes (inode_length n) \<subseteq> block n 184"
    "word_bytes (inode_impl n) \<subseteq> block n 184" "word_bytes (inode_read n) \<subseteq> block n 184"
    "word_bytes (inode_write n) \<subseteq> block n 184" "word_bytes (inode_open n) \<subseteq> block n 184"
    "word_bytes (inode_close n) \<subseteq> block n 184" "word_bytes (inode_readdir n) \<subseteq> block n 184"
    "word_bytes (inode_finddir n) \<subseteq> block n 184" "word_bytes (inode_ptr n) \<subseteq> block n 184"
  unfolding inode_layout_nat by (rule field_bytes; simp)+

section \<open>Operations\<close>

definition read_fs ::
  "(u32 \<Rightarrow> u32 \<Rightarrow> u32 \<Rightarrow> u32 \<Rightarrow> u32 \<Rightarrow> ('a machine_scheme, u32) kernel) \<Rightarrow>
     u32 \<Rightarrow> u32 \<Rightarrow> u32 \<Rightarrow> u32 \<Rightarrow> ('a machine_scheme, u32) kernel" where
  "read_fs run node offset n buffer =
     kbind (load32 (inode_read node)) (\<lambda>f.
       if f \<noteq> 0 then kbind (load32 (inode_read node)) (\<lambda>f. run f node offset n buffer)
       else kreturn 0)"

definition readdir_fs ::
  "(u32 \<Rightarrow> u32 \<Rightarrow> u32 \<Rightarrow> ('a machine_scheme, u32) kernel) \<Rightarrow> u32 \<Rightarrow> u32 \<Rightarrow> ('a machine_scheme, u32) kernel" where
  "readdir_fs run node index =
     kbind (load32 (inode_flags node)) (\<lambda>fl.
       if fl = FS_DIRECTORY then
         kbind (load32 (inode_readdir node)) (\<lambda>f.
           if f \<noteq> 0 then kbind (load32 (inode_readdir node)) (\<lambda>f. run f node index) else kreturn 0)
       else kreturn 0)"

definition finddir_fs ::
  "(u32 \<Rightarrow> u32 \<Rightarrow> u32 \<Rightarrow> ('a machine_scheme, u32) kernel) \<Rightarrow> u32 \<Rightarrow> u32 \<Rightarrow> ('a machine_scheme, u32) kernel" where
  "finddir_fs run node name =
     kbind (load32 (inode_flags node)) (\<lambda>fl.
       if fl = FS_DIRECTORY then
         kbind (load32 (inode_finddir node)) (\<lambda>f.
           if f \<noteq> 0 then kbind (load32 (inode_finddir node)) (\<lambda>f. run f node name) else kreturn 0)
       else kreturn 0)"

section \<open>What a file system promises\<close>

text \<open>
  \<open>holds s node cs\<close>: the node is a file with these bytes; \<open>room s node b n\<close>: \<open>n\<close> bytes at \<open>b\<close> can be
  written without touching the file; \<open>bytes s b n\<close> are the \<open>n\<close> bytes at \<open>b\<close>. The file system's own
  operation delivers the part of the file that was asked for, as far as the file goes.
\<close>

locale file_system =
  fixes read_op :: "u32 \<Rightarrow> u32 \<Rightarrow> u32 \<Rightarrow> u32 \<Rightarrow> ('a machine_scheme, u32) kernel"
    and holds :: "'a machine_scheme \<Rightarrow> u32 \<Rightarrow> u8 list \<Rightarrow> bool"
    and room :: "'a machine_scheme \<Rightarrow> u32 \<Rightarrow> u32 \<Rightarrow> nat \<Rightarrow> bool"
    and bytes :: "'a machine_scheme \<Rightarrow> u32 \<Rightarrow> nat \<Rightarrow> u8 list"
  assumes short: "holds s node cs \<Longrightarrow> length cs < 4294967296"
    and delivers: "holds s node cs \<Longrightarrow> room s node b (unat n) \<Longrightarrow> unat offset + unat n < 4294967296 \<Longrightarrow>
      part = take (unat n) (drop (unat offset) cs) \<Longrightarrow>
      \<exists>s'. read_op node offset n b s = Inr (of_nat (length part), s')
        \<and> bytes s' b (length part) = part \<and> holds s' node cs"
begin

text \<open>\<open>read_fs\<close> on a node whose \<open>read\<close> pointer is the file system's operation.\<close>

lemma read_fs_delivers:
  assumes "holds s node cs" "room s node b (unat n)" "unat offset + unat n < 4294967296"
    and "load32 (inode_read node) s = Inr (f, s)" "f \<noteq> 0" "run f = read_op"
    and "part = take (unat n) (drop (unat offset) cs)"
  shows "\<exists>s'. read_fs run node offset n b s = Inr (of_nat (length part), s')
    \<and> bytes s' b (length part) = part \<and> holds s' node cs"
  using delivers [OF assms(1-3,7)] assms(4-6) by (simp add: read_fs_def)

text \<open>A buffer at least as long as the file receives all of it.\<close>

lemma read_fs_whole:
  assumes "holds s node cs" "room s node b (unat n)" "length cs \<le> unat n"
    and "load32 (inode_read node) s = Inr (f, s)" "f \<noteq> 0" "run f = read_op"
  shows "\<exists>s'. read_fs run node 0 n b s = Inr (of_nat (length cs), s')
    \<and> bytes s' b (length cs) = cs \<and> holds s' node cs"
  using read_fs_delivers [OF assms(1,2), where run = run and f = f and part = cs and offset = 0] assms(3-6) by simp

text \<open>At the end of the file and after it there is nothing to read.\<close>

lemma read_fs_end:
  assumes "holds s node cs" "room s node b (unat n)" "unat offset + unat n < 4294967296"
    and "load32 (inode_read node) s = Inr (f, s)" "f \<noteq> 0" "run f = read_op" "length cs \<le> unat offset"
  shows "\<exists>s'. read_fs run node offset n b s = Inr (0, s') \<and> holds s' node cs"
  using read_fs_delivers [OF assms(1-3), where run = run and f = f and part = "[]"] assms(4-7) by auto

end

end
