(* ===== verification/Ramdisk.thy ===== *)
theory Ramdisk
  imports Vfs
begin

unbundle bit_operations_syntax

text \<open>
  The initial ramdisk (\<^verbatim>\<open>src/drivers/ramdisk.c\<close>, \<^verbatim>\<open>include/drivers/ramdisk.h\<close>): the image that the boot
  loader left in memory, a header with the number of files and one header per file, presented as a
  directory. Nodes, names and the image are bytes of machine memory. The addresses of the string
  literals, of the static \<open>dentry\<close> and of the driver's functions are chosen by the linker and come
  in the record \<open>linkage\<close>.
\<close>

section \<open>Data\<close>

text \<open>\<open>initrd_file_header_t\<close>: a magic byte, 64 bytes of name, padding, and two words, 76 bytes in all.\<close>

definition initrd_header_size :: u32 where "initrd_header_size = 4"
definition file_header_size :: u32 where "file_header_size = 76"
definition file_name :: "u32 \<Rightarrow> u32" where "file_name h = h + 1"
definition file_offset :: "u32 \<Rightarrow> u32" where "file_offset h = h + 68"
definition file_length :: "u32 \<Rightarrow> u32" where "file_length h = h + 72"

record ramdisk_st = paging_st +
  initrd_h :: u32
  file_headers :: u32
  nroot_nodes :: u32
  root :: u32
  dev :: u32
  root_nodes :: u32

record linkage =
  dentry :: u32
  dev_str :: u32
  initrd_str :: u32
  read_addr :: u32
  readdir_addr :: u32
  finddir_addr :: u32

definition file_header :: "'a ramdisk_st_scheme \<Rightarrow> u32 \<Rightarrow> u32" where
  "file_header s i = file_headers s + file_header_size * i"

definition root_node :: "'a ramdisk_st_scheme \<Rightarrow> u32 \<Rightarrow> u32" where
  "root_node s i = root_nodes s + inode_size * i"

section \<open>Reading\<close>

definition read :: "u32 \<Rightarrow> u32 \<Rightarrow> u32 \<Rightarrow> u32 \<Rightarrow> ('a ramdisk_st_scheme, u32) kernel" where
  "read node offset n buffer =
     kbind (load32 (inode_ino node)) (\<lambda>ino.
     kbind (kgets (\<lambda>s. file_header s ino)) (\<lambda>h.
     kbind (load32 (file_offset h)) (\<lambda>hoffset.
     kbind (load32 (file_length h)) (\<lambda>hlength.
       if hlength < offset then kreturn 0
       else
         (let n = (if offset + n > hlength then hlength - offset else n) in
          kthen (k_printf (Some ''%c'') [VInt hoffset])
         (kthen (memcpy buffer (hoffset + offset) n)
                (kreturn n)))))))"

section \<open>Directories\<close>

definition readdir :: "linkage \<Rightarrow> u32 \<Rightarrow> u32 \<Rightarrow> ('a ramdisk_st_scheme, u32) kernel" where
  "readdir lk node index s =
     (if node = root s \<and> index = 0 then
        kthen (strcpy (dentry lk) (dev_str lk))
       (kthen (store8 (dentry lk + 3) 0)
       (kthen (store32 (dentry_ino (dentry lk)) 0)
              (kreturn (dentry lk)))) s
      else
        (let index = index - 1 in
         if index \<ge> nroot_nodes s then kreturn 0 s
         else
           kthen (strcpy (dentry lk) (root_node s index))
          (kbind (strlen (root_node s index)) (\<lambda>n.
           kthen (store8 (dentry lk + n) 0)
          (kbind (load32 (inode_ino (root_node s index))) (\<lambda>ino.
           kthen (store32 (dentry_ino (dentry lk)) ino)
                 (kreturn (dentry lk)))))) s))"

text \<open>The loop counts with an \<open>int\<close> up to \<open>nroot_nodes\<close>; the argument counts the rounds left.\<close>

primrec finddir_loop :: "nat \<Rightarrow> u32 \<Rightarrow> u32 \<Rightarrow> ('a ramdisk_st_scheme, u32) kernel" where
  "finddir_loop 0 i name = kreturn 0"
| "finddir_loop (Suc k) i name =
     (\<lambda>s. kbind (strcmp name (root_node s i))
            (\<lambda>r. if r = 0 then kreturn (root_node s i) else finddir_loop k (i + 1) name) s)"

definition finddir :: "linkage \<Rightarrow> u32 \<Rightarrow> u32 \<Rightarrow> ('a ramdisk_st_scheme, u32) kernel" where
  "finddir lk node name s =
     (let search = (\<lambda>s. finddir_loop (nat (sint (nroot_nodes s))) 0 name s) in
      if node = root s then
        kbind (strcmp name (dev_str lk)) (\<lambda>r. if r = 0 then kgets dev else search) s
      else search s)"

section \<open>Initialisation\<close>

text \<open>The assignments that set up a directory node.\<close>

definition init_directory :: "linkage \<Rightarrow> u32 \<Rightarrow> u32 \<Rightarrow> ('a machine_scheme, unit) kernel" where
  "init_directory lk node name =
     kthen (strcpy node name)
    (kthen (store32 (inode_length node) 0)
    (kthen (store32 (inode_ino node) 0)
    (kthen (store32 (inode_gid node) 0)
    (kthen (store32 (inode_uid node) 0)
    (kthen (store32 (inode_mask node) 0)
    (kthen (store32 (inode_flags node) FS_DIRECTORY)
    (kthen (store32 (inode_read node) 0)
    (kthen (store32 (inode_write node) 0)
    (kthen (store32 (inode_open node) 0)
    (kthen (store32 (inode_close node) 0)
    (kthen (store32 (inode_readdir node) (readdir_addr lk))
    (kthen (store32 (inode_finddir node) (finddir_addr lk))
    (kthen (store32 (inode_ptr node) 0)
           (store32 (inode_impl node) 0))))))))))))))"

text \<open>One round of the loop over the files, with the addresses of the file's header and node.\<close>

definition init_file_at :: "linkage \<Rightarrow> u32 \<Rightarrow> u32 \<Rightarrow> u32 \<Rightarrow> u32 \<Rightarrow> ('a machine_scheme, unit) kernel" where
  "init_file_at lk addr h node i =
     kbind (load32 (file_offset h)) (\<lambda>offset.
     kthen (store32 (file_offset h) (offset + addr))
    (kthen (strcpy node (file_name h))
    (kthen (store32 (inode_gid node) 0)
    (kthen (store32 (inode_uid node) 0)
    (kthen (store32 (inode_mask node) 0)
    (kbind (load32 (file_length h)) (\<lambda>len.
     kthen (store32 (inode_length node) len)
    (kthen (store32 (inode_ino node) i)
    (kthen (store32 (inode_flags node) FS_FILE)
    (kthen (store32 (inode_read node) (read_addr lk))
    (kthen (store32 (inode_write node) 0)
    (kthen (store32 (inode_readdir node) 0)
    (kthen (store32 (inode_finddir node) 0)
    (kthen (store32 (inode_open node) 0)
    (kthen (store32 (inode_close node) 0)
           (store32 (inode_impl node) 0))))))))))))))))"

definition init_file :: "linkage \<Rightarrow> u32 \<Rightarrow> nat \<Rightarrow> ('a ramdisk_st_scheme, unit) kernel" where
  "init_file lk addr i =
     kbind (kgets (\<lambda>s. (file_header s (of_nat i), root_node s (of_nat i))))
       (\<lambda>(h, node). init_file_at lk addr h node (of_nat i))"

text \<open>The number of files is read again before every round.\<close>

primrec init_files :: "nat \<Rightarrow> linkage \<Rightarrow> u32 \<Rightarrow> nat \<Rightarrow> ('a ramdisk_st_scheme, unit) kernel" where
  "init_files 0 lk addr i = kreturn ()"
| "init_files (Suc fuel) lk addr i =
     kbind (kgets initrd_h) (\<lambda>p. kbind (load32 p) (\<lambda>nfiles.
       if of_nat i < nfiles then kthen (init_file lk addr i) (init_files fuel lk addr (Suc i))
       else kreturn ()))"

definition ramdisk_init :: "linkage \<Rightarrow> u32 \<Rightarrow> u32 \<Rightarrow> ('a ramdisk_st_scheme, u32) kernel" where
  "ramdisk_init lk addr n =
     kthen (kmodify (\<lambda>s. s\<lparr>initrd_h := addr, file_headers := addr + initrd_header_size\<rparr>))
    (kbind (kmalloc_early_align inode_size) (\<lambda>r.
     kthen (kmodify (\<lambda>s. s\<lparr>root := r\<rparr>))
    (kthen (init_directory lk r (initrd_str lk))
    (kbind (kmalloc_early_align inode_size) (\<lambda>d.
     kthen (kmodify (\<lambda>s. s\<lparr>dev := d\<rparr>))
    (kthen (init_directory lk d (dev_str lk))
    (kbind (load32 addr) (\<lambda>nfiles.
     kbind (kmalloc_early_align (inode_size * nfiles)) (\<lambda>ns.
     kthen (kmodify (\<lambda>s. s\<lparr>root_nodes := ns\<rparr>))
    (kbind (load32 addr) (\<lambda>nfiles.
     kthen (kmodify (\<lambda>s. s\<lparr>nroot_nodes := nfiles\<rparr>))
    (kthen (k_printfln (Some ''nfiles: %d'') [VInt nfiles])
    (kthen (init_files (Suc (unat (0xFFFFFFFF :: u32))) lk addr 0)
           (kreturn r))))))))))))))"

section \<open>Reading a file\<close>

text \<open>What the driver reads of a node's file: the place of its bytes and their number.\<close>

definition node_header :: "'a ramdisk_st_scheme \<Rightarrow> (u32 \<Rightarrow> u8) \<Rightarrow> u32 \<Rightarrow> u32" where
  "node_header s V node = file_header s (get32 V (inode_ino node))"

definition file_start :: "'a ramdisk_st_scheme \<Rightarrow> (u32 \<Rightarrow> u8) \<Rightarrow> u32 \<Rightarrow> u32" where
  "file_start s V node = get32 V (file_offset (node_header s V node))"

definition file_count :: "'a ramdisk_st_scheme \<Rightarrow> (u32 \<Rightarrow> u8) \<Rightarrow> u32 \<Rightarrow> u32" where
  "file_count s V node = get32 V (file_length (node_header s V node))"

lemmas node_reads = node_header_def file_start_def file_count_def

text \<open>The words the driver looks at are whole and lie in the region, and so do the file's bytes.\<close>

definition node_in :: "u32 set \<Rightarrow> 'a ramdisk_st_scheme \<Rightarrow> (u32 \<Rightarrow> u8) \<Rightarrow> u32 \<Rightarrow> bool" where
  "node_in D s V node \<longleftrightarrow>
     (\<forall>a \<in> {inode_ino node, file_offset (node_header s V node), file_length (node_header s V node)}.
        aligned4 a \<and> word_bytes a \<subseteq> D)
     \<and> block (file_start s V node) (unat (file_count s V node)) \<subseteq> D"

text \<open>The addresses that must keep their bytes for the node to stay the same file.\<close>

definition footprint :: "'a ramdisk_st_scheme \<Rightarrow> (u32 \<Rightarrow> u8) \<Rightarrow> u32 \<Rightarrow> u32 set" where
  "footprint s V node = word_bytes (inode_ino node) \<union> word_bytes (file_offset (node_header s V node))
     \<union> word_bytes (file_length (node_header s V node))
     \<union> block (file_start s V node) (unat (file_count s V node))"

lemma node_reads_cong:
  assumes "\<And>x. x \<in> footprint s V node \<Longrightarrow> W x = V x" "file_headers s' = file_headers s"
  shows "node_header s' W node = node_header s V node" "file_start s' W node = file_start s V node"
    "file_count s' W node = file_count s V node"
    "vread W (file_start s V node) (unat (file_count s V node))
       = vread V (file_start s V node) (unat (file_count s V node))"
proof -
  have "get32 W (inode_ino node) = get32 V (inode_ino node)"
    by (rule get32_cong) (simp add: assms(1) footprint_def)
  then show h: "node_header s' W node = node_header s V node"
    by (simp add: node_header_def file_header_def assms(2))
  show "file_start s' W node = file_start s V node" "file_count s' W node = file_count s V node"
    unfolding file_start_def file_count_def h by (rule get32_cong, simp add: assms(1) footprint_def)+
  show "vread W (file_start s V node) (unat (file_count s V node))
       = vread V (file_start s V node) (unat (file_count s V node))"
    by (rule vread_cong) (simp add: assms(1) footprint_def)
qed

lemma take_vread: "take k (drop p (vread V a n)) = vread V (a + of_nat p) (min k (n - p))"
  by (rule nth_equalityI) (auto simp: add.assoc)

lemma offset_shown: "k_printf (Some ''%c'') [VInt v] s = Inr ((), s\<lparr>con := show_text (byte_text v) (con s)\<rparr>)"
  by (rule k_printf_shows) (simp add: directive_letter conv_text_c del: arg_units.simps)

text \<open>The amount delivered, without the wrap-around of \<open>offset + size\<close>.\<close>

lemma clamp_size:
  fixes offset n len :: u32
  assumes "\<not> len < offset" "unat offset + unat n < 4294967296"
  shows "unat (if offset + n > len then len - offset else n) = min (unat n) (unat len - unat offset)"
proof -
  have "unat (offset + n) = unat offset + unat n" using assms(2) by (rule unat_add_small)
  moreover have "offset \<le> len" using assms(1) by simp
  ultimately show ?thesis by (auto simp: word_less_nat_alt word_le_nat_alt unat_sub_le)
qed

lemma read_part:
  assumes "view D tr V s" "node_in D s V node" "unat offset + unat n < 4294967296"
    and "block b (unat n) \<subseteq> D" "block b (unat n) \<inter> footprint s V node = {}"
  defines "cs \<equiv> vread V (file_start s V node) (unat (file_count s V node))"
  defines "part \<equiv> take (unat n) (drop (unat offset) cs)"
  defines "c \<equiv> if file_count s V node < offset then con s else show_text (byte_text (file_start s V node)) (con s)"
  shows "\<exists>mm. read node offset n b s = Inr (of_nat (length part), s\<lparr>con := c, mem := mm\<rparr>)
    \<and> view D tr (vwrite b part V) (s\<lparr>con := c, mem := mm\<rparr>)
    \<and> (\<forall>x. x \<notin> tr ` D \<longrightarrow> mm x = mem s x)"
proof -
  let ?h = "node_header s V node" and ?off = "file_start s V node" and ?len = "file_count s V node"
  have loads: "load32 (inode_ino node) s = Inr (get32 V (inode_ino node), s)"
      "load32 (file_offset ?h) s = Inr (?off, s)" "load32 (file_length ?h) s = Inr (?len, s)"
    using assms(2) by (simp_all add: view_load32 [OF assms(1)] node_in_def file_start_def file_count_def)
  have part: "part = vread V (?off + offset) (min (unat n) (unat ?len - unat offset))"
    by (simp add: part_def cs_def take_vread)
  show ?thesis
  proof (cases "?len < offset")
    case True
    then have none: "part = []" by (simp add: part word_less_nat_alt)
    from True loads have "read node offset n b s = Inr (0, s)"
      by (simp add: read_def node_header_def)
    moreover have "s\<lparr>con := con s, mem := mem s\<rparr> = s" "vwrite b [] V = V"
      by (simp_all add: vwrite_def)
    ultimately show ?thesis
      using none assms(1) True by (intro exI [of _ "mem s"]) (simp add: c_def)
  next
    case False
    define k where "k = (if offset + n > ?len then ?len - offset else n)"
    have k: "unat k = min (unat n) (unat ?len - unat offset)"
      unfolding k_def using False assms(3) by (rule clamp_size)
    have pk: "part = vread V (?off + offset) (unat k)" by (simp add: part k)
    have c: "k_printf (Some ''%c'') [VInt ?off] s = Inr ((), s\<lparr>con := c\<rparr>)"
      using False by (simp add: offset_shown c_def)
    let ?s = "s\<lparr>con := c\<rparr>"
    have v: "view D tr V ?s" by (rule view_frame [OF assms(1)]) simp_all
    have bD: "block b (unat k) \<subseteq> D" "block b (unat k) \<inter> footprint s V node = {}"
      using assms(4,5) block_mono [of "unat k" "unat n" b] k by auto
    have "unat offset + unat k \<le> unat ?len" using False k by (simp add: word_less_nat_alt)
    then have src: "block (?off + offset) (unat k) \<subseteq> block ?off (unat ?len)"
      using sub_block [of "unat offset" "unat k" "unat ?len" ?off] by simp
    then have sD: "block (?off + offset) (unat k) \<subseteq> D" "block b (unat k) \<inter> block (?off + offset) (unat k) = {}"
      using assms(2) bD(2) by (auto simp: node_in_def footprint_def)
    obtain mm where mm: "memcpy b (?off + offset) k ?s = Inr (b, ?s\<lparr>mem := mm\<rparr>)"
        "view D tr (vwrite b (vread V (?off + offset) (unat k)) V) (?s\<lparr>mem := mm\<rparr>)"
        "\<forall>x. x \<notin> tr ` D \<longrightarrow> mm x = mem ?s x"
      by (rule writesE [OF writes_memcpy [OF bD(1) sD] v])
    have "read node offset n b s = Inr (k, ?s\<lparr>mem := mm\<rparr>)"
      using False loads c mm(1) by (simp add: read_def node_header_def Let_def flip: k_def)
    moreover have "of_nat (length part) = k" by (simp add: pk)
    ultimately show ?thesis using mm(2,3) pk by auto
  qed
qed

section \<open>The ramdisk as a file system\<close>

definition file_holds :: "u32 set \<Rightarrow> (u32 \<Rightarrow> u32) \<Rightarrow> 'a ramdisk_st_scheme \<Rightarrow> u32 \<Rightarrow> u8 list \<Rightarrow> bool" where
  "file_holds D tr s node cs \<longleftrightarrow> mapped D tr s \<and> node_in D s (shown tr s) node
     \<and> cs = vread (shown tr s) (file_start s (shown tr s) node) (unat (file_count s (shown tr s) node))"

definition file_room :: "u32 set \<Rightarrow> (u32 \<Rightarrow> u32) \<Rightarrow> 'a ramdisk_st_scheme \<Rightarrow> u32 \<Rightarrow> u32 \<Rightarrow> nat \<Rightarrow> bool" where
  "file_room D tr s node b n \<longleftrightarrow> block b n \<subseteq> D \<and> block b n \<inter> footprint s (shown tr s) node = {}"

definition file_bytes :: "(u32 \<Rightarrow> u32) \<Rightarrow> 'a ramdisk_st_scheme \<Rightarrow> u32 \<Rightarrow> nat \<Rightarrow> u8 list" where
  "file_bytes tr s b n = vread (shown tr s) b n"

lemma footprint_in: "node_in D s V node \<Longrightarrow> footprint s V node \<subseteq> D"
  by (simp add: node_in_def footprint_def)

text \<open>A change of memory outside its footprint leaves the file alone.\<close>

lemma file_holds_frame:
  assumes "file_holds D tr s node cs" "mapped D tr s'" "file_headers s' = file_headers s"
    and "\<And>x. x \<in> footprint s (shown tr s) node \<Longrightarrow> shown tr s' x = shown tr s x"
  shows "file_holds D tr s' node cs"
  using assms(1,2) node_reads_cong [OF assms(4,3)] by (simp add: file_holds_def node_in_def)

interpretation ramdisk: file_system read "file_holds D tr" "file_room D tr" "file_bytes tr" for D tr
proof unfold_locales
  fix s :: "'a ramdisk_st_scheme" and node cs
  assume "file_holds D tr s node cs"
  then show "length cs < 4294967296" by (simp add: file_holds_def)
next
  fix s :: "'a ramdisk_st_scheme" and node cs b part and n offset :: u32
  assume holds: "file_holds D tr s node cs" and room: "file_room D tr s node b (unat n)"
    and nowrap: "unat offset + unat n < 4294967296" and part: "part = take (unat n) (drop (unat offset) cs)"
  let ?V = "shown tr s"
  have v: "view D tr ?V s" and node: "node_in D s ?V node"
    using holds by (simp_all add: file_holds_def view_shown)
  have b: "block b (unat n) \<subseteq> D" "block b (unat n) \<inter> footprint s ?V node = {}"
    using room by (simp_all add: file_room_def)
  obtain mm c where run: "read node offset n b s = Inr (of_nat (length part), s\<lparr>con := c, mem := mm\<rparr>)"
      "view D tr (vwrite b part ?V) (s\<lparr>con := c, mem := mm\<rparr>)"
    using read_part [OF v node nowrap b] holds part unfolding file_holds_def by blast
  let ?s = "s\<lparr>con := c, mem := mm\<rparr>"
  have len: "length part \<le> unat n" by (simp add: part)
  have in_b: "block b (length part) \<subseteq> block b (unat n)" by (rule block_mono [OF len])
  have "shown tr ?s x = vwrite b part ?V x" if "x \<in> D" for x
    using run(2) that by (rule view_eq_shown)
  then have "vread (shown tr ?s) b (length part) = vread (vwrite b part ?V) b (length part)"
    using in_b b(1) by (intro vread_cong) auto
  also have "\<dots> = part" using len u32_less [of n] by (intro vread_vwrite) linarith
  finally have "file_bytes tr ?s b (length part) = part" by (simp add: file_bytes_def)
  moreover have "shown tr ?s x = ?V x" if "x \<in> footprint s ?V node" for x
    using that footprint_in [OF node] b(2) in_b view_eq_shown [OF run(2)] vwrite_other
    by (metis disjoint_iff subsetD)
  then have "file_holds D tr ?s node cs"
    using run(2) by (intro file_holds_frame [OF holds]) (simp_all add: view_def)
  ultimately show "\<exists>s'. read node offset n b s = Inr (of_nat (length part), s')
      \<and> file_bytes tr s' b (length part) = part \<and> file_holds D tr s' node cs"
    using run(1) by blast
qed

end
