(* ===== verification/RamdiskInit.thy ===== *)
theory RamdiskInit
  imports Ramdisk
begin

text \<open>
  The correctness of \<open>ramdisk_init\<close> (\<^verbatim>\<open>src/drivers/ramdisk.c\<close>): from an image of named files it builds
  a root directory, the \<open>dev\<close> directory and one node per file, and turns the offsets in the file
  headers into addresses. The proof describes every step by what it does to the view of memory.
\<close>

section \<open>One directory node\<close>

definition dir_fields :: "linkage \<Rightarrow> (nat \<times> u32) list" where
  "dir_fields lk = [(148, 0), (144, 0), (136, 0), (132, 0), (128, 0), (140, FS_DIRECTORY), (156, 0), (160, 0),
     (164, 0), (168, 0), (172, readdir_addr lk), (176, finddir_addr lk), (180, 0), (152, 0)]"

definition dir_view :: "linkage \<Rightarrow> u32 \<Rightarrow> u8 list \<Rightarrow> (u32 \<Rightarrow> u8) \<Rightarrow> (u32 \<Rightarrow> u8)" where
  "dir_view lk node cs V = put_fields node (dir_fields lk) (vwrite node cs V)"

lemma block_in_node: "length cs < 128 \<Longrightarrow> block node (length cs) \<subseteq> block node 184"
  by (rule block_mono) simp

lemma init_directory_writes:
  assumes "aligned4 node" "block node 184 \<subseteq> D" "length cs < 128"
    and "vstr V src cs" "cs \<noteq> []" "unat src + length cs < 4294967296" "block src (Suc (length cs)) \<subseteq> D"
    and "block node 184 \<inter> block src (Suc (length cs)) = {}"
  shows "writes D tr V (init_directory lk node src) () (dir_view lk node cs V)"
proof -
  note al = inode_fields_aligned [OF assms(1)]
  note bl = inode_fields_block [THEN order_trans, OF assms(2)]
  have "block node (length cs) \<subseteq> D" "block node (length cs) \<inter> block src (Suc (length cs)) = {}"
    using block_in_node [OF assms(3)] assms(2,8) by blast+
  note name = writes_strcpy [OF this(1) assms(7) this(2) assms(4-6)]
  show ?thesis
    unfolding init_directory_def dir_view_def dir_fields_def put_fields_def fold.simps o_apply id_apply
      prod.case inode_layout_nat [symmetric]
    by (intro writes_kthen [OF name] writes_kthen [OF writes_store32] writes_store32 al bl)
qed

section \<open>One file node\<close>

definition file_fields :: "linkage \<Rightarrow> u32 \<Rightarrow> u32 \<Rightarrow> (nat \<times> u32) list" where
  "file_fields lk i len = [(136, 0), (132, 0), (128, 0), (148, len), (144, i), (140, FS_FILE), (156, read_addr lk),
     (160, 0), (172, 0), (176, 0), (164, 0), (168, 0), (152, 0)]"

definition file_view :: "linkage \<Rightarrow> u32 \<Rightarrow> u32 \<Rightarrow> u32 \<Rightarrow> u32 \<Rightarrow> u8 list \<Rightarrow> (u32 \<Rightarrow> u8) \<Rightarrow> (u32 \<Rightarrow> u8)" where
  "file_view lk addr h node i cs V =
     put_fields node (file_fields lk i (get32 V (file_length h)))
       (vwrite node cs (put32 V (file_offset h) (get32 V (file_offset h) + addr)))"

lemma header_layout:
  "file_name h = h + of_nat 1" "file_offset h = h + of_nat 68" "file_length h = h + of_nat 72"
  by (simp_all add: file_name_def file_offset_def file_length_def)

lemma header_fields:
  assumes "aligned4 h"
  shows "aligned4 (file_offset h)" "aligned4 (file_length h)"
    "word_bytes (file_offset h) \<subseteq> block h 76" "word_bytes (file_length h) \<subseteq> block h 76"
  unfolding header_layout by (rule aligned4_field [OF assms] field_bytes; simp)+

lemma name_block: "length cs < 64 \<Longrightarrow> block (file_name h) (Suc (length cs)) \<subseteq> block (h + of_nat 1) 64"
  unfolding header_layout by (rule block_mono) simp

lemma name_in_header: "block (h + of_nat 1) 64 \<subseteq> block h 76"
  by (rule sub_block) simp

lemma name_apart:
  "block (h + of_nat 1) 64 \<inter> word_bytes (file_offset h) = {}"
  "word_bytes (file_length h) \<inter> word_bytes (file_offset h) = {}"
  unfolding header_layout word_bytes_block
  using sub_blocks_disjoint [of 1 64 68 4 h] sub_blocks_disjoint [of 68 4 72 4 h] by (simp_all add: Int_commute)

lemma init_file_at_writes:
  assumes "aligned4 node" "block node 184 \<subseteq> D" "aligned4 h" "block h 76 \<subseteq> D" "block node 184 \<inter> block h 76 = {}"
    and "vstr V (file_name h) cs" "cs \<noteq> []" "length cs < 64" "unat h + 76 \<le> 4294967296"
  shows "writes D tr V (init_file_at lk addr h node i) () (file_view lk addr h node i cs V)"
proof -
  note al = inode_fields_aligned [OF assms(1)]
  note bl = inode_fields_block [THEN order_trans, OF assms(2)]
  note hf = header_fields [OF assms(3)]
  note hl = hf(3,4) [THEN order_trans, OF assms(4)]
  let ?V1 = "put32 V (file_offset h) (get32 V (file_offset h) + addr)"
  let ?V2 = "vwrite node cs ?V1"
  let ?V3 = "put32 (put32 (put32 ?V2 (inode_gid node) 0) (inode_uid node) 0) (inode_mask node) 0"
  have blk: "block (file_name h) (Suc (length cs)) \<subseteq> block (h + of_nat 1) 64" by (rule name_block [OF assms(8)])
  have str: "vstr ?V1 (file_name h) cs"
    using assms(6) by (rule vstr_cong) (use blk name_apart(1) [of h] in \<open>auto intro!: put32_other\<close>)
  have bn: "block node (length cs) \<subseteq> block node 184" using assms(8) by (intro block_in_node) simp
  have bh: "block (file_name h) (Suc (length cs)) \<subseteq> block h 76" by (rule order_trans [OF blk name_in_header])
  have nD: "block (file_name h) (Suc (length cs)) \<subseteq> D" "block node (length cs) \<subseteq> D"
      "block node (length cs) \<inter> block (file_name h) (Suc (length cs)) = {}"
    using bn bh assms(2,4,5) by blast+
  have "unat (file_name h) = unat h + 1"
    unfolding file_name_def using assms(9) unat_add_small [of h 1] by simp
  then have nw: "unat (file_name h) + length cs < 4294967296" using assms(8,9) by simp
  note name = writes_strcpy [OF nD(2,1,3) str assms(7) nw]
  have len: "get32 ?V3 (file_length h) = get32 V (file_length h)"
  proof (rule get32_cong)
    fix x
    assume "x \<in> word_bytes (file_length h)"
    then have out: "x \<notin> block node 184" "x \<notin> word_bytes (file_offset h)"
      using hf(4) assms(5) name_apart(2) by blast+
    then have "x \<notin> word_bytes (inode_gid node)" "x \<notin> word_bytes (inode_uid node)"
        "x \<notin> word_bytes (inode_mask node)" "x \<notin> block node (length cs)"
      using inode_fields_block(1-3) [of node] bn by blast+
    with out(2) show "?V3 x = V x" by (simp add: put32_other vwrite_other)
  qed
  show ?thesis
    unfolding init_file_at_def file_view_def file_fields_def put_fields_def fold.simps o_apply id_apply
      prod.case inode_layout_nat [symmetric] len [symmetric]
    by (intro writes_kbind [OF writes_load32] writes_kthen [OF name] writes_kthen [OF writes_store32] writes_store32
        al bl hf hl)
qed

text \<open>What a round leaves behind: the header holds an address, the node has the file's name and data.\<close>

definition file_done ::
  "linkage \<Rightarrow> u32 \<Rightarrow> u32 \<Rightarrow> u32 \<Rightarrow> u32 \<Rightarrow> u8 list \<Rightarrow> (u32 \<Rightarrow> u8) \<Rightarrow> (u32 \<Rightarrow> u8) \<Rightarrow> bool" where
  "file_done lk addr h node i cs V W \<longleftrightarrow>
     get32 W (file_offset h) = get32 V (file_offset h) + addr
     \<and> get32 W (file_length h) = get32 V (file_length h) \<and> vstr W node cs
     \<and> (\<forall>(k, v) \<in> set (file_fields lk i (get32 V (file_length h))). get32 W (node + of_nat k) = v)"

lemma fields_range:
  "\<forall>(k, v) \<in> set (file_fields lk i len). 128 \<le> k \<and> k + 4 \<le> 128 + 56"
  "\<forall>(k, v) \<in> set (file_fields lk i len). k mod 4 = 0 \<and> k < 4294967296"
  "distinct (map fst (file_fields lk i len))"
  "\<forall>(k, v) \<in> set (dir_fields lk). 128 \<le> k \<and> k + 4 \<le> 128 + 56"
  "\<forall>(k, v) \<in> set (dir_fields lk). k mod 4 = 0 \<and> k < 4294967296"
  "distinct (map fst (dir_fields lk))"
  by (simp_all add: file_fields_def dir_fields_def)

lemma node_parts:
  "block (n + of_nat 128) 56 \<subseteq> block n 184" "block n 128 \<inter> block (n + of_nat 128) 56 = {}"
  using sub_block [of 128 56 184 n] sub_blocks_disjoint [of 0 128 128 56 n] by simp_all

lemma file_view_other:
  assumes "length cs < 64" "x \<notin> block node 184" "x \<notin> word_bytes (file_offset h)"
  shows "file_view lk addr h node i cs V x = V x"
proof -
  have "x \<notin> block (node + of_nat 128) 56" "x \<notin> block node (length cs)"
    using assms(1,2) node_parts(1) [of node] block_in_node [of cs node] by auto
  then show ?thesis
    using assms(3) by (simp add: file_view_def put_fields_other [OF fields_range(1)] vwrite_other put32_other)
qed

lemma file_view_done:
  assumes "aligned4 node" "aligned4 h" "block node 184 \<inter> block h 76 = {}"
    and "0 \<notin> set cs" "length cs < 64" "V (node + of_nat (length cs)) = 0"
  shows "file_done lk addr h node i cs V (file_view lk addr h node i cs V)"
proof -
  note hf = header_fields [OF assms(2)]
  let ?W = "file_view lk addr h node i cs V"
  let ?V1 = "put32 V (file_offset h) (get32 V (file_offset h) + addr)"
  have bn: "block node (length cs) \<subseteq> block node 184" using assms(5) by (intro block_in_node) simp
  have W: "?W x = ?V1 x" if "x \<in> block h 76" for x
  proof -
    have "x \<notin> block (node + of_nat 128) 56" "x \<notin> block node (length cs)"
      using that assms(3) node_parts(1) [of node] bn by blast+
    then show ?thesis by (simp add: file_view_def put_fields_other [OF fields_range(1)] vwrite_other)
  qed
  have "get32 ?W (file_offset h) = get32 ?V1 (file_offset h)"
    by (rule get32_cong) (use W hf(3) in blast)
  moreover have "get32 ?W (file_length h) = get32 V (file_length h)"
    by (rule get32_cong) (use W hf(4) name_apart(2) [of h] put32_other in \<open>metis disjoint_iff subsetD\<close>)
  moreover have "vstr ?W node cs"
  proof (rule vstr_cong [OF vstr_vwrite])
    have "node + of_nat (length cs) \<in> block node 184" using assms(5) by auto
    then have "node + of_nat (length cs) \<notin> word_bytes (file_offset h)" using hf(3) assms(3) by blast
    then show "?V1 (node + of_nat (length cs)) = 0" using assms(6) by (simp add: put32_other)
    fix x
    assume "x \<in> block node (Suc (length cs))"
    then have "x \<in> block node 128" using block_mono [of "Suc (length cs)" 128 node] assms(5) by auto
    then have "x \<notin> block (node + of_nat 128) 56" using node_parts(2) [of node] by blast
    then show "?W x = vwrite node cs ?V1 x"
      by (simp add: file_view_def put_fields_other [OF fields_range(1)])
  qed (use assms(4,5) in simp_all)
  moreover have "get32 ?W (node + of_nat k) = v"
    if "(k, v) \<in> set (file_fields lk i (get32 V (file_length h)))" for k v
    unfolding file_view_def by (rule get32_put_fields_mem [OF assms(1) fields_range(3,2) that])
  ultimately show ?thesis by (auto simp: file_done_def)
qed

text \<open>The result depends on the bytes of the header and the node only.\<close>

lemma file_done_cong:
  assumes "file_done lk addr h node i cs V W" "aligned4 h" "length cs < 64"
    and "\<And>x. x \<in> block h 76 \<Longrightarrow> V' x = V x"
    and "\<And>x. x \<in> block h 76 \<union> block node 184 \<Longrightarrow> W' x = W x"
  shows "file_done lk addr h node i cs V' W'"
proof -
  note hf = header_fields [OF assms(2)]
  have "get32 V' (file_offset h) = get32 V (file_offset h)" "get32 V' (file_length h) = get32 V (file_length h)"
      "get32 W' (file_offset h) = get32 W (file_offset h)" "get32 W' (file_length h) = get32 W (file_length h)"
    by (rule get32_cong, use assms(4,5) hf(3,4) in blast)+
  moreover have "vstr W' node cs"
  proof (rule vstr_cong)
    show "vstr W node cs" using assms(1) by (simp add: file_done_def)
    show "W' x = W x" if "x \<in> block node (Suc (length cs))" for x
      using that assms(3,5) block_mono [of "Suc (length cs)" 184 node] by auto
  qed
  moreover have "get32 W' (node + of_nat k) = get32 W (node + of_nat k)"
    if "(k, v) \<in> set (file_fields lk i (get32 V (file_length h)))" for k v
  proof (rule get32_cong)
    have "k + 4 \<le> 184" using that fields_range(1) [of lk i "get32 V (file_length h)"] by auto
    then show "W' x = W x" if "x \<in> word_bytes (node + of_nat k)" for x
      using that assms(5) field_bytes [of k 184 node] by blast
  qed
  ultimately show ?thesis using assms(1) by (auto simp: file_done_def)
qed

section \<open>All files\<close>

definition hdr :: "u32 \<Rightarrow> nat \<Rightarrow> u32" where "hdr addr i = addr + of_nat (4 + 76 * i)"
definition nod :: "u32 \<Rightarrow> nat \<Rightarrow> u32" where "nod ns i = ns + of_nat (0 + 184 * i)"

lemma hdr_file_header: "file_headers s = addr + initrd_header_size \<Longrightarrow> file_header s (of_nat i) = hdr addr i"
  by (simp add: file_header_def file_header_size_def initrd_header_size_def hdr_def)

lemma nod_root_node: "root_nodes s = ns \<Longrightarrow> root_node s (of_nat i) = nod ns i"
  by (simp add: root_node_def inode_size_def nod_def)

text \<open>An image in the region: the number of files and a header with a non-empty name for each.\<close>

definition image_ok :: "u32 set \<Rightarrow> (u32 \<Rightarrow> u8) \<Rightarrow> u32 \<Rightarrow> u8 list list \<Rightarrow> bool" where
  "image_ok D V addr names \<longleftrightarrow> aligned4 addr \<and> names \<noteq> []
     \<and> unat addr + (4 + 76 * length names) \<le> 4294967296 \<and> block addr (4 + 76 * length names) \<subseteq> D
     \<and> get32 V addr = of_nat (length names)
     \<and> (\<forall>i<length names. vstr V (file_name (hdr addr i)) (names ! i) \<and> names ! i \<noteq> [] \<and> length (names ! i) < 64)"

text \<open>Room for \<open>n\<close> nodes: fresh zero bytes in the region, away from the image.\<close>

definition nodes_ok :: "u32 set \<Rightarrow> (u32 \<Rightarrow> u8) \<Rightarrow> u32 \<Rightarrow> u32 \<Rightarrow> nat \<Rightarrow> bool" where
  "nodes_ok D V addr ns n \<longleftrightarrow> aligned4 ns \<and> 184 * n \<le> 4294967296 \<and> block ns (184 * n) \<subseteq> D
     \<and> block ns (184 * n) \<inter> block addr (4 + 76 * n) = {} \<and> (\<forall>x \<in> block ns (184 * n). V x = 0)"

definition touched :: "u32 \<Rightarrow> u32 \<Rightarrow> nat \<Rightarrow> u32 set" where
  "touched addr ns i = block (nod ns i) 184 \<union> word_bytes (file_offset (hdr addr i))"

definition files_upto ::
  "linkage \<Rightarrow> u32 \<Rightarrow> u32 \<Rightarrow> u8 list list \<Rightarrow> (u32 \<Rightarrow> u8) \<Rightarrow> (u32 \<Rightarrow> u8) \<Rightarrow> nat \<Rightarrow> bool" where
  "files_upto lk addr ns names V W k \<longleftrightarrow>
     (\<forall>x. (\<forall>j<k. x \<notin> touched addr ns j) \<longrightarrow> W x = V x)
     \<and> (\<forall>j<k. file_done lk addr (hdr addr j) (nod ns j) (of_nat j) (names ! j) V W)"

lemma slot_blocks:
  assumes "i < n"
  shows "block (hdr addr i) 76 \<subseteq> block addr (4 + 76 * n)" "block (nod ns i) 184 \<subseteq> block ns (184 * n)"
    "word_bytes addr \<subseteq> block addr (4 + 76 * n)"
  unfolding hdr_def nod_def word_bytes_block
  using sub_block [OF slot_le [OF assms, of 4 76], of addr] sub_block [OF slot_le [OF assms, of 0 184], of ns]
    block_mono [of 4 "4 + 76 * n" addr] by simp_all

lemma slots_aligned: "aligned4 addr \<Longrightarrow> aligned4 (hdr addr i)" "aligned4 ns \<Longrightarrow> aligned4 (nod ns i)"
  unfolding hdr_def nod_def by (rule aligned4_field; simp add: mod_simps)+

lemma hdr_offset_block: "aligned4 addr \<Longrightarrow> word_bytes (file_offset (hdr addr i)) \<subseteq> block (hdr addr i) 76"
  using header_fields(3) slots_aligned(1) by blast

lemma touched_apart:
  assumes "image_ok D V addr names" "nodes_ok D V' addr ns (length names)" "i < length names"
  shows "touched addr ns i \<inter> word_bytes addr = {}"
    and "j < length names \<Longrightarrow> j \<noteq> i \<Longrightarrow> touched addr ns i \<inter> (block (hdr addr j) 76 \<union> block (nod ns j) 184) = {}"
    and "block (nod ns i) 184 \<inter> block (hdr addr i) 76 = {}"
proof -
  let ?n = "length names"
  have al: "aligned4 addr" and fit: "4 + 76 * ?n \<le> 4294967296" using assms(1) by (auto simp: image_ok_def)
  have nfit: "0 + 184 * ?n \<le> 4294967296" and ap: "block ns (184 * ?n) \<inter> block addr (4 + 76 * ?n) = {}"
    using assms(2) by (auto simp: nodes_ok_def)
  note sl = slot_blocks [of _ ?n]
  have off: "word_bytes (file_offset (hdr addr i)) \<subseteq> block (hdr addr i) 76" by (rule hdr_offset_block [OF al])
  have "block (addr + of_nat 0) 4 \<inter> block (hdr addr i) 76 = {}"
    unfolding hdr_def using slot_le [OF assms(3), of 4 76] fit by (intro sub_blocks_disjoint) linarith+
  then have "block addr 4 \<inter> block (hdr addr i) 76 = {}" by simp
  then show "touched addr ns i \<inter> word_bytes addr = {}"
    using ap off sl(2,3) [OF assms(3)] unfolding touched_def word_bytes_block by blast
  show "block (nod ns i) 184 \<inter> block (hdr addr i) 76 = {}" using ap sl(1,2) [OF assms(3)] by blast
  assume j: "j < ?n" "j \<noteq> i"
  have "block (hdr addr i) 76 \<inter> block (hdr addr j) 76 = {}"
    unfolding hdr_def by (rule slots_disjoint [OF _ assms(3) j(1) fit]) (use j(2) in simp)
  moreover have "block (nod ns i) 184 \<inter> block (nod ns j) 184 = {}"
    unfolding nod_def by (rule slots_disjoint [OF _ assms(3) j(1) nfit]) (use j(2) in simp)
  ultimately show "touched addr ns i \<inter> (block (hdr addr j) 76 \<union> block (nod ns j) 184) = {}"
    using ap off sl(1,2) [OF assms(3)] sl(1,2) [OF j(1)] unfolding touched_def by blast
qed

lemma slots_in:
  assumes "image_ok D V addr names" "nodes_ok D V' addr ns (length names)" "i < length names"
  shows "block (nod ns i) 184 \<subseteq> D" "block (hdr addr i) 76 \<subseteq> D"
  using slot_blocks(1) [OF assms(3), of addr] slot_blocks(2) [OF assms(3), of ns] assms(1,2)
  unfolding image_ok_def nodes_ok_def by blast+

text \<open>The rounds before \<open>i\<close> leave the header and the node of file \<open>i\<close> as they were.\<close>

lemma files_upto_fresh:
  assumes "image_ok D V addr names" "nodes_ok D V addr ns (length names)" "i < length names"
    and "files_upto lk addr ns names V W i" "x \<in> block (hdr addr i) 76 \<union> block (nod ns i) 184"
  shows "W x = V x"
proof -
  have "x \<notin> touched addr ns j" if "j < i" for j
    using touched_apart(2) [OF assms(1,2), of j i] that assms(3,5) by auto
  then show ?thesis using assms(4) by (simp add: files_upto_def)
qed

lemma files_upto_step:
  assumes im: "image_ok D V addr names" and nd: "nodes_ok D V addr ns (length names)"
    and i: "i < length names" and upto: "files_upto lk addr ns names V W i"
  defines "W' \<equiv> file_view lk addr (hdr addr i) (nod ns i) (of_nat i) (names ! i) W"
  shows "files_upto lk addr ns names V W' (Suc i)"
proof -
  have al: "aligned4 addr" "aligned4 ns" using im nd by (auto simp: image_ok_def nodes_ok_def)
  have name: "vstr V (file_name (hdr addr i)) (names ! i)" "length (names ! i) < 64"
    using im i by (auto simp: image_ok_def)
  have W: "W x = V x" if "x \<in> block (hdr addr i) 76 \<union> block (nod ns i) 184" for x
    by (rule files_upto_fresh [OF im nd i upto that])
  have W': "W' x = W x" if "x \<notin> touched addr ns i" for x
    using that unfolding W'_def touched_def by (intro file_view_other [OF name(2)]) auto
  have zero: "W (nod ns i + of_nat (length (names ! i))) = 0"
  proof -
    have in_node: "nod ns i + of_nat (length (names ! i)) \<in> block (nod ns i) 184" using name(2) by auto
    then have "V (nod ns i + of_nat (length (names ! i))) = 0"
      using nd slot_blocks(2) [OF i, of ns] unfolding nodes_ok_def by blast
    with in_node W show ?thesis by simp
  qed
  have "file_done lk addr (hdr addr i) (nod ns i) (of_nat i) (names ! i) W W'"
    unfolding W'_def using name zero touched_apart(3) [OF im nd i] slots_aligned al
    by (intro file_view_done) (simp_all add: vstr_def)
  then have "file_done lk addr (hdr addr i) (nod ns i) (of_nat i) (names ! i) V W'"
    by (rule file_done_cong [OF _ slots_aligned(1) [OF al(1)] name(2)]) (use W in auto)
  moreover have "file_done lk addr (hdr addr j) (nod ns j) (of_nat j) (names ! j) V W'" if j: "j < i" for j
  proof (rule file_done_cong [OF _ slots_aligned(1) [OF al(1)]])
    show "file_done lk addr (hdr addr j) (nod ns j) (of_nat j) (names ! j) V W"
      using upto j by (simp add: files_upto_def)
    show "length (names ! j) < 64" using im i j by (auto simp: image_ok_def)
    show "W' x = W x" if "x \<in> block (hdr addr j) 76 \<union> block (nod ns j) 184" for x
      using that j i touched_apart(2) [OF im nd i, of j] by (intro W') auto
  qed simp
  ultimately show ?thesis
    using upto W' by (auto simp: files_upto_def less_Suc_eq)
qed

text \<open>The words a round reads and writes are in place.\<close>

lemma init_file_round:
  assumes im: "image_ok D V addr names" and nd: "nodes_ok D V addr ns (length names)"
    and i: "i < length names" and upto: "files_upto lk addr ns names V W i"
  shows "writes D tr W (init_file_at lk addr (hdr addr i) (nod ns i) (of_nat i)) ()
    (file_view lk addr (hdr addr i) (nod ns i) (of_nat i) (names ! i) W)"
proof -
  let ?n = "length names" and ?h = "hdr addr i"
  have al: "aligned4 addr" "aligned4 ns" and fit: "unat addr + (4 + 76 * ?n) \<le> 4294967296"
    using im nd by (auto simp: image_ok_def nodes_ok_def)
  have name: "vstr V (file_name ?h) (names ! i)" "names ! i \<noteq> []" "length (names ! i) < 64"
    using im i by (auto simp: image_ok_def)
  have "W x = V x" if "x \<in> block ?h 76" for x
    by (rule files_upto_fresh [OF im nd i upto]) (use that in simp)
  then have str: "vstr W (file_name ?h) (names ! i)"
    using name_block [OF name(3), of ?h] name_in_header [of ?h] by (intro vstr_cong [OF name(1)]) blast
  have "unat ?h = unat addr + (4 + 76 * i)"
    unfolding hdr_def by (rule unat_add_of_nat) (use fit slot_le [OF i, of 4 76] in linarith)
  then have hfit: "unat ?h + 76 \<le> 4294967296" using fit slot_le [OF i, of 4 76] by linarith
  show ?thesis
    by (rule init_file_at_writes) (fact slots_aligned(2) [OF al(2)] slots_in(1) [OF im nd i] slots_aligned(1) [OF al(1)]
      slots_in(2) [OF im nd i] touched_apart(3) [OF im nd i] str name(2,3) hfit)+
qed

lemma init_files_run:
  fixes s :: "'a ramdisk_st_scheme"
  assumes im: "image_ok D V addr names" and nd: "nodes_ok D V addr ns (length names)"
    and "view D tr W s" "initrd_h s = addr" "file_headers s = addr + initrd_header_size" "root_nodes s = ns"
    and "files_upto lk addr ns names V W i" "i \<le> length names" "length names < i + fuel"
  shows "\<exists>mm W'. init_files fuel lk addr i s = Inr ((), s\<lparr>mem := mm\<rparr>) \<and> view D tr W' (s\<lparr>mem := mm\<rparr>)
    \<and> files_upto lk addr ns names V W' (length names) \<and> (\<forall>x. x \<notin> tr ` D \<longrightarrow> mm x = mem s x)"
  using assms(3-)
proof (induction fuel arbitrary: i W s)
  case 0
  then show ?case by simp
next
  case (Suc fuel)
  let ?n = "length names"
  have al: "aligned4 addr" and D: "word_bytes addr \<subseteq> D" and n: "?n < 4294967296"
    and cnt: "get32 V addr = of_nat ?n"
    using im block_mono [of 4 "4 + 76 * ?n" addr] by (auto simp: image_ok_def word_bytes_block)
  have "W x = V x" if "x \<in> word_bytes addr" for x
  proof -
    have "x \<notin> touched addr ns j" if "j < i" for j
      using touched_apart(1) [OF im nd, of j] \<open>x \<in> word_bytes addr\<close> that Suc.prems(6) by auto
    then show ?thesis using Suc.prems(5) by (simp add: files_upto_def)
  qed
  then have "get32 W addr = get32 V addr" by (rule get32_cong)
  then have load: "load32 addr s = Inr (of_nat ?n, s)"
    using view_load32 [OF Suc.prems(1) al D] cnt by simp
  show ?case
  proof (cases "i < ?n")
    case False
    with Suc.prems have "i = ?n" by simp
    then have "init_files (Suc fuel) lk addr i s = Inr ((), s\<lparr>mem := mem s\<rparr>)"
      using load Suc.prems(2) by simp
    then show ?thesis using Suc.prems(1,5) \<open>i = ?n\<close>
      by (intro exI [of _ "mem s"] exI [of _ W]) (simp del: init_files.simps)
  next
    case True
    let ?W = "file_view lk addr (hdr addr i) (nod ns i) (of_nat i) (names ! i) W"
    obtain m1 where m1: "init_file_at lk addr (hdr addr i) (nod ns i) (of_nat i) s = Inr ((), s\<lparr>mem := m1\<rparr>)"
        "view D tr ?W (s\<lparr>mem := m1\<rparr>)" "\<forall>x. x \<notin> tr ` D \<longrightarrow> m1 x = mem s x"
      by (rule writesE [OF init_file_round [OF im nd True Suc.prems(5)] Suc.prems(1)])
    have "init_file lk addr i s = Inr ((), s\<lparr>mem := m1\<rparr>)"
      using m1(1) Suc.prems(3,4) by (simp add: init_file_def hdr_file_header nod_root_node)
    moreover have "(of_nat i :: u32) < of_nat ?n"
      using True n by (simp add: word_less_nat_alt unat_of_nat_u32)
    ultimately have step: "init_files (Suc fuel) lk addr i s = init_files fuel lk addr (Suc i) (s\<lparr>mem := m1\<rparr>)"
      using load Suc.prems(2) by simp
    from Suc.IH [OF m1(2) _ _ _ files_upto_step [OF im nd True Suc.prems(5)]] True Suc.prems(2-4,7)
    show ?thesis unfolding step using m1(3) by simp
  qed
qed

section \<open>The whole disk\<close>

definition dir_done :: "linkage \<Rightarrow> u32 \<Rightarrow> u8 list \<Rightarrow> (u32 \<Rightarrow> u8) \<Rightarrow> bool" where
  "dir_done lk node cs W \<longleftrightarrow> vstr W node cs \<and> (\<forall>(k, v) \<in> set (dir_fields lk). get32 W (node + of_nat k) = v)"

lemma dir_view_other:
  assumes "length cs < 64" "x \<notin> block node 184"
  shows "dir_view lk node cs V x = V x"
proof -
  have "x \<notin> block (node + of_nat 128) 56" "x \<notin> block node (length cs)"
    using assms node_parts(1) [of node] block_in_node [of cs node] by auto
  then show ?thesis by (simp add: dir_view_def put_fields_other [OF fields_range(4)] vwrite_other)
qed

lemma dir_view_done:
  assumes "aligned4 node" "0 \<notin> set cs" "length cs < 64" "V (node + of_nat (length cs)) = 0"
  shows "dir_done lk node cs (dir_view lk node cs V)"
proof -
  have "vstr (dir_view lk node cs V) node cs"
  proof (rule vstr_cong [OF vstr_vwrite [where V = V]])
    fix x
    assume "x \<in> block node (Suc (length cs))"
    then have "x \<in> block node 128" using block_mono [of "Suc (length cs)" 128 node] assms(3) by auto
    then have "x \<notin> block (node + of_nat 128) 56" using node_parts(2) [of node] by blast
    then show "dir_view lk node cs V x = vwrite node cs V x"
      by (simp add: dir_view_def put_fields_other [OF fields_range(4)])
  qed (use assms in simp_all)
  moreover have "get32 (dir_view lk node cs V) (node + of_nat k) = v" if "(k, v) \<in> set (dir_fields lk)" for k v
    unfolding dir_view_def by (rule get32_put_fields_mem [OF assms(1) fields_range(6,5) that])
  ultimately show ?thesis by (auto simp: dir_done_def)
qed

lemma dir_done_cong:
  assumes "dir_done lk node cs W" "length cs < 64" "\<And>x. x \<in> block node 184 \<Longrightarrow> W' x = W x"
  shows "dir_done lk node cs W'"
proof -
  have "vstr W' node cs"
  proof (rule vstr_cong)
    show "vstr W node cs" using assms(1) by (simp add: dir_done_def)
    show "W' x = W x" if "x \<in> block node (Suc (length cs))" for x
      using that assms(2,3) block_mono [of "Suc (length cs)" 184 node] by auto
  qed
  moreover have "get32 W' (node + of_nat k) = get32 W (node + of_nat k)" if "(k, v) \<in> set (dir_fields lk)" for k v
  proof (rule get32_cong)
    have "k + 4 \<le> 184" using that fields_range(4) [of lk] by auto
    then show "W' x = W x" if "x \<in> word_bytes (node + of_nat k)" for x
      using that assms(3) field_bytes [of k 184 node] by blast
  qed
  ultimately show ?thesis using assms(1) by (auto simp: dir_done_def)
qed

text \<open>The page-aligned requests for one node each lie on consecutive pages.\<close>

lemma page_up_page:
  assumes "unat r mod 4096 = 0" "0 < unat k" "unat k \<le> 4096" "unat r + 4096 \<le> 4294963200"
  shows "page_up (r + k) = r + 4096"
proof -
  have u: "unat (r + k) = unat r + unat k" "unat (r + 4096) = unat r + 4096"
    using assms(3,4) by (simp_all add: unat_add_small)
  note b = page_up_bounds [of "r + k", unfolded u]
  obtain q where q: "unat r = 4096 * q" using assms(1) by auto
  obtain p where p: "unat (page_up (r + k)) = 4096 * p" using b(3) assms(3,4) by auto
  have "q < p" "p < q + 2" using b(1,2) p q assms(2-4) by linarith+
  then have "p = Suc q" by simp
  then have "unat (page_up (r + k)) = unat (r + 4096)" using p q u by simp
  then show ?thesis by (simp add: word_unat_eq_iff)
qed

lemma page_up_next:
  assumes "unat r mod 4096 = 0" "unat r + 4096 \<le> 4294963200"
  shows "page_up (r + 184) = r + 4096"
  by (rule page_up_page) (use assms in simp_all)

text \<open>A string literal of the program: outside the memory that \<open>H\<close> names.\<close>

definition literal :: "u32 set \<Rightarrow> u32 set \<Rightarrow> (u32 \<Rightarrow> u8) \<Rightarrow> u32 \<Rightarrow> u8 list \<Rightarrow> bool" where
  "literal D H V a cs \<longleftrightarrow> vstr V a cs \<and> block a (Suc (length cs)) \<subseteq> D \<and> block a (Suc (length cs)) \<inter> H = {}
     \<and> unat a + length cs < 4294967296"

definition ascii :: "string \<Rightarrow> u8 list" where
  "ascii cs = map (\<lambda>c. of_char c) cs"

lemma ascii_names:
  "ascii ''dev'' = [100, 101, 118]" "ascii ''initrd'' = [105, 110, 105, 116, 114, 100]"
  by (simp_all add: ascii_def)

lemma ascii_dev_length: "Suc (length (ascii ''dev'')) = 4"
  by (simp add: ascii_names)

definition heap_for :: "u32 \<Rightarrow> nat \<Rightarrow> u32 set" where
  "heap_for r n = block r (8192 + 184 * n)"

lemma heap_parts:
  "block r 184 \<subseteq> heap_for r n" "block (r + 4096) 184 \<subseteq> heap_for r n" "block (r + 8192) (184 * n) \<subseteq> heap_for r n"
  unfolding heap_for_def
  using sub_block [of 0 184 "8192 + 184 * n" r] sub_block [of 4096 184 "8192 + 184 * n" r]
    sub_block [of 8192 "184 * n" "8192 + 184 * n" r] by simp_all

lemma heap_parts_apart:
  assumes "8192 + 184 * n \<le> 4294967296"
  shows "block r 184 \<inter> block (r + 4096) 184 = {}" "block r 184 \<inter> block (r + 8192) (184 * n) = {}"
    "block (r + 4096) 184 \<inter> block (r + 8192) (184 * n) = {}"
  using sub_blocks_disjoint [of 0 184 4096 184 r] sub_blocks_disjoint [of 0 184 8192 "184 * n" r]
    sub_blocks_disjoint [of 4096 184 8192 "184 * n" r] assms by simp_all

text \<open>The heap blocks and the headers: all that \<open>ramdisk_init\<close> writes lies here.\<close>

definition disk_memory :: "u32 \<Rightarrow> u32 \<Rightarrow> nat \<Rightarrow> u32 set" where
  "disk_memory addr r n = heap_for r n \<union> block addr (4 + 76 * n)"

text \<open>
  What the caller of \<open>ramdisk_init\<close> provides: an image, and fresh zero memory for the nodes at
  \<open>r\<close>, apart from each other and from the program's strings.
\<close>

definition mountable :: "u32 set \<Rightarrow> linkage \<Rightarrow> (u32 \<Rightarrow> u8) \<Rightarrow> u32 \<Rightarrow> u32 \<Rightarrow> u8 list list \<Rightarrow> bool" where
  "mountable D lk V addr r names \<longleftrightarrow> image_ok D V addr names \<and> heap_for r (length names) \<subseteq> D
     \<and> heap_for r (length names) \<inter> block addr (4 + 76 * length names) = {}
     \<and> (\<forall>x \<in> heap_for r (length names). V x = 0)
     \<and> literal D (disk_memory addr r (length names)) V (initrd_str lk) (ascii ''initrd'')
     \<and> literal D (disk_memory addr r (length names)) V (dev_str lk) (ascii ''dev'')"

text \<open>The nodes among the heap: two directories and the files.\<close>

definition node_memory :: "u32 \<Rightarrow> nat \<Rightarrow> u32 set" where
  "node_memory r n = block r 184 \<union> block (r + 4096) 184 \<union> block (r + 8192) (184 * n)"

lemma node_memory_heap: "node_memory r n \<subseteq> heap_for r n"
  using heap_parts [of r n] by (simp add: node_memory_def)

text \<open>
  The disk after \<open>ramdisk_init\<close>: both directories, all files, and no other byte of the view changed.
\<close>

definition mounted :: "linkage \<Rightarrow> u32 \<Rightarrow> u32 \<Rightarrow> u8 list list \<Rightarrow> (u32 \<Rightarrow> u8) \<Rightarrow> (u32 \<Rightarrow> u8) \<Rightarrow> bool" where
  "mounted lk addr r names V W \<longleftrightarrow> dir_done lk r (ascii ''initrd'') W \<and> dir_done lk (r + 4096) (ascii ''dev'') W
     \<and> (\<forall>i<length names. file_done lk addr (hdr addr i) (nod (r + 8192) i) (of_nat i) (names ! i) V W)
     \<and> (\<forall>x. x \<notin> node_memory r (length names) \<longrightarrow> (\<forall>i<length names. x \<notin> word_bytes (file_offset (hdr addr i))) \<longrightarrow> W x = V x)"

definition dirs_view :: "linkage \<Rightarrow> u32 \<Rightarrow> (u32 \<Rightarrow> u8) \<Rightarrow> (u32 \<Rightarrow> u8)" where
  "dirs_view lk r V = dir_view lk (r + 4096) (ascii ''dev'') (dir_view lk r (ascii ''initrd'') V)"

lemma dirs_view_other:
  "x \<notin> block r 184 \<Longrightarrow> x \<notin> block (r + 4096) 184 \<Longrightarrow> dirs_view lk r V x = V x"
  unfolding dirs_view_def by (subst dir_view_other; simp add: ascii_names dir_view_other)

lemma dirs_view_done:
  assumes "aligned4 r" "aligned4 (r + 4096)" "block r 184 \<inter> block (r + 4096) 184 = {}"
    and "\<And>x. x \<in> block r 184 \<union> block (r + 4096) 184 \<Longrightarrow> V x = 0"
  shows "dir_done lk r (ascii ''initrd'') (dirs_view lk r V)"
    "dir_done lk (r + 4096) (ascii ''dev'') (dirs_view lk r V)"
proof -
  let ?V1 = "dir_view lk r (ascii ''initrd'') V"
  have "r + of_nat 6 \<in> block r 184" "r + 4096 + of_nat 3 \<in> block (r + 4096) 184" by (rule block_mem; simp)+
  moreover from this(2) assms(3) have "r + 4096 + of_nat 3 \<notin> block r 184" by blast
  ultimately have z: "V (r + of_nat 6) = 0" "?V1 (r + 4096 + of_nat 3) = 0"
    using assms(4) by (simp_all add: dir_view_other ascii_names del: of_nat_numeral)
  have "dir_done lk r (ascii ''initrd'') ?V1"
    using dir_view_done [OF assms(1), of "ascii ''initrd''" V lk] z(1) by (simp add: ascii_names)
  then show "dir_done lk r (ascii ''initrd'') (dirs_view lk r V)"
    by (rule dir_done_cong) (use assms(3) in \<open>auto simp: dirs_view_def dir_view_other ascii_names disjoint_iff\<close>)
  show "dir_done lk (r + 4096) (ascii ''dev'') (dirs_view lk r V)"
    using dir_view_done [OF assms(2), of "ascii ''dev''" ?V1 lk] z(2) by (simp add: dirs_view_def ascii_names)
qed

lemma image_ok_cong:
  assumes "image_ok D V addr names" "\<And>x. x \<in> block addr (4 + 76 * length names) \<Longrightarrow> W x = V x"
  shows "image_ok D W addr names"
proof -
  have "get32 W addr = get32 V addr"
    by (rule get32_cong) (use assms(2) block_mono [of 4 "4 + 76 * length names" addr] in \<open>auto simp: word_bytes_block\<close>)
  moreover have "vstr W (file_name (hdr addr i)) (names ! i)" if i: "i < length names" for i
  proof (rule vstr_cong)
    show "vstr V (file_name (hdr addr i)) (names ! i)" using assms(1) i by (simp add: image_ok_def)
    have "length (names ! i) < 64" using assms(1) i by (simp add: image_ok_def)
    then show "W x = V x" if "x \<in> block (file_name (hdr addr i)) (Suc (length (names ! i)))" for x
      using that name_block [of "names ! i" "hdr addr i"] name_in_header [of "hdr addr i"]
        slot_blocks(1) [OF i, of addr] by (intro assms(2)) blast
  qed
  ultimately show ?thesis using assms(1) by (simp add: image_ok_def)
qed

lemma mountable_nodes:
  assumes "mountable D lk V addr r names" "aligned4 r" "8192 + 184 * length names \<le> 4294967296"
  shows "image_ok D (dirs_view lk r V) addr names" "nodes_ok D (dirs_view lk r V) addr (r + 8192) (length names)"
proof -
  let ?n = "length names"
  note parts = heap_parts [of r ?n] and apart = heap_parts_apart [OF assms(3), of r]
  have im: "image_ok D V addr names" and ap: "heap_for r ?n \<inter> block addr (4 + 76 * ?n) = {}"
    and hD: "heap_for r ?n \<subseteq> D" and z: "\<forall>x \<in> heap_for r ?n. V x = 0"
    using assms(1) by (simp_all add: mountable_def)
  have "dirs_view lk r V x = V x" if "x \<in> block addr (4 + 76 * ?n)" for x
    using that ap parts(1,2) by (intro dirs_view_other) blast+
  then show "image_ok D (dirs_view lk r V) addr names" by (rule image_ok_cong [OF im])
  have "dirs_view lk r V x = V x" if "x \<in> block (r + 8192) (184 * ?n)" for x
    using that apart(2,3) by (intro dirs_view_other) blast+
  then have "\<forall>x \<in> block (r + 8192) (184 * ?n). dirs_view lk r V x = 0" using z parts(3) by auto
  moreover have "aligned4 (r + 8192)" using aligned4_field [OF assms(2), of 8192] by simp
  moreover have "block (r + 8192) (184 * ?n) \<subseteq> D" "block (r + 8192) (184 * ?n) \<inter> block addr (4 + 76 * ?n) = {}"
    using parts(3) hD ap by blast+
  ultimately show "nodes_ok D (dirs_view lk r V) addr (r + 8192) ?n"
    using assms(3) unfolding nodes_ok_def by linarith
qed

lemma files_mounted:
  assumes "mountable D lk V addr r names" "aligned4 r" "8192 + 184 * length names \<le> 4294967296"
    and "files_upto lk addr (r + 8192) names (dirs_view lk r V) W (length names)"
  shows "mounted lk addr r names V W"
proof -
  let ?n = "length names" and ?V = "dirs_view lk r V" and ?ns = "r + 8192"
  note parts = heap_parts [of r ?n] and apart = heap_parts_apart [OF assms(3), of r]
  have im: "image_ok D V addr names" and ap: "heap_for r ?n \<inter> block addr (4 + 76 * ?n) = {}"
    and z: "\<forall>x \<in> heap_for r ?n. V x = 0" and al: "aligned4 addr"
    using assms(1) by (auto simp: mountable_def image_ok_def)
  have al2: "aligned4 (r + 4096)" using aligned4_field [OF assms(2), of 4096] by simp
  have W: "W x = ?V x" if "\<And>i. i < ?n \<Longrightarrow> x \<notin> touched addr ?ns i" for x
    using assms(4) that by (simp add: files_upto_def)
  have keep: "W x = ?V x" if "x \<in> block r 184 \<union> block (r + 4096) 184" for x
  proof (rule W)
    fix i
    assume "i < ?n"
    then show "x \<notin> touched addr ?ns i"
      using that slot_blocks(1,2) [of i ?n] hdr_offset_block [OF al, of i] ap parts apart(2,3)
      unfolding touched_def by blast
  qed
  have dirs: "dir_done lk r (ascii ''initrd'') ?V" "dir_done lk (r + 4096) (ascii ''dev'') ?V"
    by (rule dirs_view_done [OF assms(2) al2 apart(1)], use z parts(1,2) in blast)+
  have "dir_done lk r (ascii ''initrd'') W" "dir_done lk (r + 4096) (ascii ''dev'') W"
    by (rule dir_done_cong [OF dirs(1)] dir_done_cong [OF dirs(2)], simp add: ascii_names, use keep in blast)+
  moreover have "file_done lk addr (hdr addr i) (nod ?ns i) (of_nat i) (names ! i) V W" if i: "i < ?n" for i
  proof (rule file_done_cong [OF _ slots_aligned(1) [OF al]])
    show "file_done lk addr (hdr addr i) (nod ?ns i) (of_nat i) (names ! i) ?V W"
      using assms(4) i by (simp add: files_upto_def)
    show "length (names ! i) < 64" using im i by (simp add: image_ok_def)
    show "V x = ?V x" if "x \<in> block (hdr addr i) 76" for x
      using that slot_blocks(1) [OF i, of addr] ap parts(1,2) by (intro dirs_view_other [symmetric]) blast+
  qed simp
  moreover have "W x = V x" if "x \<notin> node_memory r ?n" "\<forall>i<?n. x \<notin> word_bytes (file_offset (hdr addr i))" for x
  proof -
    have "x \<notin> touched addr ?ns i" if "i < ?n" for i
      using \<open>x \<notin> node_memory r ?n\<close> \<open>\<forall>i<?n. x \<notin> word_bytes (file_offset (hdr addr i))\<close> that
        slot_blocks(2) [OF that, of ?ns] unfolding touched_def node_memory_def by blast
    then have "W x = ?V x" by (rule W)
    also have "\<dots> = V x" using \<open>x \<notin> node_memory r ?n\<close> by (intro dirs_view_other) (auto simp: node_memory_def)
    finally show ?thesis .
  qed
  ultimately show ?thesis by (simp add: mounted_def)
qed

section \<open>Running \<open>ramdisk_init\<close>\<close>

lemma nfiles_prints: "prints_only (k_printfln (Some ''nfiles: %d'') [VInt v])"
  by (rule prints_only_printfln [where ks = "[KInt]"]) (simp_all add: conv_kinds_def)

lemma literal_directory:
  assumes "literal D H V src cs" "cs \<noteq> []" "length cs < 64" "aligned4 node" "block node 184 \<subseteq> H" "H \<subseteq> D"
  shows "writes D tr V (init_directory lk node src) () (dir_view lk node cs V)"
    and "literal D H V a ds \<Longrightarrow> literal D H (dir_view lk node cs V) a ds"
proof -
  have src: "vstr V src cs" "block src (Suc (length cs)) \<subseteq> D" "block src (Suc (length cs)) \<inter> H = {}"
      "unat src + length cs < 4294967296"
    using assms(1) by (simp_all add: literal_def)
  show "writes D tr V (init_directory lk node src) () (dir_view lk node cs V)"
    using assms(3,5,6) src by (intro init_directory_writes assms(2,4)) auto
  assume ds: "literal D H V a ds"
  have "vstr (dir_view lk node cs V) a ds"
  proof (rule vstr_cong)
    show "vstr V a ds" using ds by (simp add: literal_def)
    show "dir_view lk node cs V x = V x" if "x \<in> block a (Suc (length ds))" for x
      using that ds assms(5) by (intro dir_view_other [OF assms(3)]) (auto simp: literal_def)
  qed
  with ds show "literal D H (dir_view lk node cs V) a ds" by (simp add: literal_def)
qed

text \<open>The three blocks that \<open>ramdisk_init\<close> asks for start at consecutive pages.\<close>

lemma mount_pages:
  fixes s :: "'a alloc_st_scheme"
  assumes "arena_ok s" "page_up (currentBase s) = r" "unat r + 8192 + 184 * n \<le> unat (maxBase s)" "n > 0"
  shows "aligned4 r" "page_up (r + 184) = r + 4096" "page_up (r + 4096 + 184) = r + 8192"
    "unat (r + 4096) = unat r + 4096" "unat (r + 8192) = unat r + 8192" "8192 + 184 * n \<le> 4294967296"
    "unat (inode_size * of_nat n) = 184 * n" "inode_size * of_nat n \<noteq> (0 :: u32)"
proof -
  have cb: "unat (currentBase s) \<le> 4294963200" and mx: "unat (maxBase s) \<le> 4294963200"
    using assms(1) by (auto simp: arena_ok_def word_le_nat_alt)
  have r: "unat r mod 4096 = 0" using page_up_bounds(3) [OF cb] assms(2) by simp
  then show "aligned4 r" unfolding aligned4_def by (metis page_mod_4 mod_0)
  show u: "unat (r + 4096) = unat r + 4096" "unat (r + 8192) = unat r + 8192"
    using assms(3) mx by (simp_all add: unat_add_small)
  show fit: "8192 + 184 * n \<le> 4294967296" using assms(3) mx by linarith
  show "page_up (r + 184) = r + 4096" "page_up (r + 4096 + 184) = r + 8192"
    using page_up_next [of r] page_up_next [of "r + 4096"] r assms(3,4) mx u by (simp_all add: mod_simps)
  show un: "unat (inode_size * of_nat n) = 184 * n"
    using unat_of_nat_u32 [of "184 * n"] fit by (simp add: inode_size_def)
  then show "inode_size * of_nat n \<noteq> (0 :: u32)" using assms(4) by auto
qed

text \<open>The two directories: an aligned node for each, with its fields.\<close>

lemma ramdisk_init_dirs:
  fixes s :: "'a ramdisk_st_scheme"
  assumes "view D tr V s" "mountable D lk V addr r names" "arena_ok s" "page_up (currentBase s) = r"
    and "unat r + 8192 + 184 * length names \<le> unat (maxBase s)"
  shows "\<exists>t. ramdisk_init lk addr n s =
      kbind (load32 addr) (\<lambda>nfiles.
      kbind (kmalloc_early_align (inode_size * nfiles)) (\<lambda>ns.
      kthen (kmodify (\<lambda>s. s\<lparr>root_nodes := ns\<rparr>))
     (kbind (load32 addr) (\<lambda>nfiles.
      kthen (kmodify (\<lambda>s. s\<lparr>nroot_nodes := nfiles\<rparr>))
     (kthen (k_printfln (Some ''nfiles: %d'') [VInt nfiles])
     (kthen (init_files (Suc (unat (0xFFFFFFFF :: u32))) lk addr 0)
            (kreturn r))))))) t
    \<and> view D tr (dirs_view lk r V) t \<and> arena_ok t \<and> currentBase t = r + 4096 + 184 \<and> maxBase t = maxBase s
    \<and> initrd_h t = addr \<and> file_headers t = addr + initrd_header_size \<and> root t = r \<and> dev t = r + 4096
    \<and> interrupts_kept s t \<and> (\<forall>x. x \<notin> tr ` D \<longrightarrow> mem t x = mem s x)"
proof -
  let ?H = "disk_memory addr r (length names)" and ?d = "r + 4096"
  have n0: "length names > 0" using assms(2) by (simp add: mountable_def image_ok_def)
  note pg = mount_pages [OF assms(3-5) n0]
  have al: "aligned4 r" and al2: "aligned4 ?d" using pg(1) aligned4_field [of r 4096] by simp_all
  have H: "?H \<subseteq> D" and lits: "literal D ?H V (initrd_str lk) (ascii ''initrd'')" "literal D ?H V (dev_str lk) (ascii ''dev'')"
    using assms(2) by (simp_all add: mountable_def disk_memory_def image_ok_def)
  have hp: "block r 184 \<subseteq> ?H" "block ?d 184 \<subseteq> ?H"
    using heap_parts(1,2) [of r "length names"] by (auto simp: disk_memory_def)
  let ?s1 = "s\<lparr>initrd_h := addr, file_headers := addr + initrd_header_size\<rparr>"
  have "arena_ok ?s1" using assms(3) by (simp add: arena_ok_def)
  note a1 = kmalloc_early_align_run [OF this, of inode_size]
  have m1: "kmalloc_early_align inode_size ?s1 = Inr (r, ?s1\<lparr>currentBase := r + 184\<rparr>)"
    and ok1: "arena_ok (?s1\<lparr>currentBase := r + 184\<rparr>)"
    using a1 assms(4,5) by (simp_all add: inode_size_def)
  let ?s2 = "?s1\<lparr>currentBase := r + 184, root := r\<rparr>"
  have v2: "view D tr V ?s2" by (rule view_frame [OF assms(1)]) simp_all
  obtain mm1 where w1: "init_directory lk r (initrd_str lk) ?s2 = Inr ((), ?s2\<lparr>mem := mm1\<rparr>)"
      "view D tr (dir_view lk r (ascii ''initrd'') V) (?s2\<lparr>mem := mm1\<rparr>)" "\<forall>x. x \<notin> tr ` D \<longrightarrow> mm1 x = mem ?s2 x"
    by (rule writesE [OF literal_directory(1) [OF lits(1) _ _ al hp(1) H] v2]) (simp_all add: ascii_names)
  let ?s3 = "?s2\<lparr>mem := mm1\<rparr>"
  have "arena_ok ?s3" using ok1 by (simp add: arena_ok_def)
  note a2 = kmalloc_early_align_run [OF this, of inode_size]
  have m2: "kmalloc_early_align inode_size ?s3 = Inr (?d, ?s3\<lparr>currentBase := ?d + 184\<rparr>)"
    and ok2: "arena_ok (?s3\<lparr>currentBase := ?d + 184\<rparr>)"
    using a2 assms(5) by (simp_all add: inode_size_def pg(2,4))
  let ?s4 = "?s3\<lparr>currentBase := ?d + 184, dev := ?d\<rparr>"
  have v4: "view D tr (dir_view lk r (ascii ''initrd'') V) ?s4" by (rule view_frame [OF w1(2)]) simp_all
  have lit2: "literal D ?H (dir_view lk r (ascii ''initrd'') V) (dev_str lk) (ascii ''dev'')"
    by (rule literal_directory(2) [OF lits(1) _ _ al hp(1) H lits(2)]) (simp_all add: ascii_names)
  obtain mm2 where w2: "init_directory lk ?d (dev_str lk) ?s4 = Inr ((), ?s4\<lparr>mem := mm2\<rparr>)"
      "view D tr (dirs_view lk r V) (?s4\<lparr>mem := mm2\<rparr>)" "\<forall>x. x \<notin> tr ` D \<longrightarrow> mm2 x = mem ?s4 x"
    unfolding dirs_view_def
    by (rule writesE [OF literal_directory(1) [OF lit2 _ _ al2 hp(2) H] v4]) (simp_all add: ascii_names)
  show ?thesis
  proof (intro exI conjI)
    show "view D tr (dirs_view lk r V) (?s4\<lparr>mem := mm2\<rparr>)" by (rule w2(2))
    show "arena_ok (?s4\<lparr>mem := mm2\<rparr>)" using ok2 by (simp add: arena_ok_def)
    show "interrupts_kept s (?s4\<lparr>mem := mm2\<rparr>)" by (simp add: interrupts_kept_def)
  qed (use m1 w1(1,3) m2 w2(1,3) in \<open>simp_all add: ramdisk_init_def\<close>)
qed

text \<open>The state in which the disk is in use.\<close>

definition disk_state :: "u32 \<Rightarrow> u32 \<Rightarrow> nat \<Rightarrow> 'a ramdisk_st_scheme \<Rightarrow> bool" where
  "disk_state addr r n s \<longleftrightarrow> initrd_h s = addr \<and> file_headers s = addr + initrd_header_size \<and> root s = r
     \<and> dev s = r + 4096 \<and> root_nodes s = r + 8192 \<and> nroot_nodes s = of_nat n"

lemma ramdisk_init_run:
  fixes s :: "'a ramdisk_st_scheme"
  assumes "view D tr V s" "mountable D lk V addr r names" "arena_ok s" "page_up (currentBase s) = r"
    and "unat r + 8192 + 184 * length names \<le> unat (maxBase s)"
  shows "\<exists>s' W. ramdisk_init lk addr n s = Inr (r, s') \<and> view D tr W s' \<and> mounted lk addr r names V W
    \<and> disk_state addr r (length names) s' \<and> arena_ok s'
    \<and> unat (currentBase s') = unat r + 8192 + 184 * length names \<and> (\<forall>x. x \<notin> tr ` D \<longrightarrow> mem s' x = mem s x)
    \<and> interrupts_kept s s'"
proof -
  let ?n = "length names" and ?ns = "r + 8192"
  have im: "image_ok D V addr names" using assms(2) by (simp add: mountable_def)
  have n0: "?n > 0" using im by (simp add: image_ok_def)
  note pg = mount_pages [OF assms(3-5) n0]
  note nodes = mountable_nodes [OF assms(2) pg(1,6)]
  obtain t where t: "ramdisk_init lk addr n s =
      kbind (load32 addr) (\<lambda>nfiles.
      kbind (kmalloc_early_align (inode_size * nfiles)) (\<lambda>ns.
      kthen (kmodify (\<lambda>s. s\<lparr>root_nodes := ns\<rparr>))
     (kbind (load32 addr) (\<lambda>nfiles.
      kthen (kmodify (\<lambda>s. s\<lparr>nroot_nodes := nfiles\<rparr>))
     (kthen (k_printfln (Some ''nfiles: %d'') [VInt nfiles])
     (kthen (init_files (Suc (unat (0xFFFFFFFF :: u32))) lk addr 0)
            (kreturn r))))))) t"
    "view D tr (dirs_view lk r V) t" "arena_ok t" "currentBase t = r + 4096 + 184" "maxBase t = maxBase s"
    "initrd_h t = addr" "file_headers t = addr + initrd_header_size" "root t = r" "dev t = r + 4096"
    "interrupts_kept s t" "\<forall>x. x \<notin> tr ` D \<longrightarrow> mem t x = mem s x"
    using ramdisk_init_dirs [OF assms] by blast
  have head: "aligned4 addr" "word_bytes addr \<subseteq> D" "get32 (dirs_view lk r V) addr = of_nat ?n"
    using nodes(1) block_mono [of 4 "4 + 76 * ?n" addr] by (auto simp: image_ok_def word_bytes_block)
  have load: "load32 addr u = Inr (of_nat ?n, u)" if "view D tr (dirs_view lk r V) u" for u :: "'a ramdisk_st_scheme"
    using view_load32 [OF that head(1,2)] head(3) by simp
  let ?t1 = "t\<lparr>currentBase := ?ns + inode_size * of_nat ?n\<rparr>"
  have alloc: "kmalloc_early_align (inode_size * of_nat ?n) t = Inr (?ns, ?t1)" "arena_ok ?t1"
    using kmalloc_early_align_run [OF t(3) pg(8), unfolded t(4,5) pg(3,5,7), OF assms(5)] by simp_all
  let ?t2 = "?t1\<lparr>root_nodes := ?ns, nroot_nodes := of_nat ?n\<rparr>"
  obtain c where pr: "k_printfln (Some ''nfiles: %d'') [VInt (of_nat ?n)] ?t2 = Inr ((), ?t2\<lparr>con := c\<rparr>)"
    by (rule prints_onlyE [OF nfiles_prints])
  let ?t3 = "?t2\<lparr>con := c\<rparr>"
  have v: "view D tr (dirs_view lk r V) (?t1\<lparr>root_nodes := ?ns\<rparr>)" "view D tr (dirs_view lk r V) ?t3"
    by (rule view_frame [OF t(2)]; simp)+
  have none: "files_upto lk addr ?ns names (dirs_view lk r V) (dirs_view lk r V) 0" by (simp add: files_upto_def)
  have fuel: "?n < 0 + Suc (unat (0xFFFFFFFF :: u32))" using pg(6) by simp
  obtain mm W where run: "init_files (Suc (unat (0xFFFFFFFF :: u32))) lk addr 0 ?t3 = Inr ((), ?t3\<lparr>mem := mm\<rparr>)"
      "view D tr W (?t3\<lparr>mem := mm\<rparr>)" "files_upto lk addr ?ns names (dirs_view lk r V) W ?n"
      "\<forall>x. x \<notin> tr ` D \<longrightarrow> mm x = mem ?t3 x"
    using init_files_run [OF nodes v(2) _ _ _ none _ fuel] t(6,7) by (simp del: init_files.simps) blast
  have "ramdisk_init lk addr n s = Inr (r, ?t3\<lparr>mem := mm\<rparr>)"
    using load [OF t(2)] load [OF v(1)] alloc(1) pr run(1) by (simp add: t(1))
  moreover have "mounted lk addr r names V W" by (rule files_mounted [OF assms(2) pg(1,6) run(3)])
  moreover have "disk_state addr r ?n (?t3\<lparr>mem := mm\<rparr>)" using t(6-9) by (simp add: disk_state_def)
  moreover have "arena_ok (?t3\<lparr>mem := mm\<rparr>)" using alloc(2) by (simp add: arena_ok_def)
  moreover have "unat (currentBase (?t3\<lparr>mem := mm\<rparr>)) = unat r + 8192 + 184 * ?n"
    using assms(5) u32_less [of "maxBase s"] by (simp add: unat_add_small pg(5,7) del: u32_less)
  moreover have "\<forall>x. x \<notin> tr ` D \<longrightarrow> mem (?t3\<lparr>mem := mm\<rparr>) x = mem s x" using run(4) t(11) by simp
  moreover have "interrupts_kept s (?t3\<lparr>mem := mm\<rparr>)" using t(10) by (simp add: interrupts_kept_def)
  ultimately show ?thesis using run(2) by blast
qed

end
