(* ===== verification/Initrd.thy ===== *)
theory Initrd
  imports Prelude
begin

text \<open>
  The tool that builds the ramdisk image (\<^verbatim>\<open>misc/initrd.c\<close>), run on the build host with the arguments
  \<open>path name path name \<dots>\<close>. The header table is the byte array that the program keeps on its stack; what
  it holds before the first assignment, and what a fresh buffer of \<open>malloc\<close> holds, are arguments of the
  model. So is the host's file system, once as the first loop finds it and once as the second does. Messages
  to the terminal are left out.
\<close>

section \<open>The program\<close>

datatype tool_error =
    NotFound "u8 list"
  | Corrupt

definition initrd_header :: nat where "initrd_header = 76"
definition nheaders_max :: nat where "nheaders_max = 64"

text \<open>Places of the fields in \<open>headers[i]\<close>.\<close>

definition h_magic :: "nat \<Rightarrow> nat" where "h_magic i = initrd_header * i"
definition h_name :: "nat \<Rightarrow> nat" where "h_name i = initrd_header * i + 1"
definition h_offset :: "nat \<Rightarrow> nat" where "h_offset i = initrd_header * i + 68"
definition h_length :: "nat \<Rightarrow> nat" where "h_length i = initrd_header * i + 72"

definition le_bytes :: "u32 \<Rightarrow> u8 list" where
  "le_bytes w = [byte_of 0 w, byte_of 1 w, byte_of 2 w, byte_of 3 w]"

text \<open>Bytes written into the array; past its end the program is undefined.\<close>

definition poke :: "nat \<Rightarrow> u8 list \<Rightarrow> u8 list \<Rightarrow> tool_error + u8 list" where
  "poke p bs hs = (if p + length bs \<le> length hs then Inr (take p hs @ bs @ drop (p + length bs) hs) else Inl Corrupt)"

definition sum_bind :: "'e + 'a \<Rightarrow> ('a \<Rightarrow> 'e + 'b) \<Rightarrow> 'e + 'b" where
  "sum_bind m f = (case m of Inl e \<Rightarrow> Inl e | Inr x \<Rightarrow> f x)"

text \<open>The first loop: one header per pair of arguments, \<open>k\<close> pairs to go.\<close>

primrec scan_files ::
  "nat \<Rightarrow> (u8 list \<Rightarrow> u8 list option) \<Rightarrow> u8 list list \<Rightarrow> nat \<Rightarrow> u32 \<Rightarrow> u8 list \<Rightarrow> tool_error + u32 \<times> u8 list" where
  "scan_files 0 files argv i off hs = Inr (off, hs)"
| "scan_files (Suc k) files argv i off hs =
     sum_bind (poke (h_name i) (argv ! (i * 2 + 2) @ [0]) hs) (\<lambda>hs.
     sum_bind (poke (h_offset i) (le_bytes off) hs) (\<lambda>hs.
     case files (argv ! (i * 2 + 1)) of
       None \<Rightarrow> Inl (NotFound (argv ! (i * 2 + 1)))
     | Some data \<Rightarrow>
         (let len = of_nat (length data) in
          sum_bind (poke (h_length i) (le_bytes len) hs) (\<lambda>hs.
          sum_bind (poke (h_magic i) [0xBF] hs) (\<lambda>hs.
            scan_files k files argv (Suc i) (off + len) hs)))))"

text \<open>
  The second loop: \<open>fread\<close> takes what the file has, at most the length in the header; \<open>fwrite\<close> writes that
  length, from the buffer's old bytes where the file was shorter.
\<close>

definition header_length :: "u8 list \<Rightarrow> nat \<Rightarrow> u32" where
  "header_length hs i =
     le32 (hs ! h_length i) (hs ! (h_length i + 1)) (hs ! (h_length i + 2)) (hs ! (h_length i + 3))"

primrec copy_files ::
  "nat \<Rightarrow> (u8 list \<Rightarrow> u8 list option) \<Rightarrow> (nat \<Rightarrow> u8) \<Rightarrow> u8 list list \<Rightarrow> nat \<Rightarrow> u8 list \<Rightarrow> tool_error + u8 list" where
  "copy_files 0 files fresh argv i hs = Inr []"
| "copy_files (Suc k) files fresh argv i hs =
     (case files (argv ! (i * 2 + 1)) of
        None \<Rightarrow> Inl Corrupt
      | Some data \<Rightarrow>
          (let n = unat (header_length hs i); got = take n data in
           sum_bind (copy_files k files fresh argv (Suc i) hs)
             (\<lambda>rest. Inr (got @ map fresh [length got..<n] @ rest))))"

definition initrd_main ::
  "(u8 list \<Rightarrow> u8 list option) \<Rightarrow> (u8 list \<Rightarrow> u8 list option) \<Rightarrow> (nat \<Rightarrow> u8) \<Rightarrow> u8 list \<Rightarrow> u8 list list \<Rightarrow> tool_error + u8 list" where
  "initrd_main files files' fresh stack argv =
     (let nheaders = (length argv - 1) div 2 in
      sum_bind (scan_files nheaders files argv 0 (of_nat (initrd_header * nheaders_max + 4)) stack) (\<lambda>(off, hs).
      sum_bind (copy_files nheaders files' fresh argv 0 hs) (\<lambda>data.
        Inr (le_bytes (of_nat nheaders) @ hs @ data))))"

section \<open>The header table\<close>

definition word_at :: "u8 list \<Rightarrow> nat \<Rightarrow> u32" where
  "word_at bs p = le32 (bs ! p) (bs ! (p + 1)) (bs ! (p + 2)) (bs ! (p + 3))"

lemma length_le_bytes [simp]: "length (le_bytes w) = 4"
  by (simp add: le_bytes_def)

lemma sum_bind_Inr [simp]: "sum_bind (Inr x) f = f x"
  by (simp add: sum_bind_def)

lemma poke_ok:
  assumes "p + length bs \<le> length hs"
  shows "\<exists>hs'. poke p bs hs = Inr hs' \<and> length hs' = length hs
    \<and> (\<forall>j<length hs. hs' ! j = (if p \<le> j \<and> j < p + length bs then bs ! (j - p) else hs ! j))"
  using assms by (auto simp: poke_def nth_append)

text \<open>A finished header: magic byte, terminated name, offset and length.\<close>

definition header_ok :: "u8 list \<Rightarrow> nat \<Rightarrow> u8 list \<Rightarrow> u32 \<Rightarrow> u32 \<Rightarrow> bool" where
  "header_ok hs i name off len \<longleftrightarrow> hs ! h_magic i = 0xBF
     \<and> (\<forall>j<length name. hs ! (h_name i + j) = name ! j) \<and> hs ! (h_name i + length name) = 0
     \<and> word_at hs (h_offset i) = off \<and> word_at hs (h_length i) = len"

lemma word_at_written:
  assumes "\<forall>j<4. bs ! (p + j) = le_bytes w ! j"
  shows "word_at bs p = w"
proof -
  have "bs ! p = byte_of 0 w" "bs ! (p + 1) = byte_of (Suc 0) w" "bs ! (p + 2) = byte_of 2 w" "bs ! (p + 3) = byte_of 3 w"
    using assms [rule_format, of 0] assms [rule_format, of 1] assms [rule_format, of 2] assms [rule_format, of 3]
    by (simp_all add: le_bytes_def)
  then show ?thesis by (simp add: word_at_def)
qed

text \<open>One round writes header \<open>i\<close> and nothing else.\<close>

lemma header_round:
  assumes len: "length hs = 4864" and i: "i < 64" and name: "length name < 64"
  obtains h1 h2 h3 h4 where
    "poke (h_name i) (name @ [0]) hs = Inr h1" "poke (h_offset i) (le_bytes off) h1 = Inr h2"
    "poke (h_length i) (le_bytes w) h2 = Inr h3" "poke (h_magic i) [0xBF] h3 = Inr h4"
    "length h4 = 4864" "header_ok h4 i name off w"
    "\<forall>j<4864. j < 76 * i \<or> 76 * i + 76 \<le> j \<longrightarrow> h4 ! j = hs ! j"
proof -
  note pl = h_magic_def h_name_def h_offset_def h_length_def initrd_header_def
  have b: "76 * i + 76 \<le> 4864" using i by simp
  obtain h1 where 1: "poke (h_name i) (name @ [0]) hs = Inr h1" "length h1 = 4864"
      "\<forall>j<4864. h1 ! j = (if 76 * i + 1 \<le> j \<and> j < 76 * i + 1 + Suc (length name) then (name @ [0]) ! (j - (76 * i + 1)) else hs ! j)"
    using poke_ok [of "h_name i" "name @ [0]" hs] name b len by (auto simp: pl)
  obtain h2 where 2: "poke (h_offset i) (le_bytes off) h1 = Inr h2" "length h2 = 4864"
      "\<forall>j<4864. h2 ! j = (if 76 * i + 68 \<le> j \<and> j < 76 * i + 72 then le_bytes off ! (j - (76 * i + 68)) else h1 ! j)"
    using poke_ok [of "h_offset i" "le_bytes off" h1] b 1(2) by (auto simp: pl)
  obtain h3 where 3: "poke (h_length i) (le_bytes w) h2 = Inr h3" "length h3 = 4864"
      "\<forall>j<4864. h3 ! j = (if 76 * i + 72 \<le> j \<and> j < 76 * i + 76 then le_bytes w ! (j - (76 * i + 72)) else h2 ! j)"
    using poke_ok [of "h_length i" "le_bytes w" h2] b 2(2) by (auto simp: pl)
  obtain h4 where 4: "poke (h_magic i) [0xBF] h3 = Inr h4" "length h4 = 4864"
      "\<forall>j<4864. h4 ! j = (if j = 76 * i then 0xBF else h3 ! j)"
    using poke_ok [of "h_magic i" "[0xBF]" h3] b 3(2) by (auto simp: pl)
  have at: "h4 ! (76 * i + k) = (if k = 0 then 0xBF else if 72 \<le> k then le_bytes w ! (k - 72)
      else if 68 \<le> k then le_bytes off ! (k - 68) else if k < 1 + Suc (length name) then (name @ [0]) ! (k - 1)
      else hs ! (76 * i + k))" if "k < 76" for k
  proof -
    have "76 * i + k < 4864" using that b by linarith
    then show ?thesis using 1(3) 2(3) 3(3) 4(3) that by auto
  qed
  have "word_at h4 (h_offset i) = off" "word_at h4 (h_length i) = w"
    by (rule word_at_written, simp add: pl at add.assoc)+
  moreover have "h4 ! (76 * i + 1 + j) = name ! j" if "j < length name" for j
    using at [of "Suc j"] that name by (simp add: nth_append)
  moreover have "h4 ! (76 * i + 1 + length name) = 0" using at [of "Suc (length name)"] name by simp
  ultimately have ok: "header_ok h4 i name off w"
    using at [of 0] by (simp add: header_ok_def pl)
  have rest: "\<forall>j<4864. j < 76 * i \<or> 76 * i + 76 \<le> j \<longrightarrow> h4 ! j = hs ! j"
    using 1(3) 2(3) 3(3) 4(3) name by auto
  show ?thesis by (rule that [OF 1(1) 2(1) 3(1) 4(1,2) ok rest])
qed

text \<open>A header reads its own 76 bytes.\<close>

lemma header_ok_cong:
  assumes "header_ok hs i name off w" "length name < 64" "\<And>k. k < 76 \<Longrightarrow> hs' ! (76 * i + k) = hs ! (76 * i + k)"
  shows "header_ok hs' i name off w"
proof -
  note pl = h_magic_def h_name_def h_offset_def h_length_def initrd_header_def
  have "hs' ! (76 * i + 1 + j) = hs ! (76 * i + 1 + j)" if "j \<le> length name" for j
    using assms(3) [of "1 + j"] that assms(2) by simp
  moreover have "word_at hs' (76 * i + 68) = word_at hs (76 * i + 68)" "word_at hs' (76 * i + 72) = word_at hs (76 * i + 72)"
    using assms(3) [of 68] assms(3) [of 69] assms(3) [of 70] assms(3) [of 71]
      assms(3) [of 72] assms(3) [of 73] assms(3) [of 74] assms(3) [of 75]
    by (simp_all add: word_at_def numeral_eq_Suc)
  ultimately show ?thesis using assms(1) assms(3) [of 0] by (simp add: header_ok_def pl)
qed

text \<open>Where a file starts in the image: after the count, the 64 headers and the files before it.\<close>

definition start_of :: "u8 list list \<Rightarrow> nat \<Rightarrow> nat" where
  "start_of datas i = 4868 + sum_list (map length (take i datas))"

lemma start_of_Suc: "i < length datas \<Longrightarrow> start_of datas (Suc i) = start_of datas i + length (datas ! i)"
  by (simp add: start_of_def take_Suc_conv_app_nth)

text \<open>The arguments name files that the host has, under names that fit.\<close>

definition args_ok :: "(u8 list \<Rightarrow> u8 list option) \<Rightarrow> u8 list list \<Rightarrow> u8 list list \<Rightarrow> bool" where
  "args_ok files argv datas \<longleftrightarrow> (length argv - 1) div 2 = length datas \<and> length datas \<le> 64
     \<and> (\<forall>i<length datas. files (argv ! (i * 2 + 1)) = Some (datas ! i) \<and> length (argv ! (i * 2 + 2)) < 64)"

lemma scan_files_ok:
  assumes ok: "args_ok files argv datas"
  shows "i + k = length datas \<Longrightarrow> length hs = 4864 \<Longrightarrow>
    (\<forall>j<i. header_ok hs j (argv ! (j * 2 + 2)) (of_nat (start_of datas j)) (of_nat (length (datas ! j)))) \<Longrightarrow>
    \<exists>off hs'. scan_files k files argv i (of_nat (start_of datas i)) hs = Inr (off, hs') \<and> length hs' = 4864
      \<and> (\<forall>j<length datas. header_ok hs' j (argv ! (j * 2 + 2)) (of_nat (start_of datas j)) (of_nat (length (datas ! j))))"
proof (induction k arbitrary: i hs)
  case 0
  then show ?case by simp
next
  case (Suc k)
  let ?name = "argv ! (i * 2 + 2)" and ?off = "of_nat (start_of datas i) :: u32" and ?w = "of_nat (length (datas ! i)) :: u32"
  have i: "i < length datas" "i < 64" using Suc.prems(1) ok by (simp_all add: args_ok_def)
  have f: "files (argv ! (i * 2 + 1)) = Some (datas ! i)" "length ?name < 64" using ok i(1) by (simp_all add: args_ok_def)
  obtain h1 h2 h3 h4 where h: "poke (h_name i) (?name @ [0]) hs = Inr h1" "poke (h_offset i) (le_bytes ?off) h1 = Inr h2"
      "poke (h_length i) (le_bytes ?w) h2 = Inr h3" "poke (h_magic i) [0xBF] h3 = Inr h4"
      "length h4 = 4864" "header_ok h4 i ?name ?off ?w" "\<forall>j<4864. j < 76 * i \<or> 76 * i + 76 \<le> j \<longrightarrow> h4 ! j = hs ! j"
    by (rule header_round [OF Suc.prems(2) i(2) f(2)])
  have "header_ok h4 j (argv ! (j * 2 + 2)) (of_nat (start_of datas j)) (of_nat (length (datas ! j)))" if "j < i" for j
  proof (rule header_ok_cong)
    show "header_ok hs j (argv ! (j * 2 + 2)) (of_nat (start_of datas j)) (of_nat (length (datas ! j)))"
      using Suc.prems(3) that by blast
    show "length (argv ! (j * 2 + 2)) < 64" using ok that i(1) by (simp add: args_ok_def)
    show "h4 ! (76 * j + k) = hs ! (76 * j + k)" if "k < 76" for k
      using h(7) that \<open>j < i\<close> i(2) by simp
  qed
  with h(6) have "\<forall>j<Suc i. header_ok h4 j (argv ! (j * 2 + 2)) (of_nat (start_of datas j)) (of_nat (length (datas ! j)))"
    by (simp add: less_Suc_eq)
  from Suc.IH [OF _ h(5) this] Suc.prems(1) h(1-4) f(1) show ?case
    by (simp add: Let_def start_of_Suc [OF i(1)])
qed

lemma copy_files_ok:
  assumes ok: "args_ok files' argv datas"
    and len: "\<And>j. j < length datas \<Longrightarrow> unat (header_length hs j) = length (datas ! j)"
  shows "i + k = length datas \<Longrightarrow> copy_files k files' fresh argv i hs = Inr (concat (drop i datas))"
proof (induction k arbitrary: i)
  case 0
  then show ?case by simp
next
  case (Suc k)
  then have i: "i < length datas" by simp
  have "files' (argv ! (i * 2 + 1)) = Some (datas ! i)" using ok i by (simp add: args_ok_def)
  moreover have "copy_files k files' fresh argv (Suc i) hs = Inr (concat (drop (Suc i) datas))"
    using Suc.IH [of "Suc i"] Suc.prems by simp
  ultimately show ?case using len [OF i] by (simp add: Let_def Cons_nth_drop_Suc [OF i, symmetric])
qed

section \<open>The image\<close>

lemma initrd_main_ok:
  assumes "args_ok files argv datas" "args_ok files' argv datas" "length stack = 4864"
    and "start_of datas (length datas) < 4294967296"
  shows "\<exists>hs. initrd_main files files' fresh stack argv = Inr (le_bytes (of_nat (length datas)) @ hs @ concat datas)
    \<and> length hs = 4864
    \<and> (\<forall>j<length datas. header_ok hs j (argv ! (j * 2 + 2)) (of_nat (start_of datas j)) (of_nat (length (datas ! j))))"
proof -
  have n: "(length argv - 1) div 2 = length datas" using assms(1) by (simp add: args_ok_def)
  obtain off hs where hs: "scan_files (length datas) files argv 0 (of_nat (start_of datas 0)) stack = Inr (off, hs)"
      "length hs = 4864"
      "\<forall>j<length datas. header_ok hs j (argv ! (j * 2 + 2)) (of_nat (start_of datas j)) (of_nat (length (datas ! j)))"
    using scan_files_ok [OF assms(1), of 0 "length datas" stack] assms(3) by auto
  have "unat (header_length hs j) = length (datas ! j)" if j: "j < length datas" for j
  proof -
    have "length (datas ! j) \<le> sum_list (map length datas)" using j by (simp add: member_le_sum_list)
    then have "length (datas ! j) < 4294967296" using assms(4) by (simp add: start_of_def)
    moreover have "header_length hs j = of_nat (length (datas ! j))"
      using hs(3) j by (simp add: header_ok_def header_length_def word_at_def)
    ultimately show ?thesis by (simp add: unat_of_nat_u32)
  qed
  from copy_files_ok [OF assms(2) this, of 0 "length datas" fresh] hs n show ?thesis
    by (simp add: initrd_main_def Let_def start_of_def initrd_header_def nheaders_max_def)
qed

lemma concat_slice:
  "i < length xss \<Longrightarrow> take (length (xss ! i)) (drop (sum_list (map length (take i xss))) (concat xss)) = xss ! i"
proof (induction xss arbitrary: i)
  case (Cons xs xss)
  then show ?case by (cases i) simp_all
qed simp

text \<open>The image as a whole: the count, the headers by their place in the file, and the files' bytes.\<close>

definition image_of :: "u8 list list \<Rightarrow> u8 list list \<Rightarrow> u8 list \<Rightarrow> bool" where
  "image_of names datas img \<longleftrightarrow> length names = length datas \<and> length datas \<le> 64
     \<and> length img = start_of datas (length datas)
     \<and> word_at img 0 = of_nat (length datas)
     \<and> (\<forall>i<length datas.
          (\<forall>j<length (names ! i). img ! (4 + 76 * i + 1 + j) = names ! i ! j) \<and> img ! (4 + 76 * i + 1 + length (names ! i)) = 0
          \<and> word_at img (4 + 76 * i + 68) = of_nat (start_of datas i)
          \<and> word_at img (4 + 76 * i + 72) = of_nat (length (datas ! i))
          \<and> take (length (datas ! i)) (drop (start_of datas i) img) = datas ! i)"

definition arg_names :: "u8 list list \<Rightarrow> nat \<Rightarrow> u8 list list" where
  "arg_names argv n = map (\<lambda>i. argv ! (i * 2 + 2)) [0..<n]"

lemma word_at_append:
  "p + 4 \<le> length ys \<Longrightarrow> word_at (xs @ ys @ zs) (length xs + p) = word_at ys p"
  by (simp add: word_at_def nth_append)

lemma initrd_main_image:
  assumes "args_ok files argv datas" "args_ok files' argv datas" "length stack = 4864"
    and "start_of datas (length datas) < 4294967296"
  shows "\<exists>img. initrd_main files files' fresh stack argv = Inr img \<and> image_of (arg_names argv (length datas)) datas img"
proof -
  note pl = h_magic_def h_name_def h_offset_def h_length_def initrd_header_def
  let ?n = "length datas" and ?c = "le_bytes (of_nat (length datas))"
  obtain hs where hs: "initrd_main files files' fresh stack argv = Inr (?c @ hs @ concat datas)" "length hs = 4864"
      "\<forall>j<?n. header_ok hs j (argv ! (j * 2 + 2)) (of_nat (start_of datas j)) (of_nat (length (datas ! j)))"
    using initrd_main_ok [OF assms] by blast
  let ?img = "?c @ hs @ concat datas"
  have n: "?n \<le> 64" using assms(1) by (simp add: args_ok_def)
  have "length ?img = start_of datas ?n" by (simp add: hs(2) start_of_def length_concat)
  moreover have "word_at ?img 0 = of_nat ?n"
    by (rule word_at_written) (simp add: nth_append)
  moreover have "(\<forall>j<length (argv ! (i * 2 + 2)). ?img ! (4 + 76 * i + 1 + j) = argv ! (i * 2 + 2) ! j)
      \<and> ?img ! (4 + 76 * i + 1 + length (argv ! (i * 2 + 2))) = 0
      \<and> word_at ?img (4 + 76 * i + 68) = of_nat (start_of datas i)
      \<and> word_at ?img (4 + 76 * i + 72) = of_nat (length (datas ! i))
      \<and> take (length (datas ! i)) (drop (start_of datas i) ?img) = datas ! i" if i: "i < ?n" for i
  proof -
    have h: "header_ok hs i (argv ! (i * 2 + 2)) (of_nat (start_of datas i)) (of_nat (length (datas ! i)))"
      and nm: "length (argv ! (i * 2 + 2)) < 64" and b: "76 * i + 76 \<le> 4864"
      using hs(3) i assms(1) n by (auto simp: args_ok_def)
    have at: "?img ! (4 + 76 * i + k) = hs ! (76 * i + k)" if "k < 76" for k
      using that b hs(2) by (simp add: nth_append)
    have "?img ! (4 + 76 * i + 1 + j) = hs ! (76 * i + 1 + j)" if "j \<le> length (argv ! (i * 2 + 2))" for j
      using at [of "1 + j"] that nm by (simp add: add.assoc)
    moreover have "word_at ?img (4 + 76 * i + 68) = word_at hs (76 * i + 68)"
        "word_at ?img (4 + 76 * i + 72) = word_at hs (76 * i + 72)"
      using word_at_append [of "76 * i + 68" hs ?c "concat datas"] word_at_append [of "76 * i + 72" hs ?c "concat datas"]
        b hs(2) by (simp_all add: add.assoc)
    moreover have "drop (start_of datas i) ?img = drop (sum_list (map length (take i datas))) (concat datas)"
      using hs(2) by (simp add: start_of_def)
    ultimately show ?thesis using h concat_slice [OF i] by (simp add: header_ok_def pl)
  qed
  ultimately have "image_of (arg_names argv ?n) datas ?img" using n by (simp add: image_of_def arg_names_def)
  then show ?thesis using hs(1) by blast
qed

section \<open>Properties\<close>

text \<open>
  C20: given up to 64 files the host has, under names of fewer than 64 characters, whose sizes add up to less
  than four gigabytes, the tool succeeds, and its image has the number of files, one header per file with the
  terminated name, the place and the length of its bytes, and at that place the bytes of the file. What the
  stack and fresh buffers hold does not matter to any of these.
\<close>

theorem initrd_image_layout:
  assumes "args_ok files argv datas" "args_ok files' argv datas" "length stack = 4864"
    and "start_of datas (length datas) < 4294967296"
  shows "\<exists>img. initrd_main files files' fresh stack argv = Inr img \<and> image_of (arg_names argv (length datas)) datas img"
  by (rule initrd_main_image [OF assms])

text \<open>
  C38: the first file that the host does not have ends the run with its path as the error, whatever the arguments
  after it, and no image is written.
\<close>

theorem initrd_missing_file:
  assumes "i < (length argv - 1) div 2" "i < 64" "length stack = 4864" "files (argv ! (i * 2 + 1)) = None"
    and "\<forall>j<i. files (argv ! (j * 2 + 1)) \<noteq> None" "\<forall>j\<le>i. length (argv ! (j * 2 + 2)) < 64"
  shows "initrd_main files files' fresh stack argv = Inl (NotFound (argv ! (i * 2 + 1)))"
proof -
  have "scan_files k files argv j off hs = Inl (NotFound (argv ! (i * 2 + 1)))"
    if "j \<le> i" "i < j + k" "length hs = 4864" for k j off hs
    using that
  proof (induction k arbitrary: j off hs)
    case (Suc k)
    let ?name = "argv ! (j * 2 + 2)"
    have name: "length ?name < 64" "j < 64" using Suc.prems assms(2,6) by simp_all
    show ?case
    proof (cases "j = i")
      case True
      obtain h1 h2 where "poke (h_name j) (?name @ [0]) hs = Inr h1" "poke (h_offset j) (le_bytes off) h1 = Inr h2"
        by (rule header_round [OF Suc.prems(3) name(2,1), where off = off and w = 0]) blast
      then show ?thesis using True assms(4) by simp
    next
      case False
      then obtain data where data: "files (argv ! (j * 2 + 1)) = Some data" using Suc.prems(1) assms(5) by fastforce
      obtain h1 h2 h3 h4 where "poke (h_name j) (?name @ [0]) hs = Inr h1" "poke (h_offset j) (le_bytes off) h1 = Inr h2"
          "poke (h_length j) (le_bytes (of_nat (length data))) h2 = Inr h3" "poke (h_magic j) [0xBF] h3 = Inr h4"
          "length h4 = 4864"
        by (rule header_round [OF Suc.prems(3) name(2,1), where off = off and w = "of_nat (length data)"]) blast
      with Suc.IH [of "Suc j" h4] Suc.prems False data show ?thesis by (simp add: Let_def)
    qed
  qed simp
  from this [of 0 "(length argv - 1) div 2" stack] assms(1,3) show ?thesis
    by (simp add: initrd_main_def Let_def sum_bind_def)
qed

text \<open>Two files on the host, on which the properties are applied.\<close>

definition sample_files :: "u8 list \<Rightarrow> u8 list option" where
  "sample_files = [[1] \<mapsto> [72, 105, 0], [2] \<mapsto> [0]]"

definition sample_argv :: "u8 list list" where
  "sample_argv = [[0], [1], [97], [2], [98, 99]]"

lemma sample_args: "args_ok sample_files sample_argv [[72, 105, 0], [0]]"
  by (simp add: args_ok_def sample_files_def sample_argv_def less_Suc_eq)

theorem initrd_image_layout_witness:
  "\<exists>img. initrd_main sample_files sample_files (\<lambda>_. 0) (replicate 4864 0) sample_argv = Inr img
     \<and> image_of [[97], [98, 99]] [[72, 105, 0], [0]] img"
  using initrd_image_layout [OF sample_args sample_args, of "replicate 4864 0" "\<lambda>_. 0"]
  by (simp add: start_of_def arg_names_def sample_argv_def)

theorem initrd_missing_file_witness:
  "initrd_main [[1] \<mapsto> [72, 105, 0]] sample_files (\<lambda>_. 0) (replicate 4864 0) sample_argv = Inl (NotFound [2])"
  using initrd_missing_file [where i = 1 and argv = sample_argv and stack = "replicate 4864 0"
      and files = "[[1] \<mapsto> [72, 105, 0]]" and files' = sample_files and fresh = "\<lambda>_. 0"]
  by (simp add: sample_argv_def le_Suc_eq)

end
