(* ===== verification/RamdiskUse.thy ===== *)
theory RamdiskUse
  imports RamdiskInit Initrd
begin

text \<open>
  The ramdisk in use: looking up names, listing the directory and reading files of a disk that
  \<open>ramdisk_init\<close> has built, through the operations of the virtual file system.
\<close>

section \<open>Facts of a mounted disk\<close>

text \<open>The node of one file, as the driver uses it.\<close>

definition file_entry :: "linkage \<Rightarrow> u32 \<Rightarrow> u32 \<Rightarrow> u32 \<Rightarrow> u8 list \<Rightarrow> (u32 \<Rightarrow> u8) \<Rightarrow> bool" where
  "file_entry lk h node i cs W \<longleftrightarrow> vstr W node cs
     \<and> (\<forall>(k, v) \<in> set (file_fields lk i (get32 W (file_length h))). get32 W (node + of_nat k) = v)"

text \<open>
  The invariant of a mounted disk: the driver's variables point to whole nodes in the region, the
  nodes hold their names and fields, and the literal \<open>dev\<close> is intact.
\<close>

definition disk_up ::
  "u32 set \<Rightarrow> (u32 \<Rightarrow> u32) \<Rightarrow> linkage \<Rightarrow> u32 \<Rightarrow> u32 \<Rightarrow> u8 list list \<Rightarrow> (u32 \<Rightarrow> u8) \<Rightarrow> 'a ramdisk_st_scheme \<Rightarrow> bool" where
  "disk_up D tr lk addr r names W s \<longleftrightarrow> view D tr W s \<and> disk_state addr r (length names) s
     \<and> aligned4 addr \<and> aligned4 r \<and> unat r + (8192 + 184 * length names) \<le> 4294967296
     \<and> disk_memory addr r (length names) \<subseteq> D
     \<and> literal D (disk_memory addr r (length names)) W (dev_str lk) (ascii ''dev'')
     \<and> dir_done lk r (ascii ''initrd'') W \<and> dir_done lk (r + 4096) (ascii ''dev'') W
     \<and> (\<forall>i<length names. length (names ! i) < 64 \<and> names ! i \<noteq> []
          \<and> file_entry lk (hdr addr i) (nod (r + 8192) i) (of_nat i) (names ! i) W)"

lemma mounted_outside:
  assumes "mounted lk addr r names V W" "aligned4 addr" "x \<notin> disk_memory addr r (length names)"
  shows "W x = V x"
proof -
  have "x \<notin> word_bytes (file_offset (hdr addr i))" if "i < length names" for i
    using hdr_offset_block [OF assms(2), of i] slot_blocks(1) [OF that, of addr] assms(3)
    unfolding disk_memory_def by blast
  moreover have "x \<notin> node_memory r (length names)" using node_memory_heap assms(3) by (auto simp: disk_memory_def)
  ultimately show ?thesis using assms(1) by (simp add: mounted_def)
qed

lemma literal_cong:
  assumes "literal D H V a cs" "\<And>x. x \<in> block a (Suc (length cs)) \<Longrightarrow> W x = V x"
  shows "literal D H W a cs"
  using assms vstr_cong [of V a cs W] by (simp add: literal_def)

text \<open>\<open>ramdisk_init\<close> leads there.\<close>

lemma mounted_up:
  assumes "mountable D lk V addr r names" "mounted lk addr r names V W" "view D tr W s"
    and "disk_state addr r (length names) s" "aligned4 r" "unat r + (8192 + 184 * length names) \<le> 4294967296"
  shows "disk_up D tr lk addr r names W s"
proof -
  let ?H = "disk_memory addr r (length names)"
  have m: "image_ok D V addr names" "heap_for r (length names) \<subseteq> D" "literal D ?H V (dev_str lk) (ascii ''dev'')"
    using assms(1) by (simp_all add: mountable_def)
  then have im: "aligned4 addr" "?H \<subseteq> D" "\<forall>i<length names. length (names ! i) < 64 \<and> names ! i \<noteq> []"
    by (simp_all add: image_ok_def disk_memory_def)
  have "literal D ?H W (dev_str lk) (ascii ''dev'')"
    by (rule literal_cong [OF m(3)], rule mounted_outside [OF assms(2) im(1)])
       (use m(3) in \<open>auto simp: literal_def\<close>)
  moreover have "file_entry lk (hdr addr i) (nod (r + 8192) i) (of_nat i) (names ! i) W" if "i < length names" for i
    using assms(2) that by (simp add: mounted_def file_done_def file_entry_def)
  ultimately show ?thesis
    using assms im by (simp add: disk_up_def mounted_def)
qed

lemma ramdisk_init_up:
  fixes s :: "'a ramdisk_st_scheme"
  assumes "view D tr V s" "mountable D lk V addr r names" "arena_ok s" "page_up (currentBase s) = r"
    and "unat r + 8192 + 184 * length names \<le> unat (maxBase s)"
  shows "\<exists>s' W. ramdisk_init lk addr n s = Inr (r, s') \<and> disk_up D tr lk addr r names W s' \<and> mounted lk addr r names V W
    \<and> interrupts_kept s s'"
proof -
  have n0: "length names > 0" using assms(2) by (simp add: mountable_def image_ok_def)
  have "unat r + (8192 + 184 * length names) \<le> 4294967296"
    using assms(5) u32_less [of "maxBase s"] by linarith
  then show ?thesis
    using ramdisk_init_run [OF assms, of n] mounted_up [OF assms(2) _ _ _ mount_pages(1) [OF assms(3-5) n0]]
    by blast
qed

lemma disk_node:
  assumes "disk_up D tr lk addr r names W s" "i < length names"
  shows "block (nod (r + 8192) i) 184 \<subseteq> disk_memory addr r (length names)" "aligned4 (nod (r + 8192) i)"
    "block (hdr addr i) 76 \<subseteq> disk_memory addr r (length names)" "aligned4 (hdr addr i)"
    "vstr W (nod (r + 8192) i) (names ! i)" "length (names ! i) < 64"
  using assms slots_aligned [of _ i] slot_blocks(1) [OF assms(2), of addr] slot_blocks(2) [OF assms(2), of "r + 8192"]
    heap_parts(3) [of r "length names"] aligned4_field [of r 8192]
  by (auto simp: disk_up_def file_entry_def disk_memory_def)

lemma nod_unat:
  assumes "disk_up D tr lk addr r names W s" "i < length names"
  shows "unat (nod (r + 8192) i) = unat r + (8192 + 184 * i)"
    "unat r + (8192 + 184 * i) + 184 \<le> 4294967296"
proof -
  show le: "unat r + (8192 + 184 * i) + 184 \<le> 4294967296"
    using assms(1) slot_le [OF assms(2), of 0 184] by (simp add: disk_up_def)
  have "nod (r + 8192) i = r + of_nat (8192 + 184 * i)" by (simp add: nod_def)
  then show "unat (nod (r + 8192) i) = unat r + (8192 + 184 * i)"
    using le by (simp only: unat_add_of_nat)
qed

lemma disk_in: "disk_up D tr lk addr r names W s \<Longrightarrow> disk_memory addr r (length names) \<subseteq> D"
  by (simp add: disk_up_def)

text \<open>A field of a node, by its place in the structure.\<close>

lemma file_load:
  assumes "disk_up D tr lk addr r names W s" "i < length names"
    and "(k, v) \<in> set (file_fields lk (of_nat i) (get32 W (file_length (hdr addr i))))"
  shows "load32 (nod (r + 8192) i + of_nat k) s = Inr (v, s)"
proof -
  note nd = disk_node [OF assms(1,2)]
  have "k mod 4 = 0" "k + 4 \<le> 184" using fields_range(1,2) assms(3) by fastforce+
  then have "load32 (nod (r + 8192) i + of_nat k) s = Inr (get32 W (nod (r + 8192) i + of_nat k), s)"
    using aligned4_field [OF nd(2), of k] field_bytes [of k 184 "nod (r + 8192) i"] nd(1) disk_in [OF assms(1)] assms(1)
    by (intro view_load32 [of D tr W]) (auto simp: disk_up_def)
  then show ?thesis using assms by (auto simp: disk_up_def file_entry_def)
qed

lemma dir_load_at:
  assumes "view D tr W s" "aligned4 a" "block a 184 \<subseteq> D" "dir_done lk a cs W" "(k, v) \<in> set (dir_fields lk)"
  shows "load32 (a + of_nat k) s = Inr (v, s)"
proof -
  have "k mod 4 = 0" "k + 4 \<le> 184" using fields_range(4,5) [of lk] assms(5) by auto
  then have "load32 (a + of_nat k) s = Inr (get32 W (a + of_nat k), s)"
    using aligned4_field [of a k] field_bytes [of k 184 a] assms(2,3) by (intro view_load32 [OF assms(1)]) auto
  then show ?thesis using assms(4,5) by (auto simp: dir_done_def)
qed

lemma dir_load:
  assumes "disk_up D tr lk addr r names W s" "(k, v) \<in> set (dir_fields lk)"
  shows "load32 (r + of_nat k) s = Inr (v, s)" "load32 (r + 4096 + of_nat k) s = Inr (v, s)"
  using assms heap_parts [of r "length names"] aligned4_field [of r 4096]
  by (auto simp: disk_up_def disk_memory_def intro!: dir_load_at [where D = D and tr = tr and W = W and lk = lk])

text \<open>The invariant survives every change outside the disk's memory and the literal.\<close>

lemma file_entry_cong:
  assumes "file_entry lk h node i cs W" "aligned4 h" "length cs < 64"
    and "\<And>x. x \<in> block h 76 \<union> block node 184 \<Longrightarrow> W' x = W x"
  shows "file_entry lk h node i cs W'"
proof -
  have "get32 W' (file_length h) = get32 W (file_length h)"
    by (rule get32_cong) (use assms(4) header_fields(4) [OF assms(2)] in blast)
  moreover have "vstr W' node cs"
  proof (rule vstr_cong)
    show "vstr W node cs" using assms(1) by (simp add: file_entry_def)
    show "W' x = W x" if "x \<in> block node (Suc (length cs))" for x
      using that assms(3,4) block_mono [of "Suc (length cs)" 184 node] by auto
  qed
  moreover have "get32 W' (node + of_nat k) = get32 W (node + of_nat k)"
    if "(k, v) \<in> set (file_fields lk i (get32 W (file_length h)))" for k v
  proof (rule get32_cong)
    have "k + 4 \<le> 184" using that fields_range(1) [of lk i "get32 W (file_length h)"] by auto
    then show "W' x = W x" if "x \<in> word_bytes (node + of_nat k)" for x
      using that assms(4) field_bytes [of k 184 node] by blast
  qed
  ultimately show ?thesis using assms(1) by (auto simp: file_entry_def)
qed

lemma disk_up_frame:
  fixes s' :: "'a ramdisk_st_scheme"
  assumes up: "disk_up D tr lk addr r names W s" and "view D tr W' s'" "disk_state addr r (length names) s'"
    and same: "\<And>x. x \<in> disk_memory addr r (length names) \<union> block (dev_str lk) 4 \<Longrightarrow> W' x = W x"
  shows "disk_up D tr lk addr r names W' s'"
proof -
  let ?n = "length names"
  have "literal D (disk_memory addr r ?n) W' (dev_str lk) (ascii ''dev'')"
  proof (rule literal_cong)
    show "literal D (disk_memory addr r ?n) W (dev_str lk) (ascii ''dev'')" using up by (simp add: disk_up_def)
    show "W' x = W x" if "x \<in> block (dev_str lk) (Suc (length (ascii ''dev'')))" for x
      using that unfolding ascii_dev_length by (intro same) simp
  qed
  moreover have "dir_done lk r (ascii ''initrd'') W'" "dir_done lk (r + 4096) (ascii ''dev'') W'"
    by (rule dir_done_cong [where W = W], use up same heap_parts(1,2) [of r ?n] in
        \<open>auto simp: disk_up_def ascii_names disk_memory_def\<close>)+
  moreover have "file_entry lk (hdr addr i) (nod (r + 8192) i) (of_nat i) (names ! i) W'" if i: "i < ?n" for i
  proof (rule file_entry_cong)
    show "file_entry lk (hdr addr i) (nod (r + 8192) i) (of_nat i) (names ! i) W"
      using up i by (simp add: disk_up_def)
    show "aligned4 (hdr addr i)" "length (names ! i) < 64" by (rule disk_node [OF up i])+
    show "W' x = W x" if "x \<in> block (hdr addr i) 76 \<union> block (nod (r + 8192) i) 184" for x
      using that disk_node(1,3) [OF up i] by (intro same) blast
  qed
  ultimately show ?thesis using assms by (simp add: disk_up_def)
qed

section \<open>Looking up a name\<close>

text \<open>The node that a name denotes: \<open>dev\<close> first, then the first file of that name.\<close>

definition node_of :: "u32 \<Rightarrow> u8 list list \<Rightarrow> u8 list \<Rightarrow> u32" where
  "node_of r names nm = (if nm = ascii ''dev'' then r + 4096
     else case find (\<lambda>i. names ! i = nm) [0..<length names] of Some i \<Rightarrow> nod (r + 8192) i | None \<Rightarrow> 0)"

text \<open>A string the caller passes: in the region and not longer than an \<open>int\<close> can count.\<close>

definition name_at :: "u32 set \<Rightarrow> (u32 \<Rightarrow> u8) \<Rightarrow> u32 \<Rightarrow> u8 list \<Rightarrow> bool" where
  "name_at D W a cs \<longleftrightarrow> vstr W a cs \<and> block a (Suc (length cs)) \<subseteq> D \<and> length cs \<le> 2147483647"

lemma strcmp_view:
  assumes "view D tr W s" "name_at D W a cs" "vstr W b ds" "block b (Suc (length ds)) \<subseteq> D"
  shows "strcmp a b s = Inr (if cs = ds then 0 else 1, s)"
  using assms(2) vm.strcmp_region [where D = D and tr = tr and s = s and a = a and b = b and cs = cs and ds = ds]
    view_cstr [OF assms(1)] assms(1,3,4)
  by (simp add: name_at_def view_def)

lemma finddir_loop_run:
  assumes up: "disk_up D tr lk addr r names W s" and nm: "name_at D W a nm"
    and "i + k = length names"
  shows "finddir_loop k (of_nat i) a s =
    Inr (case find (\<lambda>i. names ! i = nm) [i..<length names] of Some i \<Rightarrow> nod (r + 8192) i | None \<Rightarrow> 0, s)"
  using assms(3)
proof (induction k arbitrary: i)
  case 0
  then show ?case by simp
next
  case (Suc k)
  then have i: "i < length names" by simp
  note nd = disk_node [OF up i]
  have v: "view D tr W s" and rn: "root_nodes s = r + 8192" using up by (simp_all add: disk_up_def disk_state_def)
  have "block (nod (r + 8192) i) (Suc (length (names ! i))) \<subseteq> D"
    using nd(1,6) disk_in [OF up] block_mono [of "Suc (length (names ! i))" 184 "nod (r + 8192) i"] by auto
  then have "strcmp a (nod (r + 8192) i) s = Inr (if nm = names ! i then 0 else 1, s)"
    by (rule strcmp_view [OF v nm nd(5)])
  moreover have "finddir_loop k (of_nat i + 1) a s =
      Inr (case find (\<lambda>i. names ! i = nm) [Suc i..<length names] of Some i \<Rightarrow> nod (r + 8192) i | None \<Rightarrow> 0, s)"
    using Suc.IH [of "Suc i"] Suc.prems by (simp add: add.commute)
  ultimately show ?case
    using upt_conv_Cons [OF i] by (simp add: nod_root_node [OF rn])
qed

lemma finddir_run:
  assumes up: "disk_up D tr lk addr r names W s" and nm: "name_at D W a nm"
  shows "finddir lk r a s = Inr (node_of r names nm, s)"
proof -
  let ?n = "length names"
  have v: "view D tr W s" and st: "disk_state addr r ?n s" and small: "?n < 2147483648"
    and lit: "literal D (disk_memory addr r ?n) W (dev_str lk) (ascii ''dev'')"
    using up by (simp_all add: disk_up_def)
  have "sint (of_nat ?n :: u32) = int ?n"
    using small by (rule sint_of_nat_small)
  then have cnt: "nat (sint (nroot_nodes s)) = ?n" using st by (simp add: disk_state_def)
  have "vstr W (dev_str lk) (ascii ''dev'')" "block (dev_str lk) (Suc (length (ascii ''dev''))) \<subseteq> D"
    using lit by (simp_all add: literal_def)
  then have cmp: "strcmp a (dev_str lk) s = Inr (if nm = ascii ''dev'' then 0 else 1, s)"
    by (rule strcmp_view [OF v nm])
  show ?thesis
    using cmp finddir_loop_run [OF up nm, of 0 ?n] st cnt
    by (simp add: finddir_def node_of_def disk_state_def Let_def)
qed

section \<open>Listing the directory\<close>

text \<open>The static \<open>dentry\<close>: in the region, apart from the disk and the literal.\<close>

definition dentry_ok :: "u32 set \<Rightarrow> linkage \<Rightarrow> u32 \<Rightarrow> u32 \<Rightarrow> nat \<Rightarrow> bool" where
  "dentry_ok D lk addr r n \<longleftrightarrow> aligned4 (dentry lk) \<and> block (dentry lk) 68 \<subseteq> D
     \<and> block (dentry lk) 68 \<inter> (disk_memory addr r n \<union> block (dev_str lk) 4) = {} \<and> dentry lk \<noteq> 0"

text \<open>The view after a name and an inode number are put into the entry.\<close>

definition dentry_view :: "u32 \<Rightarrow> u8 list \<Rightarrow> u32 \<Rightarrow> (u32 \<Rightarrow> u8) \<Rightarrow> (u32 \<Rightarrow> u8)" where
  "dentry_view d cs i W = put32 ((vwrite d cs W)(d + of_nat (length cs) := 0)) (d + of_nat 64) i"

lemma dentry_view_other: "length cs < 64 \<Longrightarrow> x \<notin> block d 68 \<Longrightarrow> dentry_view d cs i W x = W x"
proof -
  assume n: "length cs < 64" and x: "x \<notin> block d 68"
  have "x \<noteq> d + of_nat (length cs)" "x \<notin> block d (length cs)"
    using x n block_mem [of "length cs" 68 d] block_mono [of "length cs" 68 d] by auto
  moreover have "x \<notin> word_bytes (d + of_nat 64)" using x field_bytes [of 64 68 d] by auto
  ultimately show ?thesis by (simp add: dentry_view_def put32_other vwrite_other)
qed

lemma dentry_view_shows:
  assumes "length cs < 64" "0 \<notin> set cs"
  shows "vstr (dentry_view d cs i W) d cs" "get32 (dentry_view d cs i W) (d + of_nat 64) = i"
proof -
  let ?W = "(vwrite d cs W)(d + of_nat (length cs) := 0)"
  have "d + of_nat j \<noteq> d + of_nat (length cs)" if "j < length cs" for j
    using that assms(1) of_nat_u32_inj [of j "length cs"] by auto
  then have "vstr ?W d cs"
    using assms by (auto simp: vstr_def vwrite_def addr_nat intro: block_mem)
  moreover have "dentry_view d cs i W x = ?W x" if "x \<in> block d (Suc (length cs))" for x
  proof -
    have "x \<in> block d 64" using that assms(1) block_mono [of "Suc (length cs)" 64 d] by auto
    then have "x \<notin> word_bytes (d + of_nat 64)"
      unfolding word_bytes_block using sub_blocks_disjoint [of 0 64 64 4 d] by auto
    then show ?thesis by (simp add: dentry_view_def put32_other)
  qed
  ultimately show "vstr (dentry_view d cs i W) d cs" by (rule vstr_cong)
  show "get32 (dentry_view d cs i W) (d + of_nat 64) = i" by (simp add: dentry_view_def)
qed

text \<open>What the driver lists at an index: \<open>dev\<close>, then the files in the order of the image.\<close>

definition listed :: "u8 list list \<Rightarrow> nat \<Rightarrow> u8 list \<times> u32" where
  "listed names k = (case k of 0 \<Rightarrow> (ascii ''dev'', 0) | Suc i \<Rightarrow> (names ! i, of_nat i))"

lemma dentry_stores:
  assumes "dentry_ok D lk addr r n" "length cs < 64" "cs \<noteq> []" "vstr W src cs"
    and "block src (Suc (length cs)) \<subseteq> D" "block (dentry lk) 68 \<inter> block src (Suc (length cs)) = {}"
    and "unat src + length cs < 4294967296"
  shows "writes D tr W (strcpy (dentry lk) src) () (vwrite (dentry lk) cs W)"
    and "writes D tr X (store8 (dentry lk + of_nat (length cs)) 0) () (X(dentry lk + of_nat (length cs) := 0))"
    and "writes D tr X (store32 (dentry_ino (dentry lk)) i) () (put32 X (dentry lk + of_nat 64) i)"
proof -
  let ?d = "dentry lk"
  have d: "aligned4 ?d" "block ?d 68 \<subseteq> D" using assms(1) by (simp_all add: dentry_ok_def)
  have "block ?d (length cs) \<subseteq> block ?d 68" using assms(2) by (intro block_mono) simp
  then show "writes D tr W (strcpy ?d src) () (vwrite ?d cs W)"
    using d(2) assms(6) by (intro writes_strcpy assms) blast+
  have "?d + of_nat (length cs) \<in> D" using d(2) block_mem [of "length cs" 68 ?d] assms(2) by auto
  then show "writes D tr X (store8 (?d + of_nat (length cs)) 0) () (X(?d + of_nat (length cs) := 0))"
    by (rule writes_store8)
  show "writes D tr X (store32 (dentry_ino ?d) i) () (put32 X (?d + of_nat 64) i)"
    using writes_store32 [OF aligned4_field [OF d(1), of 64] order_trans [OF field_bytes [of 64 68 ?d] d(2)]]
    by (simp add: dentry_ino_def)
qed

lemma readdir_dev_writes:
  assumes "dentry_ok D lk addr r n" "literal D (disk_memory addr r n) W (dev_str lk) (ascii ''dev'')"
  shows "writes D tr W
     (kthen (strcpy (dentry lk) (dev_str lk))
     (kthen (store8 (dentry lk + 3) 0)
     (kthen (store32 (dentry_ino (dentry lk)) 0)
            (kreturn (dentry lk))))) (dentry lk) (dentry_view (dentry lk) (ascii ''dev'') 0 W)"
proof -
  let ?cs = "ascii ''dev''"
  have lit: "vstr W (dev_str lk) ?cs" "block (dev_str lk) (Suc (length ?cs)) \<subseteq> D"
      "unat (dev_str lk) + length ?cs < 4294967296"
    using assms(2) by (simp_all add: literal_def)
  have ap: "block (dentry lk) 68 \<inter> block (dev_str lk) (Suc (length ?cs)) = {}"
    using assms(1) unfolding dentry_ok_def ascii_dev_length by blast
  have cs: "length ?cs < 64" "?cs \<noteq> []" by (simp_all add: ascii_names)
  have l3: "of_nat (length ?cs) = (3 :: u32)" by (simp add: ascii_names)
  note st = dentry_stores [OF assms(1) cs lit(1,2) ap lit(3)]
  show ?thesis
    unfolding dentry_view_def l3 using st(2,3) [unfolded l3]
    by (intro writes_kthen [OF st(1)] writes_kthen [OF st(2) [unfolded l3]] writes_kthen [OF st(3)] writes_kreturn)
qed

lemma readdir_file_writes:
  assumes up: "disk_up D tr lk addr r names W s" and d: "dentry_ok D lk addr r (length names)" and i: "i < length names"
  defines "node \<equiv> nod (r + 8192) i"
  shows "writes D tr W
     (kthen (strcpy (dentry lk) node)
     (kbind (strlen node) (\<lambda>n.
      kthen (store8 (dentry lk + n) 0)
     (kbind (load32 (inode_ino node)) (\<lambda>ino.
      kthen (store32 (dentry_ino (dentry lk)) ino)
            (kreturn (dentry lk))))))) (dentry lk) (dentry_view (dentry lk) (names ! i) (of_nat i) W)"
proof -
  let ?cs = "names ! i" and ?d = "dentry lk"
  note nd = disk_node [OF up i, folded node_def] and D = disk_in [OF up]
  have blk: "block node (Suc (length ?cs)) \<subseteq> block node 128" "block node 128 \<subseteq> block node 184"
    using nd(6) by (auto intro!: block_mono)
  have nD: "block node 184 \<subseteq> D" and ap: "block ?d 68 \<inter> block node 184 = {}"
    using nd(1) D d unfolding dentry_ok_def by blast+
  have sD: "block node (Suc (length ?cs)) \<subseteq> D" and sap: "block ?d 68 \<inter> block node (Suc (length ?cs)) = {}"
    using blk nD ap by blast+
  have ne: "?cs \<noteq> []" using up i by (simp add: disk_up_def)
  have nw: "unat node + length ?cs < 4294967296" using nod_unat [OF up i, folded node_def] nd(6) by linarith
  note st = dentry_stores [OF d nd(6) ne nd(5) sD sap nw]
  have keep: "vwrite ?d ?cs W x = W x" "((vwrite ?d ?cs W)(?d + of_nat (length ?cs) := 0)) x = W x" if "x \<in> block node 184" for x
  proof -
    have "block ?d (length ?cs) \<subseteq> block ?d 68" "?d + of_nat (length ?cs) \<in> block ?d 68"
      by (rule block_mono block_mem, use nd(6) in linarith)+
    then have "x \<notin> block ?d (length ?cs)" "x \<noteq> ?d + of_nat (length ?cs)" using that ap by blast+
    then show "vwrite ?d ?cs W x = W x" "((vwrite ?d ?cs W)(?d + of_nat (length ?cs) := 0)) x = W x"
      by (simp_all add: vwrite_other)
  qed
  have len: "writes D tr (vwrite ?d ?cs W) (strlen node) (of_nat (length ?cs)) (vwrite ?d ?cs W)"
    by (rule writes_strlen [OF sD vstr_cong [OF nd(5)]]) (use keep(1) blk nd(6) in auto)
  let ?X = "(vwrite ?d ?cs W)(?d + of_nat (length ?cs) := 0)"
  have "get32 ?X (inode_ino node) = get32 W (inode_ino node)"
    by (rule get32_cong) (use keep(2) inode_fields_block(5) [of node] in blast)
  also have "\<dots> = of_nat i"
    using up i by (simp add: disk_up_def file_entry_def file_fields_def inode_layout_nat node_def)
  finally have ino: "writes D tr ?X (load32 (inode_ino node)) (of_nat i) ?X"
    using writes_load32 [OF inode_fields_aligned(5) [OF nd(2)] order_trans [OF inode_fields_block(5) nD], of tr ?X] by simp
  show ?thesis
    unfolding dentry_view_def
    by (intro writes_kthen [OF st(1)] writes_kbind [OF len] writes_kthen [OF st(2)] writes_kbind [OF ino]
        writes_kthen [OF st(3)] writes_kreturn)
qed

lemma readdir_run:
  assumes up: "disk_up D tr lk addr r names W s" and d: "dentry_ok D lk addr r (length names)" and k: "k \<le> length names"
  defines "W' \<equiv> dentry_view (dentry lk) (fst (listed names k)) (snd (listed names k)) W"
  shows "\<exists>mm. readdir lk r (of_nat k) s = Inr (dentry lk, s\<lparr>mem := mm\<rparr>)
    \<and> disk_up D tr lk addr r names W' (s\<lparr>mem := mm\<rparr>)"
proof -
  let ?n = "length names" and ?d = "dentry lk"
  have v: "view D tr W s" and st: "disk_state addr r ?n s" and n: "?n < 2147483648"
    and lit: "literal D (disk_memory addr r ?n) W (dev_str lk) (ascii ''dev'')"
    using up by (simp_all add: disk_up_def)
  have len: "length (fst (listed names k)) < 64"
    using k disk_node(6) [OF up] by (cases k) (simp_all add: listed_def ascii_names)
  have up': "disk_up D tr lk addr r names W' (s\<lparr>mem := mm\<rparr>)" if "view D tr W' (s\<lparr>mem := mm\<rparr>)" for mm
  proof (rule disk_up_frame [OF up that])
    show "disk_state addr r ?n (s\<lparr>mem := mm\<rparr>)" using st by (simp add: disk_state_def)
    show "W' x = W x" if "x \<in> disk_memory addr r ?n \<union> block (dev_str lk) 4" for x
      unfolding W'_def using that d by (intro dentry_view_other [OF len]) (auto simp: dentry_ok_def)
  qed
  show ?thesis
  proof (cases k)
    case 0
    then have "W' = dentry_view ?d (ascii ''dev'') 0 W" by (simp add: W'_def listed_def)
    then have "writes D tr W (kthen (strcpy ?d (dev_str lk)) (kthen (store8 (?d + 3) 0)
        (kthen (store32 (dentry_ino ?d) 0) (kreturn ?d)))) ?d W'"
      using readdir_dev_writes [OF d lit] by simp
    from writesE [OF this v] obtain mm where "kthen (strcpy ?d (dev_str lk)) (kthen (store8 (?d + 3) 0)
        (kthen (store32 (dentry_ino ?d) 0) (kreturn ?d))) s = Inr (?d, s\<lparr>mem := mm\<rparr>)" "view D tr W' (s\<lparr>mem := mm\<rparr>)"
      by blast
    then show ?thesis using up' 0 st by (auto simp: readdir_def disk_state_def)
  next
    case (Suc i)
    then have i: "i < ?n" using k by simp
    have "of_nat k \<noteq> (0 :: u32)" using Suc i n of_nat_u32_inj [of k 0] by simp
    moreover have "\<not> of_nat ?n \<le> (of_nat i :: u32)" using i n by (simp add: word_le_nat_alt unat_of_nat_u32)
    ultimately have un: "readdir lk r (of_nat k) s =
       kthen (strcpy ?d (nod (r + 8192) i))
       (kbind (strlen (nod (r + 8192) i)) (\<lambda>n.
        kthen (store8 (?d + n) 0)
       (kbind (load32 (inode_ino (nod (r + 8192) i))) (\<lambda>ino.
        kthen (store32 (dentry_ino ?d) ino)
              (kreturn ?d))))) s"
      using Suc st nod_root_node [of s "r + 8192" i] by (simp add: readdir_def disk_state_def)
    have "W' = dentry_view ?d (names ! i) (of_nat i) W" by (simp add: W'_def listed_def Suc)
    from writesE [OF readdir_file_writes [OF up d i] v, folded this un] show ?thesis using up' by blast
  qed
qed

lemma readdir_end:
  assumes "disk_up D tr lk addr r names W s"
  shows "readdir lk r (of_nat (Suc (length names))) s = Inr (0, s)"
proof -
  let ?n = "length names"
  have n: "?n < 2147483648" and st: "disk_state addr r ?n s" using assms by (simp_all add: disk_up_def)
  have "of_nat (Suc ?n) \<noteq> (0 :: u32)" using n of_nat_u32_inj [of "Suc ?n" 0] by simp
  then show ?thesis using st by (simp add: readdir_def disk_state_def)
qed

section \<open>Reading a mounted file\<close>

text \<open>A node whose words are in the region is a file with the bytes at its place.\<close>

lemma file_holdsI:
  assumes "view D tr W s" "node_in D s W node"
  shows "file_holds D tr s node (vread W (file_start s W node) (unat (file_count s W node)))"
    and "footprint s (shown tr s) node = footprint s W node"
proof -
  have "shown tr s x = W x" if "x \<in> footprint s W node" for x
    using that footprint_in [OF assms(2)] view_eq_shown [OF assms(1)] by blast
  note same = node_reads_cong [of s W node, OF this refl]
  then show "file_holds D tr s node (vread W (file_start s W node) (unat (file_count s W node)))"
    using assms by (simp add: file_holds_def node_in_def view_def)
  show "footprint s (shown tr s) node = footprint s W node" using same(1-3) by (simp add: footprint_def)
qed

lemma disk_file_holds:
  assumes up: "disk_up D tr lk addr r names W s" and i: "i < length names"
    and data: "block (get32 W (file_offset (hdr addr i))) (unat (get32 W (file_length (hdr addr i)))) \<subseteq> D"
  shows "file_holds D tr s (nod (r + 8192) i)
      (vread W (get32 W (file_offset (hdr addr i))) (unat (get32 W (file_length (hdr addr i)))))"
    and "node_header s W (nod (r + 8192) i) = hdr addr i"
    and "footprint s (shown tr s) (nod (r + 8192) i) = footprint s W (nod (r + 8192) i)"
    and "node_in D s W (nod (r + 8192) i)"
proof -
  note nd = disk_node [OF up i] and D = disk_in [OF up]
  have ino: "get32 W (inode_ino (nod (r + 8192) i)) = of_nat i"
    using up i by (simp add: disk_up_def file_entry_def file_fields_def inode_layout_nat)
  have "file_headers s = addr + initrd_header_size" using up by (simp add: disk_up_def disk_state_def)
  then show h: "node_header s W (nod (r + 8192) i) = hdr addr i"
    by (simp add: node_header_def ino hdr_file_header)
  show nin: "node_in D s W (nod (r + 8192) i)"
    using data header_fields [OF nd(4)] inode_fields_aligned(5) [OF nd(2)] inode_fields_block(5) [of "nod (r + 8192) i"]
      nd(1,3) D unfolding node_in_def file_start_def file_count_def h by auto
  from file_holdsI [OF _ nin] up show "file_holds D tr s (nod (r + 8192) i)
      (vread W (get32 W (file_offset (hdr addr i))) (unat (get32 W (file_length (hdr addr i)))))"
    "footprint s (shown tr s) (nod (r + 8192) i) = footprint s W (nod (r + 8192) i)"
    by (simp_all add: disk_up_def file_start_def file_count_def h)
qed

section \<open>An image of the build tool in memory\<close>

definition loaded :: "(u32 \<Rightarrow> u8) \<Rightarrow> u32 \<Rightarrow> u8 list \<Rightarrow> bool" where
  "loaded V addr img \<longleftrightarrow> (\<forall>j<length img. V (addr + of_nat j) = img ! j)"

lemma loaded_nth: "loaded V addr img \<Longrightarrow> j < length img \<Longrightarrow> V (addr + of_nat j) = img ! j"
  by (simp add: loaded_def)

lemma loaded_word:
  assumes "loaded V addr img" "p + 4 \<le> length img"
  shows "get32 V (addr + of_nat p) = word_at img p"
proof -
  have "V (addr + of_nat (p + k)) = img ! (p + k)" if "k < 4" for k
    by (rule loaded_nth [OF assms(1)]) (use assms(2) that in linarith)
  from this [of 0] this [of 1] this [of 2] this [of 3] show ?thesis
    by (simp add: get32_def word_at_def ac_simps)
qed

lemma loaded_slice:
  assumes "loaded V addr img" "p + n \<le> length img"
  shows "vread V (addr + of_nat p) n = take n (drop p img)"
proof (rule nth_equalityI)
  fix i
  assume "i < length (vread V (addr + of_nat p) n)"
  then have "i < n" by simp
  then have "V (addr + of_nat (p + i)) = img ! (p + i)"
    by (intro loaded_nth [OF assms(1)]) (use assms(2) in linarith)
  with \<open>i < n\<close> assms(2) show "vread V (addr + of_nat p) n ! i = take n (drop p img) ! i"
    by (simp add: add.assoc)
qed (use assms(2) in simp)

lemma start_of_mono: "i \<le> j \<Longrightarrow> start_of datas i \<le> start_of datas j"
proof -
  assume "i \<le> j"
  then have "take j datas = take i datas @ take (j - i) (drop i datas)"
    by (metis le_add_diff_inverse take_add)
  then show ?thesis by (simp add: start_of_def)
qed

lemma start_of_fits: "i < length datas \<Longrightarrow> start_of datas i + length (datas ! i) \<le> start_of datas (length datas)"
  using start_of_mono [of "Suc i" "length datas" datas] start_of_Suc [of i datas] by simp

text \<open>Names as the build tool receives them: not empty, terminated by a zero byte, fewer than 64 characters.\<close>

definition good_name :: "u8 list \<Rightarrow> bool" where
  "good_name cs \<longleftrightarrow> cs \<noteq> [] \<and> 0 \<notin> set cs \<and> length cs < 64"

lemma loaded_image_ok:
  assumes "loaded V addr img" "image_of names datas img" "names \<noteq> []" "\<forall>cs \<in> set names. good_name cs"
    and "aligned4 addr" "unat addr + length img \<le> 4294967296" "block addr (length img) \<subseteq> D"
  shows "image_ok D V addr names"
    and "i < length names \<Longrightarrow> get32 V (file_offset (hdr addr i)) = of_nat (start_of datas i)"
    and "i < length names \<Longrightarrow> get32 V (file_length (hdr addr i)) = of_nat (length (datas ! i))"
    and "i < length names \<Longrightarrow> vread V (addr + of_nat (start_of datas i)) (length (datas ! i)) = datas ! i"
proof -
  have n: "length names = length datas" "length datas \<le> 64" and len: "length img = start_of datas (length datas)"
    and cnt: "word_at img 0 = of_nat (length datas)"
    and im: "\<And>i. i < length datas \<Longrightarrow> (\<forall>j<length (names ! i). img ! (4 + 76 * i + 1 + j) = names ! i ! j)
          \<and> img ! (4 + 76 * i + 1 + length (names ! i)) = 0
          \<and> word_at img (4 + 76 * i + 68) = of_nat (start_of datas i)
          \<and> word_at img (4 + 76 * i + 72) = of_nat (length (datas ! i))
          \<and> take (length (datas ! i)) (drop (start_of datas i) img) = datas ! i"
    using assms(2) by (simp_all add: image_of_def)
  have big: "4868 \<le> length img" by (simp add: len start_of_def)
  have w: "get32 V (addr + of_nat p) = word_at img p" if "p + 4 \<le> 4868" for p
    using loaded_word [OF assms(1)] that big by simp
  have b: "4 + 76 * i + 76 \<le> 4868" if "i < length names" for i using that n by simp
  have str: "vstr V (file_name (hdr addr i)) (names ! i)" if i: "i < length names" for i
  proof -
    have g: "good_name (names ! i)" using assms(4) i by simp
    have "V (file_name (hdr addr i) + of_nat j) = img ! (4 + 76 * i + 1 + j)" if "j < 64" for j
    proof -
      have "4 + 76 * i + 1 + j < length img" using b [OF i] that big by linarith
      then have "V (addr + of_nat (4 + 76 * i + 1 + j)) = img ! (4 + 76 * i + 1 + j)" by (rule loaded_nth [OF assms(1)])
      then show ?thesis by (simp add: header_layout hdr_def add.assoc add.commute add.left_commute)
    qed
    then show ?thesis using im [of i] i n g by (simp add: vstr_def good_name_def)
  qed
  show "image_ok D V addr names"
    unfolding image_ok_def
  proof (intro conjI allI impI)
    have small: "4 + 76 * length names \<le> length img" using n big by simp
    show "unat addr + (4 + 76 * length names) \<le> 4294967296" using small assms(6) by linarith
    show "block addr (4 + 76 * length names) \<subseteq> D" using block_mono [OF small, of addr] assms(7) by blast
    show "get32 V addr = of_nat (length names)" using w [of 0] cnt n by simp
  qed (use assms(3-5) str in \<open>auto simp: good_name_def\<close>)
  assume i: "i < length names"
  show "get32 V (file_offset (hdr addr i)) = of_nat (start_of datas i)"
      "get32 V (file_length (hdr addr i)) = of_nat (length (datas ! i))"
    using w [of "4 + 76 * i + 68"] w [of "4 + 76 * i + 72"] b [OF i] im [of i] i n
    by (simp_all add: header_layout hdr_def add.assoc)
  show "vread V (addr + of_nat (start_of datas i)) (length (datas ! i)) = datas ! i"
    using loaded_slice [OF assms(1), of "start_of datas i" "length (datas ! i)"] im [of i] start_of_fits [of i datas] i n len
    by simp
qed

section \<open>From the build tool to the reader\<close>

text \<open>The image in memory, and beside it fresh memory for the nodes and the program's strings.\<close>

definition image_loaded ::
  "u32 set \<Rightarrow> linkage \<Rightarrow> (u32 \<Rightarrow> u8) \<Rightarrow> u32 \<Rightarrow> u32 \<Rightarrow> u8 list \<Rightarrow> nat \<Rightarrow> bool" where
  "image_loaded D lk V addr r img n \<longleftrightarrow> loaded V addr img \<and> aligned4 addr \<and> unat addr + length img \<le> 4294967296
     \<and> block addr (length img) \<union> heap_for r n \<subseteq> D \<and> heap_for r n \<inter> block addr (length img) = {}
     \<and> (\<forall>x \<in> heap_for r n. V x = 0)
     \<and> literal D (heap_for r n \<union> block addr (length img)) V (initrd_str lk) (ascii ''initrd'')
     \<and> literal D (heap_for r n \<union> block addr (length img)) V (dev_str lk) (ascii ''dev'')"

lemma literal_mono: "literal D H V a cs \<Longrightarrow> H' \<subseteq> H \<Longrightarrow> literal D H' V a cs"
  by (auto simp: literal_def)

lemma image_headers:
  assumes "image_of names datas img"
  shows "block addr (4 + 76 * length names) \<subseteq> block addr (length img)"
    "disk_memory addr r (length names) \<subseteq> heap_for r (length names) \<union> block addr (length img)"
proof -
  have "4 + 76 * length names \<le> length img" using assms by (simp add: image_of_def start_of_def)
  then show "block addr (4 + 76 * length names) \<subseteq> block addr (length img)" by (rule block_mono)
  then show "disk_memory addr r (length names) \<subseteq> heap_for r (length names) \<union> block addr (length img)"
    by (auto simp: disk_memory_def)
qed

lemma image_mountable:
  assumes "image_loaded D lk V addr r img (length names)" "image_of names datas img" "names \<noteq> []"
    and "\<forall>cs \<in> set names. good_name cs"
  shows "mountable D lk V addr r names"
proof -
  have ld: "loaded V addr img" "aligned4 addr" "unat addr + length img \<le> 4294967296" "block addr (length img) \<subseteq> D"
      "heap_for r (length names) \<subseteq> D" "heap_for r (length names) \<inter> block addr (length img) = {}"
      "\<forall>x \<in> heap_for r (length names). V x = 0"
      "literal D (heap_for r (length names) \<union> block addr (length img)) V (initrd_str lk) (ascii ''initrd'')"
      "literal D (heap_for r (length names) \<union> block addr (length img)) V (dev_str lk) (ascii ''dev'')"
    using assms(1) by (simp_all add: image_loaded_def)
  show ?thesis
    unfolding mountable_def
    using loaded_image_ok(1) [OF ld(1) assms(2-4) ld(2-4)] ld(5-7) image_headers(1) [OF assms(2), of addr] image_headers(2) [OF assms(2), of addr r]
      literal_mono [OF ld(8)] literal_mono [OF ld(9)] by blast
qed

lemma node_of_first:
  assumes "i < length names" "names ! i \<noteq> ascii ''dev''" "\<forall>j<i. names ! j \<noteq> names ! i"
  shows "node_of r names (names ! i) = nod (r + 8192) i"
proof -
  have "find (\<lambda>j. names ! j = names ! i) [0..<length names] = Some i"
    unfolding find_Some_iff using assms(1,3) by (intro exI [of _ i]) simp
  then show ?thesis using assms(2) by (simp add: node_of_def)
qed

lemma mounted_file_data:
  assumes ld: "image_loaded D lk V addr r img (length names)" and im: "image_of names datas img"
    and names: "names \<noteq> []" "\<forall>cs \<in> set names. good_name cs"
    and mt: "mounted lk addr r names V W" and i: "i < length names"
  shows "get32 W (file_offset (hdr addr i)) = addr + of_nat (start_of datas i)"
    and "unat (get32 W (file_length (hdr addr i))) = length (datas ! i)"
    and "vread W (addr + of_nat (start_of datas i)) (length (datas ! i)) = datas ! i"
    and "block (addr + of_nat (start_of datas i)) (length (datas ! i)) \<subseteq> block addr (length img)"
proof -
  let ?B = "block (addr + of_nat (start_of datas i)) (length (datas ! i))"
  have l: "loaded V addr img" "aligned4 addr" "unat addr + length img \<le> 4294967296" "block addr (length img) \<subseteq> D"
      "heap_for r (length names) \<inter> block addr (length img) = {}"
    using ld by (simp_all add: image_loaded_def)
  note lo = loaded_image_ok [OF l(1) im names l(2-4)]
  have len: "length names = length datas" "length datas \<le> 64" "length img = start_of datas (length datas)"
    using im by (simp_all add: image_of_def)
  have fits: "start_of datas i + length (datas ! i) \<le> length img" using start_of_fits [of i datas] i len by simp
  show "get32 W (file_offset (hdr addr i)) = addr + of_nat (start_of datas i)"
    using mt i lo(2) [OF i] by (simp add: mounted_def file_done_def add.commute)
  have "get32 W (file_length (hdr addr i)) = of_nat (length (datas ! i))"
    using mt i lo(3) [OF i] by (simp add: mounted_def file_done_def)
  moreover have "length (datas ! i) < 4294967296" using fits l(3) by (simp add: start_of_def)
  ultimately show "unat (get32 W (file_length (hdr addr i))) = length (datas ! i)" by (simp add: unat_of_nat_u32)
  show B: "?B \<subseteq> block addr (length img)" using fits by (rule sub_block)
  have "?B \<inter> block addr (4 + 76 * length names) = {}"
  proof -
    have "block (addr + of_nat 0) (4 + 76 * length names) \<inter> ?B = {}"
      using fits l(3) len by (intro sub_blocks_disjoint) (simp_all add: start_of_def)
    then show ?thesis by auto
  qed
  then have "W x = V x" if "x \<in> ?B" for x
    using that B l(5) by (intro mounted_outside [OF mt l(2)]) (auto simp: disk_memory_def)
  then have "vread W (addr + of_nat (start_of datas i)) (length (datas ! i)) = vread V (addr + of_nat (start_of datas i)) (length (datas ! i))"
    by (rule vread_cong)
  with lo(4) [OF i] show "vread W (addr + of_nat (start_of datas i)) (length (datas ! i)) = datas ! i" by simp
qed

end
