(* ===== verification/RamdiskProps.thy ===== *)
theory RamdiskProps
  imports RamdiskUse
begin

text \<open>
  The properties of the ramdisk as its clients see them, through \<open>ramdisk_init\<close> and the operations of
  the virtual file system, and a small disk to which they are applied.
\<close>

section \<open>Through the virtual file system\<close>

lemma finddir_fs_run:
  assumes up: "disk_up D tr lk addr r names W s" and "name_at D W a nm"
    and "finddir_addr lk \<noteq> 0" "run (finddir_addr lk) = finddir lk"
  shows "finddir_fs run r a s = Inr (node_of r names nm, s)"
proof -
  have "load32 (inode_flags r) s = Inr (FS_DIRECTORY, s)" "load32 (inode_finddir r) s = Inr (finddir_addr lk, s)"
    unfolding inode_layout_nat by (rule dir_load [OF up], simp add: dir_fields_def)+
  then show ?thesis using finddir_run [OF up assms(2)] assms(3,4) by (simp add: finddir_fs_def)
qed

lemma readdir_fs_eq:
  assumes up: "disk_up D tr lk addr r names W s" and "readdir_addr lk \<noteq> 0" "run (readdir_addr lk) = readdir lk"
  shows "readdir_fs run r k s = readdir lk r k s"
proof -
  have "load32 (inode_flags r) s = Inr (FS_DIRECTORY, s)" "load32 (inode_readdir r) s = Inr (readdir_addr lk, s)"
    unfolding inode_layout_nat by (rule dir_load [OF up], simp add: dir_fields_def)+
  then show ?thesis using assms(2,3) by (simp add: readdir_fs_def)
qed

lemma listed_name:
  assumes "disk_up D tr lk addr r names W s" "k \<le> length names"
  shows "length (fst (listed names k)) < 64" "0 \<notin> set (fst (listed names k))"
  using assms disk_node(5,6) [OF assms(1)] by (cases k; auto simp: listed_def ascii_names vstr_def)+

text \<open>A file of the image on the mounted disk: its bytes, what they occupy, and its operation.\<close>

lemma mounted_file_ready:
  assumes ld: "image_loaded D lk V addr r img (length names)" and im: "image_of names datas img"
    and names: "names \<noteq> []" "\<forall>cs \<in> set names. good_name cs"
    and up: "disk_up D tr lk addr r names W s" and mt: "mounted lk addr r names V W" and i: "i < length names"
  shows "file_holds D tr s (nod (r + 8192) i) (datas ! i)"
    and "footprint s (shown tr s) (nod (r + 8192) i) \<subseteq> heap_for r (length names) \<union> block addr (length img)"
    and "load32 (inode_read (nod (r + 8192) i)) s = Inr (read_addr lk, s)"
proof -
  let ?node = "nod (r + 8192) i" and ?H = "heap_for r (length names) \<union> block addr (length img)"
  have D: "block addr (length img) \<subseteq> D" using ld by (simp add: image_loaded_def)
  note H = image_headers(2) [OF im, of addr r] and data = mounted_file_data [OF ld im names mt i]
  note nd = disk_node [OF up i]
  have "block (addr + of_nat (start_of datas i)) (length (datas ! i)) \<subseteq> D" using data(4) D by blast
  then have hd: "node_header s W ?node = hdr addr i" and fp: "footprint s (shown tr s) ?node = footprint s W ?node"
    and holds: "file_holds D tr s ?node (datas ! i)"
    using disk_file_holds [OF up i] by (simp_all add: data(1-3))
  show "file_holds D tr s ?node (datas ! i)" by (rule holds)
  show "footprint s (shown tr s) ?node \<subseteq> ?H"
    unfolding fp unfolding footprint_def file_start_def file_count_def hd data(1,2)
    using inode_fields_block(5) [of ?node] header_fields(3,4) [OF nd(4)] nd(1,3) H data(4) by blast
  show "load32 (inode_read ?node) s = Inr (read_addr lk, s)"
    unfolding inode_layout_nat by (rule file_load [OF up i]) (simp add: file_fields_def)
qed

section \<open>Properties\<close>

text \<open>
  C12: on an image with at least one file and named headers, and with enough fresh memory, \<open>ramdisk_init\<close> returns
  the root node. Afterwards the root and \<open>dev\<close> directories and one node per file are in place, with
  names, lengths, inode numbers and function pointers; the headers hold addresses in place of
  offsets; nothing else in memory has changed; and the allocator stands behind the last node.
\<close>

theorem ramdisk_mounts:
  fixes s :: "'a ramdisk_st_scheme"
  assumes "view D tr V s" "mountable D lk V addr r names" "arena_ok s" "page_up (currentBase s) = r"
    and "unat r + 8192 + 184 * length names \<le> unat (maxBase s)"
  shows "\<exists>s' W. ramdisk_init lk addr n s = Inr (r, s') \<and> view D tr W s' \<and> mounted lk addr r names V W
    \<and> disk_state addr r (length names) s' \<and> arena_ok s'
    \<and> unat (currentBase s') = unat r + 8192 + 184 * length names \<and> (\<forall>x. x \<notin> tr ` D \<longrightarrow> mem s' x = mem s x)"
  using ramdisk_init_run [OF assms, of n] by blast

text \<open>
  C22: looking up a name in the root of a mounted disk gives the \<open>dev\<close> directory for \<open>dev\<close>, otherwise the
  node of the first file with that name, and the null pointer when there is none; nothing is written.
\<close>

theorem finddir_resolves:
  assumes "disk_up D tr lk addr r names W s" "name_at D W a nm"
    and "finddir_addr lk \<noteq> 0" "run (finddir_addr lk) = finddir lk"
  shows "finddir_fs run r a s = Inr (node_of r names nm, s)"
  by (rule finddir_fs_run [where run = run, OF assms])

text \<open>
  C21: reading the root directory at the indices from 0 on gives an entry for \<open>dev\<close> and then one for every file
  in the order of the image, each with the terminated name and the inode number, and after the last
  one the null pointer. The disk stays mounted as it was.
\<close>

theorem readdir_lists:
  fixes s :: "'a ramdisk_st_scheme"
  assumes "disk_up D tr lk addr r names W s" "dentry_ok D lk addr r (length names)"
    and "readdir_addr lk \<noteq> 0" "run (readdir_addr lk) = readdir lk" "k \<le> Suc (length names)"
  shows "if k = Suc (length names) then readdir_fs run r (of_nat k) s = Inr (0, s)
    else \<exists>s' W'. readdir_fs run r (of_nat k) s = Inr (dentry lk, s') \<and> disk_up D tr lk addr r names W' s'
      \<and> vstr W' (dentry lk) (fst (listed names k)) \<and> get32 W' (dentry_ino (dentry lk)) = snd (listed names k)"
proof (cases "k = Suc (length names)")
  case True
  then show ?thesis using readdir_end [OF assms(1)] readdir_fs_eq [where run = run, OF assms(1,3,4)] by simp
next
  case False
  then have k: "k \<le> length names" using assms(5) by simp
  let ?W = "dentry_view (dentry lk) (fst (listed names k)) (snd (listed names k)) W"
  have "dentry_ino (dentry lk) = dentry lk + of_nat 64" by (simp add: dentry_ino_def)
  then have "vstr ?W (dentry lk) (fst (listed names k))" "get32 ?W (dentry_ino (dentry lk)) = snd (listed names k)"
    using dentry_view_shows [OF listed_name [OF assms(1) k], of "dentry lk" "snd (listed names k)" W] by simp_all
  with readdir_run [OF assms(1,2) k] False
  show ?thesis unfolding readdir_fs_eq [where run = run, OF assms(1,3,4)] by metis
qed


text \<open>
  C1: the whole way of a file: the build tool puts the files into an image, the image is in memory when
  \<open>ramdisk_init\<close> runs, and then looking up the name of a file and reading the node with a
  large enough buffer delivers exactly the bytes that the file had on the build host.
\<close>

theorem initrd_file_read_back:
  fixes s :: "'a ramdisk_st_scheme"
  assumes tool: "args_ok files argv datas" "args_ok files' argv datas" "length stack = 4864"
      "start_of datas (length datas) < 4294967296" "initrd_main files files' fresh stack argv = Inr img"
    and names: "names = arg_names argv (length datas)" "names \<noteq> []" "\<forall>cs \<in> set names. good_name cs"
    and boot: "view D tr V s" "image_loaded D lk V addr r img (length names)" "arena_ok s"
      "page_up (currentBase s) = r" "unat r + 8192 + 184 * length names \<le> unat (maxBase s)"
    and entry: "i < length names" "names ! i \<noteq> ascii ''dev''" "\<forall>j<i. names ! j \<noteq> names ! i"
    and client: "name_at D V a (names ! i)" "length (datas ! i) \<le> unat n" "block b (unat n) \<subseteq> D"
      "(block a (Suc (length (names ! i))) \<union> block b (unat n)) \<inter> (heap_for r (length names) \<union> block addr (length img)) = {}"
    and code: "finddir_addr lk \<noteq> 0" "fd (finddir_addr lk) = finddir lk" "read_addr lk \<noteq> 0" "rd (read_addr lk) = read"
  shows "\<exists>s1 s2 node. ramdisk_init lk addr sz s = Inr (r, s1) \<and> finddir_fs fd r a s1 = Inr (node, s1)
    \<and> read_fs rd node 0 n b s1 = Inr (of_nat (length (datas ! i)), s2)
    \<and> vread (shown tr s2) b (length (datas ! i)) = datas ! i"
proof -
  let ?node = "nod (r + 8192) i"
  have im: "image_of names datas img" using initrd_main_image [OF tool(1-4), of fresh] tool(5) names(1) by simp
  have m: "mountable D lk V addr r names" by (rule image_mountable [OF boot(2) im names(2,3)])
  obtain s1 W where s1: "ramdisk_init lk addr sz s = Inr (r, s1)" "disk_up D tr lk addr r names W s1"
      "mounted lk addr r names V W"
    using ramdisk_init_up [OF boot(1) m boot(3-5)] by blast
  have al: "aligned4 addr" using boot(2) by (simp add: image_loaded_def)
  note ready = mounted_file_ready [OF boot(2) im names(2,3) s1(2,3) entry(1)]
  have "W x = V x" if "x \<in> block a (Suc (length (names ! i)))" for x
    using that client(4) image_headers(2) [OF im, of addr r] by (intro mounted_outside [OF s1(3) al]) blast
  then have nm: "name_at D W a (names ! i)" using client(1) vstr_cong by (auto simp: name_at_def)
  have find: "finddir_fs fd r a s1 = Inr (?node, s1)"
    using finddir_fs_run [where run = fd, OF s1(2) nm code(1,2)] node_of_first [OF entry] by simp
  have room: "file_room D tr s1 ?node b (unat n)" using client(3,4) ready(2) unfolding file_room_def by blast
  from ramdisk.read_fs_whole [where run = rd, OF ready(1) room client(2) ready(3) code(3,4)] s1(1) find show ?thesis
    by (auto simp: file_bytes_def)
qed

section \<open>A small disk\<close>

text \<open>
  The image of two files at one megabyte, the program's strings at two and the arena at three, on a
  machine without paging.
\<close>

definition sample_img :: "u8 list" where
  "sample_img = (case initrd_main sample_files sample_files (\<lambda>_. 0) (replicate 4864 0) sample_argv of
     Inr img \<Rightarrow> img | Inl _ \<Rightarrow> [])"

definition sample_names :: "u8 list list" where "sample_names = [[97], [98, 99]]"
definition sample_datas :: "u8 list list" where "sample_datas = [[72, 105, 0], [0]]"

lemma sample_image:
  "initrd_main sample_files sample_files (\<lambda>_. 0) (replicate 4864 0) sample_argv = Inr sample_img"
  "image_of sample_names sample_datas sample_img"
proof -
  obtain img where "initrd_main sample_files sample_files (\<lambda>_. 0) (replicate 4864 0) sample_argv = Inr img"
      "image_of sample_names sample_datas img"
    using initrd_main_image [OF sample_args sample_args, of "replicate 4864 0" "\<lambda>_. 0"]
    by (auto simp: start_of_def arg_names_def sample_argv_def sample_names_def sample_datas_def)
  then show "initrd_main sample_files sample_files (\<lambda>_. 0) (replicate 4864 0) sample_argv = Inr sample_img"
      "image_of sample_names sample_datas sample_img"
    by (simp_all add: sample_img_def)
qed

lemma sample_count: "length sample_names = 2"
  by (simp add: sample_names_def)

lemma sample_img_length: "length sample_img = 4872"
  using sample_image(2) by (simp add: image_of_def start_of_def sample_datas_def)

definition sample_lk :: linkage where
  "sample_lk = \<lparr>dentry = 0x200100, dev_str = 0x200010, initrd_str = 0x200000,
     read_addr = 1, readdir_addr = 2, finddir_addr = 3\<rparr>"

definition sample_V :: "u32 \<Rightarrow> u8" where
  "sample_V x = (if x \<in> block 0x100000 4872 then sample_img ! unat (x - 0x100000)
     else if x \<in> block 0x200000 6 then ascii ''initrd'' ! unat (x - 0x200000)
     else if x \<in> block 0x200010 3 then ascii ''dev'' ! unat (x - 0x200010)
     else if x = 0x200020 then 97 else 0)"

definition sample_disk :: ramdisk_st where
  "sample_disk = paging_st.extend
     (sample_boot\<lparr>mem := sample_V, cr0 := 0, initialBase := 0x300000, currentBase := 0x300000, maxBase := 0x400000\<rparr>)
     \<lparr>initrd_h = 0, file_headers = 0, nroot_nodes = 0, root = 0, dev = 0, root_nodes = 0\<rparr>"

lemma sample_disk_fields [simp]:
  "mem sample_disk = sample_V" "cr0 sample_disk = 0" "initialized sample_disk = 1" "initialBase sample_disk = 0x300000"
  "currentBase sample_disk = 0x300000" "maxBase sample_disk = 0x400000"
  by (simp_all add: sample_disk_def paging_st.defs sample_boot_def timer_st.defs sample_timer_def idt_st.defs sample_idt_def gdt_st.defs
      sample_gdt_def isr_st.defs sample_isr_def)

lemma sample_view: "view UNIV (\<lambda>va. va) sample_V sample_disk"
  by (auto simp: view_def mapped_def mmu_walk_def walk_reads_def paging_on_def)

lemma sample_blocks:
  "x \<in> block 0x100000 4872 \<longleftrightarrow> 1048576 \<le> unat x \<and> unat x < 1053448"
  "x \<in> block 0x200000 6 \<longleftrightarrow> 2097152 \<le> unat x \<and> unat x < 2097158"
  "x \<in> block 0x200000 7 \<longleftrightarrow> 2097152 \<le> unat x \<and> unat x < 2097159"
  "x \<in> block 0x200010 3 \<longleftrightarrow> 2097168 \<le> unat x \<and> unat x < 2097171"
  "x \<in> block 0x200010 4 \<longleftrightarrow> 2097168 \<le> unat x \<and> unat x < 2097172"
  "x \<in> heap_for 0x300000 2 \<longleftrightarrow> 3145728 \<le> unat x \<and> unat x < 3154288"
  unfolding heap_for_def by (subst mem_block_iff; simp)+

lemma sample_literals:
  "literal UNIV (heap_for 0x300000 2 \<union> block 0x100000 4872) sample_V 0x200000 (ascii ''initrd'')"
  "literal UNIV (heap_for 0x300000 2 \<union> block 0x100000 4872) sample_V 0x200010 (ascii ''dev'')"
proof -
  have V: "sample_V (0x200000 + of_nat i) = (if i < 6 then ascii ''initrd'' ! i else 0)" if "i \<le> 6" for i
    using that unat_add_of_nat [of "0x200000" i] by (auto simp: sample_V_def sample_blocks addr_nat word_unat_eq_iff)
  have V2: "sample_V (0x200010 + of_nat i) = (if i < 3 then ascii ''dev'' ! i else 0)" if "i \<le> 3" for i
    using that unat_add_of_nat [of "0x200010" i] by (auto simp: sample_V_def sample_blocks addr_nat word_unat_eq_iff)
  have "Suc (length (ascii ''initrd'')) = 7" "length (ascii ''initrd'') = 6" "length (ascii ''dev'') = 3"
    by (simp_all add: ascii_names)
  then show "literal UNIV (heap_for 0x300000 2 \<union> block 0x100000 4872) sample_V 0x200000 (ascii ''initrd'')"
      "literal UNIV (heap_for 0x300000 2 \<union> block 0x100000 4872) sample_V 0x200010 (ascii ''dev'')"
    using V [of 6] V2 [of 3] V V2
    by (auto simp: literal_def vstr_def ascii_dev_length sample_blocks) (auto simp: ascii_names)
qed

lemma sample_loaded: "image_loaded UNIV sample_lk sample_V 0x100000 0x300000 sample_img (length sample_names)"
proof -
  have "sample_V (0x100000 + of_nat j) = sample_img ! j" if "j < 4872" for j
    using that by (simp add: sample_V_def block_mem addr_nat)
  then have "loaded sample_V 0x100000 sample_img" by (simp add: loaded_def sample_img_length)
  moreover have "sample_V x = 0" if "x \<in> heap_for 0x300000 2" for x
    using that by (auto simp: sample_V_def sample_blocks word_unat_eq_iff)
  moreover have "heap_for 0x300000 2 \<inter> block 0x100000 4872 = {}" by (auto simp: sample_blocks)
  ultimately show ?thesis
    using sample_literals by (simp add: image_loaded_def sample_img_length sample_count aligned4_def sample_lk_def)
qed

lemma sample_good: "sample_names \<noteq> []" "\<forall>cs \<in> set sample_names. good_name cs"
  by (simp_all add: sample_names_def good_name_def)

lemma sample_mountable: "mountable UNIV sample_lk sample_V 0x100000 0x300000 sample_names"
  by (rule image_mountable [OF sample_loaded sample_image(2) sample_good])

lemma sample_arena_disk:
  "arena_ok sample_disk" "page_up (currentBase sample_disk) = 0x300000"
  "unat (0x300000 :: u32) + 8192 + 184 * length sample_names \<le> unat (maxBase sample_disk)"
  by (simp_all add: arena_ok_def page_up_def PAGE_ALIGN_def sample_count)

lemma sample_up:
  "\<exists>s W. ramdisk_init sample_lk 0x100000 4872 sample_disk = Inr (0x300000, s)
     \<and> disk_up UNIV (\<lambda>va. va) sample_lk 0x100000 0x300000 sample_names W s
     \<and> mounted sample_lk 0x100000 0x300000 sample_names sample_V W"
  using ramdisk_init_up [OF sample_view sample_mountable sample_arena_disk] by blast

lemma sample_name: "name_at UNIV sample_V 0x200020 [97]"
  by (simp add: name_at_def vstr_def) (auto simp: sample_V_def sample_blocks)

lemma sample_apart:
  "block 0x200020 2 \<inter> (heap_for 0x300000 2 \<union> block 0x100000 4872) = {}"
  "block 0x500000 16 \<inter> (heap_for 0x300000 2 \<union> block 0x100000 4872) = {}"
  "block 0x200100 68 \<inter> (heap_for 0x300000 2 \<union> block 0x100000 4872) = {}"
  "block 0x200100 68 \<inter> block 0x200010 4 = {}"
  by (auto simp: sample_blocks mem_block_iff)

lemma sample_name_up:
  assumes "mounted sample_lk 0x100000 0x300000 sample_names sample_V W"
  shows "name_at UNIV W 0x200020 [97]"
proof -
  have "W x = sample_V x" if "x \<in> block 0x200020 2" for x
    using that sample_apart(1) image_headers(2) [OF sample_image(2), of "0x100000" "0x300000"]
    unfolding sample_img_length sample_count
    by (intro mounted_outside [OF assms]) (auto simp: aligned4_def sample_count)
  then show ?thesis
    using sample_name vstr_cong [of sample_V "0x200020" "[97]" W] by (simp add: name_at_def numeral_2_eq_2)
qed

theorem ramdisk_mounts_witness:
  "\<exists>s' W. ramdisk_init sample_lk 0x100000 4872 sample_disk = Inr (0x300000, s')
     \<and> mounted sample_lk 0x100000 0x300000 sample_names sample_V W \<and> disk_state 0x100000 0x300000 2 s'"
  using ramdisk_mounts [OF sample_view sample_mountable sample_arena_disk, of 4872] sample_count by auto

theorem finddir_resolves_witness:
  "\<exists>s :: ramdisk_st. finddir_fs (\<lambda>_. finddir sample_lk) 0x300000 0x200020 s = Inr (0x302000, s)"
proof -
  obtain s :: ramdisk_st and W where s: "disk_up UNIV (\<lambda>va. va) sample_lk 0x100000 0x300000 sample_names W s"
      "mounted sample_lk 0x100000 0x300000 sample_names sample_V W"
    using sample_up by blast
  have "finddir_fs (\<lambda>_. finddir sample_lk) 0x300000 0x200020 s = Inr (node_of 0x300000 sample_names [97], s)"
    by (rule finddir_resolves [OF s(1) sample_name_up [OF s(2)]]) (simp_all add: sample_lk_def)
  moreover have "node_of 0x300000 sample_names [97] = 0x302000"
    by (simp add: node_of_def sample_names_def ascii_names nod_def upt_rec)
  ultimately show ?thesis by auto
qed

theorem readdir_lists_witness:
  "\<exists>(s :: ramdisk_st) s' W'. readdir_fs (\<lambda>_. readdir sample_lk) 0x300000 2 s = Inr (0x200100, s')
     \<and> vstr W' 0x200100 [98, 99] \<and> view UNIV (\<lambda>va. va) W' s'"
proof -
  obtain s :: ramdisk_st and W where s: "disk_up UNIV (\<lambda>va. va) sample_lk 0x100000 0x300000 sample_names W s"
    using sample_up by blast
  have "dentry_ok UNIV sample_lk 0x100000 0x300000 (length sample_names)"
    using sample_apart(3,4) image_headers(2) [OF sample_image(2), of "0x100000" "0x300000"]
    by (auto simp: dentry_ok_def sample_lk_def aligned4_def sample_img_length sample_count)
  moreover have "fst (listed sample_names 2) = [98, 99]" "readdir_addr sample_lk \<noteq> 0" "dentry sample_lk = 0x200100"
    by (simp_all add: listed_def sample_names_def sample_lk_def numeral_2_eq_2)
  ultimately show ?thesis
    using readdir_lists [OF s, where run = "\<lambda>_. readdir sample_lk" and k = 2]
    by (auto simp: sample_count disk_up_def)
qed


theorem initrd_file_read_back_witness:
  "\<exists>s1 s2 node. ramdisk_init sample_lk 0x100000 4872 sample_disk = Inr (0x300000, s1)
     \<and> finddir_fs (\<lambda>_. finddir sample_lk) 0x300000 0x200020 s1 = Inr (node, s1)
     \<and> read_fs (\<lambda>_. read) node 0 16 0x500000 s1 = Inr (3, s2)
     \<and> vread (shown (\<lambda>va. va) s2) 0x500000 3 = [72, 105, 0]"
proof -
  have names: "sample_names = arg_names sample_argv (length sample_datas)"
    by (simp add: sample_names_def arg_names_def sample_argv_def sample_datas_def)
  have args: "args_ok sample_files sample_argv sample_datas" using sample_args by (simp add: sample_datas_def)
  have data: "sample_names ! 0 = [97]" "sample_datas ! 0 = [72, 105, 0]" by (simp_all add: sample_names_def sample_datas_def)
  have len: "length (sample_datas ! 0) = 3" by (simp add: data)
  have two: "Suc (length [97 :: u8]) = 2" "unat (16 :: u32) = 16" by simp_all
  have apart: "(block 0x200020 (Suc (length (sample_names ! 0))) \<union> block 0x500000 (unat (16 :: u32)))
      \<inter> (heap_for 0x300000 (length sample_names) \<union> block 0x100000 (length sample_img)) = {}"
    using sample_apart(1,2) unfolding data two sample_count sample_img_length by blast
  have conds: "length (replicate 4864 (0 :: u8)) = 4864" "start_of sample_datas (length sample_datas) < 4294967296"
      "0 < length sample_names" "sample_names ! 0 \<noteq> ascii ''dev''" "\<forall>j<0. sample_names ! j \<noteq> sample_names ! 0"
      "name_at UNIV sample_V 0x200020 (sample_names ! 0)" "length (sample_datas ! 0) \<le> unat (16 :: u32)"
      "block 0x500000 (unat (16 :: u32)) \<subseteq> UNIV"
    by (simp_all add: start_of_def sample_datas_def sample_count data ascii_names sample_name)
  have code: "finddir_addr sample_lk \<noteq> 0" "read_addr sample_lk \<noteq> 0" by (simp_all add: sample_lk_def)
  from initrd_file_read_back [OF args args conds(1,2) sample_image(1) names sample_good sample_view sample_loaded
      sample_arena_disk conds(3-8) apart code(1) refl code(2), where rd = "\<lambda>_. read" and sz = 4872]
  show ?thesis unfolding len unfolding data by simp
qed

end
