(* ===== verification/Entry.thy ===== *)
theory Entry
  imports Gdt
begin

unbundle bit_operations_syntax

text \<open>
  The entry of interrupts (\<^verbatim>\<open>src/asm/irq.asm\<close>, \<^verbatim>\<open>src/asm/exceptions.asm\<close>): the stubs, the common part that
  saves the registers, and the way back. The processor's general registers and the words on the stack are
  the record \<open>cpu\<close>; the segment registers and the interrupt flag are part of the kernel's state. The C
  handlers see the saved words as a \<open>REGISTERS\<close> structure.
\<close>

section \<open>The processor\<close>

text \<open>The stack has its top word first; \<open>c_esp\<close> is the address of that word.\<close>

record cpu =
  c_eax :: u32
  c_ecx :: u32
  c_edx :: u32
  c_ebx :: u32
  c_esp :: u32
  c_ebp :: u32
  c_esi :: u32
  c_edi :: u32
  c_eip :: u32
  c_eflags :: u32
  c_stack :: "u32 list"

definition push :: "u32 \<Rightarrow> cpu \<Rightarrow> cpu" where
  "push w c = c\<lparr>c_esp := c_esp c - 4, c_stack := w # c_stack c\<rparr>"

definition pop :: "cpu \<Rightarrow> u32 \<times> cpu" where
  "pop c = (case c_stack c of [] \<Rightarrow> (0, c) | w # ws \<Rightarrow> (w, c\<lparr>c_esp := c_esp c + 4, c_stack := ws\<rparr>))"

definition pusha :: "cpu \<Rightarrow> cpu" where
  "pusha c = push (c_edi c) (push (c_esi c) (push (c_ebp c) (push (c_esp c)
     (push (c_ebx c) (push (c_edx c) (push (c_ecx c) (push (c_eax c) c)))))))"

definition popa :: "cpu \<Rightarrow> cpu" where
  "popa c =
     (let (v, c) = pop c; c = c\<lparr>c_edi := v\<rparr>;
          (v, c) = pop c; c = c\<lparr>c_esi := v\<rparr>;
          (v, c) = pop c; c = c\<lparr>c_ebp := v\<rparr>;
          (v, c) = pop c;
          (v, c) = pop c; c = c\<lparr>c_ebx := v\<rparr>;
          (v, c) = pop c; c = c\<lparr>c_edx := v\<rparr>;
          (v, c) = pop c; c = c\<lparr>c_ecx := v\<rparr>;
          (v, c) = pop c
      in c\<lparr>c_eax := v\<rparr>)"

text \<open>
  What the processor does when it enters a ring 0 interrupt gate from ring 0: it pushes the flags, the code segment and the
  instruction pointer, for some exceptions an error code, loads the gate's segment and target, and masks interrupts.
\<close>

definition deliver :: "u16 \<Rightarrow> u32 \<Rightarrow> u32 option \<Rightarrow> cpu \<Rightarrow> ('a gdt_st_scheme, cpu) kernel" where
  "deliver sel target code c s =
     (let c = push (c_eip c) (push (ucast (seg_cs s)) (push (c_eflags c) c));
          c = (case code of None \<Rightarrow> c | Some w \<Rightarrow> push w c)
      in Inr (c\<lparr>c_eip := target, c_eflags := unset_bit 9 (c_eflags c)\<rparr>, s\<lparr>seg_cs := sel, intf := False\<rparr>))"

definition iret :: "cpu \<Rightarrow> ('a gdt_st_scheme, cpu) kernel" where
  "iret c s =
     (let (ip, c) = pop c; (cs, c) = pop c; (fl, c) = pop c
      in Inr (c\<lparr>c_eip := ip, c_eflags := fl\<rparr>, s\<lparr>seg_cs := ucast cs, intf := bit fl 9\<rparr>))"

definition cli :: "cpu \<Rightarrow> ('a gdt_st_scheme, cpu) kernel" where
  "cli c s = Inr (c\<lparr>c_eflags := unset_bit 9 (c_eflags c)\<rparr>, s\<lparr>intf := False\<rparr>)"

definition sti :: "cpu \<Rightarrow> ('a gdt_st_scheme, cpu) kernel" where
  "sti c s = Inr (c\<lparr>c_eflags := set_bit 9 (c_eflags c)\<rparr>, s\<lparr>intf := True\<rparr>)"

section \<open>Saving and restoring\<close>

text \<open>
  The common head of both entry points. Only the low half of \<open>eax\<close> is overwritten before it is pushed
  as the saved data segment. The data segment registers are loaded together and are one field of the state.
\<close>

definition save_registers :: "cpu \<Rightarrow> ('a gdt_st_scheme, cpu) kernel" where
  "save_registers c s =
     (let c = pusha c;
          c = c\<lparr>c_eax := (c_eax c AND 0xFFFF0000) OR ucast (seg_data s)\<rparr>;
          c = push (c_eax c) c;
          c = c\<lparr>c_eax := (c_eax c AND 0xFFFF0000) OR 0x10\<rparr>
      in Inr (c, s\<lparr>seg_data := 0x10\<rparr>))"

definition restore_registers :: "cpu \<Rightarrow> ('a gdt_st_scheme, cpu) kernel" where
  "restore_registers c =
     (let (d, c) = pop c; c = popa (c\<lparr>c_ebx := d\<rparr>); (_, c) = pop c; (_, c) = pop c
      in kthen (kmodify (\<lambda>s. s\<lparr>seg_data := ucast d\<rparr>)) (kbind (sti c) iret))"

text \<open>The structure \<open>REGISTERS\<close> at the top of the stack.\<close>

definition registers_of :: "u32 list \<Rightarrow> registers" where
  "registers_of ws =
     \<lparr>r_ds = ws ! 0, r_edi = ws ! 1, r_esi = ws ! 2, r_ebp = ws ! 3, r_esp = ws ! 4, r_ebx = ws ! 5, r_edx = ws ! 6,
      r_ecx = ws ! 7, r_eax = ws ! 8, int_no = ws ! 9, err_code = ws ! 10, r_eip = ws ! 11, r_cs = ws ! 12,
      r_eflags = ws ! 13, r_useresp = ws ! 14, r_ss = ws ! 15\<rparr>"

section \<open>The stubs\<close>

definition irq :: "nat \<Rightarrow> cpu \<Rightarrow> ('a gdt_st_scheme, cpu) kernel" where
  "irq n c = kbind (cli c) (\<lambda>c. kreturn (push (32 + of_nat n) (push 0 c)))"

text \<open>The exceptions for which the stub leaves the processor's own error code in place.\<close>

definition own_code :: "nat \<Rightarrow> bool" where
  "own_code n \<longleftrightarrow> n \<in> {8, 10, 11, 12, 13, 14}"

definition exception :: "nat \<Rightarrow> cpu \<Rightarrow> ('a gdt_st_scheme, cpu) kernel" where
  "exception n c = kbind (cli c) (\<lambda>c. kreturn (push (of_nat n) (if own_code n then c else push 0 c)))"

text \<open>
  The handlers of hardware interrupts get the address of the saved words, \<open>push esp\<close>, and that argument
  is popped into \<open>esp\<close> after the call; the handler of exceptions gets the words themselves.
\<close>

definition irq_entry ::
  "(u32 \<Rightarrow> registers \<Rightarrow> ('a gdt_st_scheme, unit) kernel) \<Rightarrow> nat \<Rightarrow> cpu \<Rightarrow> ('a gdt_st_scheme, cpu) kernel" where
  "irq_entry run n c =
     kbind (irq n c) (\<lambda>c. kbind (save_registers c) (\<lambda>c.
     kthen (isr_irq_handler run (registers_of (c_stack c))) (restore_registers c)))"

definition exception_entry ::
  "(u32 \<Rightarrow> registers \<Rightarrow> ('a gdt_st_scheme, unit) kernel) \<Rightarrow> u32 \<Rightarrow> nat \<Rightarrow> cpu \<Rightarrow> ('a gdt_st_scheme, cpu) kernel" where
  "exception_entry run word_above n c =
     kbind (exception n c) (\<lambda>c. kbind (save_registers c) (\<lambda>c.
     kthen (isr_exception_handler run word_above (registers_of (c_stack c))) (restore_registers c)))"

section \<open>Lemmas\<close>

lemma push_fields [simp]:
  "c_stack (push w c) = w # c_stack c" "c_esp (push w c) = c_esp c - 4" "c_eax (push w c) = c_eax c"
  "c_ecx (push w c) = c_ecx c" "c_edx (push w c) = c_edx c" "c_ebx (push w c) = c_ebx c"
  "c_ebp (push w c) = c_ebp c" "c_esi (push w c) = c_esi c" "c_edi (push w c) = c_edi c"
  "c_eip (push w c) = c_eip c" "c_eflags (push w c) = c_eflags c"
  by (simp_all add: push_def)

lemma pop_push [simp]: "pop (push w c) = (w, c)"
  by (simp add: pop_def push_def)

lemma pop_stack: "c_stack c = w # ws \<Longrightarrow> pop c = (w, c\<lparr>c_esp := c_esp c + 4, c_stack := ws\<rparr>)"
  by (simp add: pop_def)

text \<open>The saved data segment is in the low half of its word.\<close>

lemma saved_segment: "ucast ((w AND 0xFFFF0000) OR ucast (d :: u16) :: u32) = d"
proof (rule bit_word_eqI)
  fix k
  assume "k < LENGTH(16)"
  then have k: "k < 16" by simp
  have "0xFFFF0000 = (push_bit 16 0xFFFF :: u32)" by simp
  then have "\<not> bit (0xFFFF0000 :: u32) k" using k by (simp only: bit_push_bit_iff) simp
  then show "bit (ucast ((w AND 0xFFFF0000) OR ucast d :: u32) :: u16) k = bit d k"
    using k by (simp add: bit_simps)
qed

lemma ucast_u16_u32: "ucast (ucast (d :: u16) :: u32) = d"
  using saved_segment [of 0 d] by simp

lemma unset_bit_twice [simp]: "unset_bit n (unset_bit n (w :: u32)) = unset_bit n w"
  by (rule bit_word_eqI) (auto simp: bit_simps)

text \<open>The frame the common head hands to the C handlers.\<close>

lemma save_registers_run:
  assumes "c_stack c = v # w # ws"
  shows "\<exists>c'. save_registers c s = Inr (c', s\<lparr>seg_data := 0x10\<rparr>)
    \<and> c_stack c' = [(c_eax c AND 0xFFFF0000) OR ucast (seg_data s), c_edi c, c_esi c, c_ebp c, c_esp c, c_ebx c, c_edx c,
        c_ecx c, c_eax c] @ v # w # ws
    \<and> (\<forall>t. restore_registers c' t =
         kbind (sti (c\<lparr>c_esp := c_esp c + 8, c_stack := ws\<rparr>)) iret (t\<lparr>seg_data := seg_data s\<rparr>))"
  using assms
  by (simp add: save_registers_def pusha_def Let_def)
     (simp add: restore_registers_def popa_def Let_def pop_def push_def saved_segment add.commute)

text \<open>
  The frame for the interrupted registers \<open>c\<close> with the two words a stub pushes, and the way back from it.
\<close>

definition entry_frame :: "u32 \<Rightarrow> u32 \<Rightarrow> cpu \<Rightarrow> 'a gdt_st_scheme \<Rightarrow> registers" where
  "entry_frame num code c s =
     \<lparr>r_ds = (c_eax c AND 0xFFFF0000) OR ucast (seg_data s), r_edi = c_edi c, r_esi = c_esi c, r_ebp = c_ebp c,
      r_esp = c_esp c - 20, r_ebx = c_ebx c, r_edx = c_edx c, r_ecx = c_ecx c, r_eax = c_eax c, int_no = num,
      err_code = code, r_eip = c_eip c, r_cs = ucast (seg_cs s), r_eflags = c_eflags c,
      r_useresp = c_stack c ! 0, r_ss = c_stack c ! 1\<rparr>"

definition delivered :: "u32 \<Rightarrow> u32 \<Rightarrow> u32 \<Rightarrow> cpu \<Rightarrow> 'a gdt_st_scheme \<Rightarrow> cpu" where
  "delivered num code target c s =
     push num (push code ((push (c_eip c) (push (ucast (seg_cs s)) (push (c_eflags c) c)))
       \<lparr>c_eip := target, c_eflags := unset_bit 9 (c_eflags c)\<rparr>))"

lemma delivered_save:
  fixes s :: "'a gdt_st_scheme"
  assumes "seg_data t = seg_data s"
  obtains c' where "save_registers (delivered num code target c s) t = Inr (c', t\<lparr>seg_data := 0x10\<rparr>)"
    "registers_of (c_stack c') = entry_frame num code c s"
    "\<And>u :: 'a gdt_st_scheme. bit (c_eflags c) 9 \<Longrightarrow>
       restore_registers c' u = Inr (c, u\<lparr>seg_data := seg_data s, seg_cs := seg_cs s, intf := True\<rparr>)"
proof -
  let ?i = "delivered num code target c s"
  let ?r = "c_eip c # ucast (seg_cs s) # c_eflags c # c_stack c"
  have st: "c_stack ?i = num # code # ?r" by (simp add: delivered_def)
  have regs: "c_eax ?i = c_eax c" "c_edi ?i = c_edi c" "c_esi ?i = c_esi c" "c_ebp ?i = c_ebp c" "c_ebx ?i = c_ebx c"
    "c_edx ?i = c_edx c" "c_ecx ?i = c_ecx c" "c_esp ?i = c_esp c - 20"
    by (simp_all add: delivered_def)
  obtain c' where c': "save_registers ?i t = Inr (c', t\<lparr>seg_data := 0x10\<rparr>)"
    "c_stack c' = [(c_eax c AND 0xFFFF0000) OR ucast (seg_data s), c_edi c, c_esi c, c_ebp c, c_esp c - 20, c_ebx c, c_edx c,
        c_ecx c, c_eax c] @ num # code # ?r"
    "\<And>u :: 'a gdt_st_scheme. restore_registers c' u =
         kbind (sti (?i\<lparr>c_esp := c_esp c - 20 + 8, c_stack := ?r\<rparr>)) iret (u\<lparr>seg_data := seg_data s\<rparr>)"
    using save_registers_run [OF st, of t] unfolding regs assms by (auto simp del: push_fields)
  have "registers_of (c_stack c') = entry_frame num code c s"
    unfolding registers_of_def entry_frame_def c'(2) by simp
  moreover have "restore_registers c' u = Inr (c, u\<lparr>seg_data := seg_data s, seg_cs := seg_cs s, intf := True\<rparr>)"
    if "bit (c_eflags c) 9" for u :: "'a gdt_st_scheme"
    unfolding c'(3) using that
    by (cases c) (simp add: sti_def iret_def kbind_def push_def pop_def delivered_def ucast_u16_u32)
  ultimately show thesis using c'(1) by (intro that)
qed

text \<open>
  The way of a hardware interrupt through the stub: the handler runs masked, on a frame with the number of the line
  and the registers of the interrupted code; the way back leaves those registers as they were.
\<close>

lemma interrupt_path:
  fixes s :: "'a gdt_st_scheme"
  assumes "bit (c_eflags c) 9"
  shows "kbind (deliver sel target None c) (irq_entry run n) s =
    (case isr_irq_handler run (entry_frame (32 + of_nat n) 0 c s) (s\<lparr>seg_cs := sel, intf := False, seg_data := 0x10\<rparr>) of
       Inl e \<Rightarrow> Inl e
     | Inr (_, t) \<Rightarrow> Inr (c, t\<lparr>seg_data := seg_data s, seg_cs := seg_cs s, intf := True\<rparr>))"
proof -
  let ?s = "s\<lparr>seg_cs := sel, intf := False\<rparr>"
  obtain c' where c': "save_registers (delivered (32 + of_nat n) 0 target c s) ?s = Inr (c', ?s\<lparr>seg_data := 0x10\<rparr>)"
      "registers_of (c_stack c') = entry_frame (32 + of_nat n) 0 c s"
      "\<And>u :: 'a gdt_st_scheme. bit (c_eflags c) 9 \<Longrightarrow>
         restore_registers c' u = Inr (c, u\<lparr>seg_data := seg_data s, seg_cs := seg_cs s, intf := True\<rparr>)"
    by (rule delivered_save [of ?s s]) auto
  have "kbind (deliver sel target None c) (irq n) s = Inr (delivered (32 + of_nat n) 0 target c s, ?s)"
    by (simp add: deliver_def irq_def cli_def delivered_def kbind_def)
  then show ?thesis
    by (auto simp: irq_entry_def kbind_def kthen_def c'(1,2) c'(3) [OF assms] split: sum.splits prod.splits)
qed

text \<open>
  The way of an exception: when the processor pushes an error code exactly for the exceptions whose stub expects one,
  the handler sees the exception's number, its error code and the registers of the faulting code.
\<close>

lemma exception_path:
  fixes s :: "'a gdt_st_scheme"
  assumes "own_code n \<longleftrightarrow> code \<noteq> None"
  shows "\<exists>e t. isr_exception_handler run w (entry_frame (of_nat n) (case code of None \<Rightarrow> 0 | Some e \<Rightarrow> e) c s)
      (s\<lparr>seg_cs := sel, intf := False, seg_data := 0x10\<rparr>) = Inl (e, t)
    \<and> kbind (deliver sel target code c) (exception_entry run w n) s = Inl (e, t)"
proof -
  let ?s = "s\<lparr>seg_cs := sel, intf := False\<rparr>"
  let ?e = "case code of None \<Rightarrow> 0 | Some e \<Rightarrow> e"
  obtain c' where c': "save_registers (delivered (of_nat n) ?e target c s) ?s = Inr (c', ?s\<lparr>seg_data := 0x10\<rparr>)"
      "registers_of (c_stack c') = entry_frame (of_nat n) ?e c s"
    by (rule delivered_save [of ?s s]) auto
  have "kbind (deliver sel target code c) (exception n) s = Inr (delivered (of_nat n) ?e target c s, ?s)"
    using assms by (auto simp: deliver_def exception_def cli_def delivered_def kbind_def push_def split: option.splits)
  then show ?thesis
    using isr_exception_handler_stops [of run w "entry_frame (of_nat n) ?e c s" "?s\<lparr>seg_data := 0x10\<rparr>"]
    by (auto simp: exception_entry_def kbind_def kthen_def c' split: sum.splits)
qed

text \<open>
  An exception with an error code of which the stub does not know finds its frame one word off: the
  instruction pointer is read where the code segment should be.
\<close>

lemma unexpected_code_shifts:
  fixes s :: "'a gdt_st_scheme"
  assumes "\<not> own_code n"
  shows "\<exists>c' t. kbind (kbind (deliver sel target (Some code) c) (exception n)) save_registers s = Inr (c', t)
    \<and> r_eip (registers_of (c_stack c')) = code \<and> r_cs (registers_of (c_stack c')) = c_eip c"
  using assms
  by (simp add: deliver_def exception_def cli_def kbind_def save_registers_def Let_def pusha_def registers_of_def)

text \<open>The exceptions for which the processor pushes an error code, by its manual.\<close>

definition pushes_code :: "nat \<Rightarrow> bool" where
  "pushes_code n \<longleftrightarrow> n \<in> {8, 10, 11, 12, 13, 14, 17, 21, 29, 30}"

lemma own_code_pushed: "n \<notin> {17, 21, 29, 30} \<Longrightarrow> own_code n \<longleftrightarrow> pushes_code n"
  by (simp add: own_code_def pushes_code_def)

section \<open>Properties\<close>

text \<open>
  An exception of the processor is reported as what it is. For every exception but 17, 21, 29 and 30, whose stubs
  do not expect the error code, the C handler gets a frame with the exception's number, its error code or zero, and
  the instruction pointer, flags, segments and general registers of the faulting code, with interrupts masked and the
  kernel's segments loaded; the stub never returns to the faulting code, and without a registered handler the kernel stops in a
  panic.
\<close>

lemma exception_reported:
  fixes s :: "'a gdt_st_scheme"
  assumes "pushes_code n \<longleftrightarrow> code \<noteq> None" "n < 32" "n \<notin> {17, 21, 29, 30}"
  shows "\<exists>e t. isr_exception_handler run w (entry_frame (of_nat n) (case code of None \<Rightarrow> 0 | Some e \<Rightarrow> e) c s)
      (s\<lparr>seg_cs := 0x08, intf := False, seg_data := 0x10\<rparr>) = Inl (e, t)
    \<and> kbind (deliver 0x08 target code c) (exception_entry run w n) s = Inl (e, t)
    \<and> (g_interrupt_handlers s ! n = 0 \<longrightarrow> e = Panic exception_reason \<and> \<not> intf t)"
proof -
  let ?f = "entry_frame (of_nat n) (case code of None \<Rightarrow> 0 | Some e \<Rightarrow> e) c s"
  let ?s = "s\<lparr>seg_cs := 0x08, intf := False, seg_data := 0x10\<rparr>"
  obtain e t where et: "isr_exception_handler run w ?f ?s = Inl (e, t)"
      "kbind (deliver 0x08 target code c) (exception_entry run w n) s = Inl (e, t)"
    using exception_path [of n code] assms(1) own_code_pushed [OF assms(3)] by blast
  have "unat (int_no ?f) = n" using assms(2) by (simp add: entry_frame_def unat_of_nat)
  then have "e = Panic exception_reason \<and> \<not> intf t" if "g_interrupt_handlers s ! n = 0"
    using isr_exception_handler_unhandled [of ?f ?s run w] that assms(2) et(1) by auto
  then show ?thesis using et by blast
qed

definition sample_cpu :: cpu where
  "sample_cpu = \<lparr>c_eax = 1, c_ecx = 2, c_edx = 3, c_ebx = 4, c_esp = 0xC0110000, c_ebp = 5, c_esi = 6, c_edi = 7,
     c_eip = 0xC0101234, c_eflags = 0x202, c_stack = [11, 12]\<rparr>"

end
