(* ===== verification/Kernel.thy ===== *)
theory Kernel
  imports PagingLive RamdiskProps Entry
begin

unbundle bit_operations_syntax

text \<open>
  The kernel's entry point (\<^verbatim>\<open>src/kernel.c\<close>) and the service of interrupts once it has run.
  \<open>kmain\<close> brings the components up one after the other, maps the boot module and lists the ramdisk. The
  addresses of the program's data and code are chosen by the linker and come in the record \<open>program\<close>,
  which also has the place of the buffer on the stack.
\<close>

section \<open>Data\<close>

record kernel_st = ramdisk_st +
  fs_root :: u32

record program = linkage +
  gdt_at :: u32
  idt_at :: u32
  exception_stub :: "nat \<Rightarrow> u32"
  irq_stub :: "nat \<Rightarrow> u32"
  page_fault_handler_at :: u32
  timer_handler_at :: u32
  KERNEL_START :: u32
  KERNEL_END :: u32
  EARLY_KMALLOC_START :: u32
  EARLY_KMALLOC_END :: u32
  buf_at :: u32

text \<open>\<open>struct multiboot_info\<close> and \<open>multiboot_module_t\<close> as the boot loader lays them out.\<close>

definition mbi_mods_addr :: "u32 \<Rightarrow> u32" where "mbi_mods_addr mbi = mbi + 24"
definition mod_start :: "u32 \<Rightarrow> u32" where "mod_start m = m"
definition mod_end :: "u32 \<Rightarrow> u32" where "mod_end m = m + 4"
definition multiboot_module_size :: u32 where "multiboot_module_size = 16"

definition boot_text :: "u8 list" where
  "boot_text = ascii ''welcone to my os mydjbfv''"

section \<open>Bringing up the components\<close>

definition kmain_init :: "program \<Rightarrow> ('a kernel_st_scheme, unit) kernel" where
  "kmain_init p =
     kthen (lift_io (screen_init COLOR_BLACK))
    (kthen (lift_io (screen_put_text boot_text))
    (kthen (kmalloc_early_init (EARLY_KMALLOC_START p) (EARLY_KMALLOC_END p))
    (kthen (gdt_init (gdt_at p))
    (kthen (idt_init (idt_at p) (exception_stub p) (irq_stub p))
    (kthen (init_paging (KERNEL_START p) (KERNEL_END p) (page_fault_handler_at p))
    (kthen (lift_io pic8259_init)
           (timer_init (timer_handler_at p))))))))"

section \<open>The boot module\<close>

definition kmain_mount :: "program \<Rightarrow> u32 \<Rightarrow> ('a kernel_st_scheme, unit) kernel" where
  "kmain_mount p mbi =
     kbind (kmalloc_early_align multiboot_module_size) (\<lambda>new_location.
     kbind (load32 (mbi_mods_addr mbi)) (\<lambda>mods_addr.
     kthen (page_map new_location mods_addr PAGE_ENTRY_RW)
    (let modules = new_location in
     kbind (load32 (mod_end modules)) (\<lambda>e.
     kbind (load32 (mod_start modules)) (\<lambda>b.
     kbind (kmalloc_early_align 4) (\<lambda>mod_new_addr.
     kbind (load32 (mod_start modules)) (\<lambda>start.
     kthen (page_map mod_new_addr start PAGE_ENTRY_RW)
    (kbind (ramdisk_init (linkage.truncate p) mod_new_addr (e - b)) (\<lambda>r.
     kmodify (\<lambda>s. s\<lparr>fs_root := r\<rparr>))))))))))"

section \<open>Listing the files\<close>

text \<open>The characters of a terminated string, as \<open>%s\<close> reads them.\<close>

function string_from :: "u32 \<Rightarrow> ('a machine_scheme, string) kernel" where
  "string_from a =
     kbind (load8 a) (\<lambda>c. if c = 0 then kreturn []
       else if a + 1 = 0 then kstop Undefined
       else kbind (string_from (a + 1)) (\<lambda>cs. kreturn (char_of (unat c) # cs)))"
  by pat_completeness auto
termination
  by (relation "measure (\<lambda>a. 4294967296 - unat a)") (auto intro: next_addr_less)

declare string_from.simps [simp del]

definition null_size_reason :: string where
  "null_size_reason = ''NULL size file %s''"

text \<open>
  One round of the loop, for the directory entry \<open>node\<close>. The calls through the nodes' function pointers
  run the driver's functions. A size is unsigned: \<open>sz <= 0\<close> means zero.
\<close>

definition run_finddir :: "program \<Rightarrow> u32 \<Rightarrow> u32 \<Rightarrow> u32 \<Rightarrow> ('a kernel_st_scheme, u32) kernel" where
  "run_finddir p f = (if f = finddir_addr p then finddir (linkage.truncate p) else (\<lambda>_ _. kstop Undefined))"

definition run_readdir :: "program \<Rightarrow> u32 \<Rightarrow> u32 \<Rightarrow> u32 \<Rightarrow> ('a kernel_st_scheme, u32) kernel" where
  "run_readdir p f = (if f = readdir_addr p then readdir (linkage.truncate p) else (\<lambda>_ _. kstop Undefined))"

definition run_read :: "program \<Rightarrow> u32 \<Rightarrow> u32 \<Rightarrow> u32 \<Rightarrow> u32 \<Rightarrow> u32 \<Rightarrow> ('a kernel_st_scheme, u32) kernel" where
  "run_read p f = (if f = read_addr p then read else (\<lambda>_ _ _ _. kstop Undefined))"

definition show_entry :: "program \<Rightarrow> u32 \<Rightarrow> ('a kernel_st_scheme, unit) kernel" where
  "show_entry p node =
     kbind (string_from node) (\<lambda>name.
     kthen (k_printfln (Some ''Found file %s'') [VStr name])
    (kbind (kgets fs_root) (\<lambda>r.
     kbind (finddir_fs (run_finddir p) r node) (\<lambda>ino.
     kbind (load32 (inode_flags ino)) (\<lambda>fl.
       if fl = FS_DIRECTORY then k_printfln (Some ''(directory)'') []
       else
         kbind (read_fs (run_read p) ino 0 256 (buf_at p)) (\<lambda>sz.
           kthen (if sz = 0 then kbind (string_from node) (\<lambda>name. panic null_size_reason [VStr name]) else kreturn ())
                 (kbind (string_from (buf_at p)) (\<lambda>content.
                    k_printfln (Some ''content: %s'') [VStr content]))))))))"

text \<open>The index is an \<open>int\<close> that starts at 0; the argument counts the values it has left.\<close>

primrec list_files :: "nat \<Rightarrow> program \<Rightarrow> u32 \<Rightarrow> ('a kernel_st_scheme, unit) kernel" where
  "list_files 0 p i = kstop Undefined"
| "list_files (Suc k) p i =
     kbind (kgets fs_root) (\<lambda>r.
     kbind (readdir_fs (run_readdir p) r i) (\<lambda>node.
       if node = 0 then kreturn ()
       else kthen (show_entry p node) (list_files k p (i + 1))))"

text \<open>After the listing interrupts are enabled and the processor halts between them for ever.\<close>

definition kmain :: "program \<Rightarrow> u32 \<Rightarrow> ('a kernel_st_scheme, unit) kernel" where
  "kmain p mbi =
     kthen (kmain_init p)
    (kthen (kmain_mount p mbi)
    (kthen (list_files 2147483648 p 0)
           (kmodify (\<lambda>s. s\<lparr>intf := True\<rparr>))))"

section \<open>The state the boot code leaves\<close>

text \<open>
  What \<open>kmain\<close> finds: zeroed tables of their declared sizes, boot page tables that map the early heap, and a
  kernel in the higher half with room for the new page tables.
\<close>

definition boot_ready :: "program \<Rightarrow> 'a kernel_st_scheme \<Rightarrow> bool" where
  "boot_ready p s \<longleftrightarrow> length (g_gdt s) = 5 \<and> gdt_clear_of_check (gdt_at p) \<and> length (g_idt s) = 256
     \<and> g_interrupt_handlers s = replicate 256 0
     \<and> boot_mapped (s\<lparr>initialBase := EARLY_KMALLOC_START p, maxBase := EARLY_KMALLOC_END p\<rparr>)
     \<and> 0xC0000000 \<le> EARLY_KMALLOC_START p \<and> EARLY_KMALLOC_START p < EARLY_KMALLOC_END p
     \<and> unat (EARLY_KMALLOC_END p) \<le> 4294963200
     \<and> unat (page_up (EARLY_KMALLOC_START p)) + 4096 * 5 \<le> unat (EARLY_KMALLOC_END p)
     \<and> page_aligned (KERNEL_START p) \<and> 0xC0000000 \<le> KERNEL_START p \<and> KERNEL_START p \<le> KERNEL_END p
     \<and> unat (KERNEL_END p) \<le> 0xC0800000"

lemma kmalloc_prints:
  "prints_only (k_printf (Some (''kmalloc_early [%x, %x]'' @ [CHR 0x0A])) [VInt a, VInt b])"
  by (rule prints_only_printf [where ks = "[KInt, KInt]"]) (simp_all add: conv_kinds_def)

lemma kmalloc_early_init_run:
  assumes "base < limit"
  shows "\<exists>c. kmalloc_early_init base limit s =
    Inr ((), s\<lparr>con := c, initialBase := base, currentBase := base, maxBase := limit, initialized := 1\<rparr>)"
proof -
  obtain c where "k_printf (Some (''kmalloc_early [%x, %x]'' @ [CHR 0x0A])) [VInt base, VInt limit] s = Inr ((), s\<lparr>con := c\<rparr>)"
    by (rule prints_onlyE [OF kmalloc_prints])
  then show ?thesis using assms by (auto simp: kmalloc_early_init_def ASSERT_def simp del: append.simps)
qed

lemma timer_init_run:
  "\<exists>c. timer_init h s = Inr ((), s\<lparr>g_freq_hz := 100, con := c, g_interrupt_handlers := (g_interrupt_handlers s)[32 := h]\<rparr>)"
proof -
  obtain c where c: "timer_set_frequency 100 s = Inr ((), s\<lparr>g_freq_hz := 100, con := c\<rparr>)"
    using timer_set_frequency_run [of 100 s] by auto
  have "IRQ_BASE = 32" by (simp add: IRQ_BASE_def)
  moreover obtain c' where "isr_register_interrupt_handler 32 h (s\<lparr>g_freq_hz := 100, con := c\<rparr>) =
      Inr ((), s\<lparr>g_freq_hz := 100, con := c, con := c', g_interrupt_handlers := (g_interrupt_handlers s)[32 := h]\<rparr>)"
    using register_run [of 32 h "s\<lparr>g_freq_hz := 100, con := c\<rparr>"] by (auto simp: sint_of_nat_small [of 32, simplified])
  ultimately show ?thesis using c by (auto simp: timer_init_def)
qed

text \<open>What bringing up the components leaves: the segments, the gates and the handlers; and with them the address space.\<close>

definition kernel_serves :: "program \<Rightarrow> 'a timer_st_scheme \<Rightarrow> bool" where
  "kernel_serves p s \<longleftrightarrow> seg_cs s = 0x08 \<and> seg_data s = 0x10 \<and> snd (gdtr s) = gdt_at p \<and> snd (idtr s) = idt_at p
     \<and> (\<forall>v a. idt_vectors (exception_stub p) (irq_stub p) v = Some a \<longrightarrow>
          gate_target (g_idt s ! v) = a \<and> segment_selector (g_idt s ! v) = 0x08 \<and> interrupt_gate (g_idt s ! v))
     \<and> g_interrupt_handlers s = (replicate 256 0)[14 := page_fault_handler_at p, 32 := timer_handler_at p]
     \<and> g_freq_hz s = 100"

definition kernel_up :: "program \<Rightarrow> 'a kernel_st_scheme \<Rightarrow> bool" where
  "kernel_up p s \<longleftrightarrow> kernel_serves p s \<and> kernelPagingEnabled s
     \<and> (\<forall>va. mmu_walk s va =
          (if unat va < 1048576 then Some va
           else if KERNEL_START p \<le> va \<and> va < PAGE_ALIGN_UP (KERNEL_END p) then Some (va - 0xC0000000)
           else None))"

lemma kmain_init_prefix:
  fixes s :: "'a kernel_st_scheme"
  assumes "boot_ready p s"
  shows "\<exists>t. kmain_init p s =
      kthen (init_paging (KERNEL_START p) (KERNEL_END p) (page_fault_handler_at p))
     (kthen (lift_io pic8259_init) (timer_init (timer_handler_at p))) t
    \<and> boot_mapped t \<and> arena_ok t \<and> initialBase t = EARLY_KMALLOC_START p \<and> currentBase t = EARLY_KMALLOC_START p
    \<and> maxBase t = EARLY_KMALLOC_END p \<and> seg_cs t = 0x08 \<and> seg_data t = 0x10 \<and> snd (gdtr t) = gdt_at p
    \<and> snd (idtr t) = idt_at p \<and> g_interrupt_handlers t = g_interrupt_handlers s
    \<and> tf_func_args t = tf_func_args s \<and> mem t = mem s
    \<and> (\<forall>v a. idt_vectors (exception_stub p) (irq_stub p) v = Some a \<longrightarrow>
          gate_target (g_idt t ! v) = a \<and> segment_selector (g_idt t ! v) = 0x08 \<and> interrupt_gate (g_idt t ! v))"
proof -
  have b: "EARLY_KMALLOC_START p < EARLY_KMALLOC_END p" "unat (EARLY_KMALLOC_END p) \<le> 4294963200"
      "boot_mapped (s\<lparr>initialBase := EARLY_KMALLOC_START p, maxBase := EARLY_KMALLOC_END p\<rparr>)"
      "gdt_clear_of_check (gdt_at p)" "length (g_idt s) = 256"
    using assms by (simp_all add: boot_ready_def)
  let ?c0 = "screen_put_text boot_text (screen_init COLOR_BLACK (con s))"
  obtain c where c: "kmalloc_early_init (EARLY_KMALLOC_START p) (EARLY_KMALLOC_END p) (s\<lparr>con := ?c0\<rparr>) =
      Inr ((), s\<lparr>con := ?c0, con := c, initialBase := EARLY_KMALLOC_START p, currentBase := EARLY_KMALLOC_START p,
        maxBase := EARLY_KMALLOC_END p, initialized := 1\<rparr>)" (is "_ = Inr ((), ?s2)")
    using kmalloc_early_init_run [OF b(1)] by blast
  have "length (g_gdt s) = 5" using assms by (simp add: boot_ready_def)
  then obtain g0 g1 g2 g3 g4 where gs: "g_gdt ?s2 = [g0, g1, g2, g3, g4]"
    by (auto simp: length_Suc_conv eval_nat_numeral)
  let ?s3 = "?s2\<lparr>g_gdt :=
      [gdt_fill 0 0 0 0 g0, gdt_fill 0 0xFFFFFFFF 0x9A 0xCF g1, gdt_fill 0 0xFFFFFFFF 0x92 0xCF g2,
       gdt_fill 0 0xFFFFFFFF 0xFA 0xCF g3, gdt_fill 0 0xFFFFFFFF 0xF2 0xCF g4],
      g_gdt_ptr := (160, gdt_at p), gdtr := (160, gdt_at p), seg_data := 0x10, seg_cs := 0x08\<rparr>"
  have s3: "gdt_init (gdt_at p) ?s2 = Inr ((), ?s3)" by (rule gdt_init_run [OF b(4) gs])
  have len3: "length (g_idt ?s3) = 256" using b(5) by simp
  obtain gates where gates: "idt_init (idt_at p) (exception_stub p) (irq_stub p) ?s3 =
      Inr ((), ?s3\<lparr>g_idt := gates, g_idt_ptr := (63488, idt_at p), idtr := (63488, idt_at p)\<rparr>)" (is "_ = Inr ((), ?s4)")
    "\<forall>v<256. gates ! v = (case idt_vectors (exception_stub p) (irq_stub p) v of
          None \<Rightarrow> g_idt ?s3 ! v | Some a \<Rightarrow> idt_fill a 0x08 0x8E (g_idt ?s3 ! v))"
    using idt_init_gates [OF len3, of "idt_at p" "exception_stub p" "irq_stub p"] by blast
  show ?thesis
  proof (intro exI conjI)
    show "kmain_init p s =
      kthen (init_paging (KERNEL_START p) (KERNEL_END p) (page_fault_handler_at p))
     (kthen (lift_io pic8259_init) (timer_init (timer_handler_at p))) ?s4"
      using c s3 gates(1) by (simp add: kmain_init_def lift_io_def)
    show "boot_mapped ?s4"
      by (rule boot_mapped_frame [OF b(3)]) (simp_all add: heap_def)
    show "arena_ok ?s4" using b(1,2) by (simp add: arena_ok_def less_imp_le)
    show "\<forall>v a. idt_vectors (exception_stub p) (irq_stub p) v = Some a \<longrightarrow>
          gate_target (g_idt ?s4 ! v) = a \<and> segment_selector (g_idt ?s4 ! v) = 0x08 \<and> interrupt_gate (g_idt ?s4 ! v)"
    proof (intro allI impI)
      fix v a
      assume v: "idt_vectors (exception_stub p) (irq_stub p) v = Some a"
      then have "v < 256" by (auto simp: idt_vectors_def split: if_splits)
      with gates(2) v have "g_idt ?s4 ! v = idt_fill a 0x08 0x8E (g_idt ?s3 ! v)" by simp
      then show "gate_target (g_idt ?s4 ! v) = a \<and> segment_selector (g_idt ?s4 ! v) = 0x08 \<and> interrupt_gate (g_idt ?s4 ! v)"
        by (simp add: interrupt_gate_def)
    qed
  qed simp_all
qed

lemma kmain_init_up:
  fixes s :: "'a kernel_st_scheme"
  assumes "boot_ready p s"
  shows "\<exists>s'. kmain_init p s = Inr ((), s') \<and> kernel_up p s' \<and> tf_func_args s' = tf_func_args s
    \<and> arena_ok s' \<and> initialBase s' = EARLY_KMALLOC_START p \<and> maxBase s' = EARLY_KMALLOC_END p
    \<and> unat (currentBase s') \<le> unat (page_up (EARLY_KMALLOC_START p)) + 4096 * 5
    \<and> (\<forall>x. x \<notin> kphys ` allocated s' \<longrightarrow> mem s' x = mem s x)
    \<and> ((\<forall>a \<in> heap s'. mmu_walk s' a = Some (kphys a)) \<longrightarrow> live s')"
proof -
  obtain t where t: "kmain_init p s =
      kthen (init_paging (KERNEL_START p) (KERNEL_END p) (page_fault_handler_at p))
     (kthen (lift_io pic8259_init) (timer_init (timer_handler_at p))) t"
    "boot_mapped t" "arena_ok t" "initialBase t = EARLY_KMALLOC_START p" "currentBase t = EARLY_KMALLOC_START p"
    "maxBase t = EARLY_KMALLOC_END p" "seg_cs t = 0x08" "seg_data t = 0x10" "snd (gdtr t) = gdt_at p"
    "snd (idtr t) = idt_at p" "g_interrupt_handlers t = g_interrupt_handlers s" "tf_func_args t = tf_func_args s"
    "mem t = mem s" "\<forall>v a. idt_vectors (exception_stub p) (irq_stub p) v = Some a \<longrightarrow>
          gate_target (g_idt t ! v) = a \<and> segment_selector (g_idt t ! v) = 0x08 \<and> interrupt_gate (g_idt t ! v)"
    using kmain_init_prefix [OF assms] by blast
  have k: "page_aligned (KERNEL_START p)" "0xC0000000 \<le> KERNEL_START p" "KERNEL_START p \<le> KERNEL_END p"
      "unat (KERNEL_END p) \<le> 0xC0800000" "0xC0000000 \<le> initialBase t"
      "unat (next_table t) + 4096 * 5 \<le> unat (maxBase t)" "g_interrupt_handlers s = replicate 256 0"
    using assms by (simp_all add: boot_ready_def t(4-6) next_table_def)
  obtain c u where u: "init_paging (KERNEL_START p) (KERNEL_END p) (page_fault_handler_at p) t =
        Inr ((), u\<lparr>con := c, g_interrupt_handlers := (g_interrupt_handlers u)[14 := page_fault_handler_at p],
            cr3 := kphys (pageDirectory u), cr0 := cr0 u OR 0x80000000, kernelPagingEnabled := True\<rparr>)"
      (is "_ = Inr ((), ?v)")
    "tables_ok u" "\<forall>va. page_entry u va = kernel_entries (KERNEL_START p) (PAGE_ALIGN_UP (KERNEL_END p)) va"
    "tables_frame (new_dirs t) u" "unat (currentBase u) \<le> unat (next_table t) + 4096 * 5"
    "\<forall>x. x \<notin> kphys ` allocated u \<longrightarrow> mem u x = mem t x"
    using init_paging_ok [OF t(2,3) k(5,6,1-4)] by blast
  have same: "seg_cs u = seg_cs t" "seg_data u = seg_data t" "gdtr u = gdtr t" "idtr u = idtr t" "g_idt u = g_idt t"
      "g_interrupt_handlers u = g_interrupt_handlers t" "tf_func_args u = tf_func_args t"
    using u(4) by (auto simp: tables_frame_def new_dirs_def Let_def filled_def)
  let ?w = "?v\<lparr>con := pic8259_init c\<rparr>"
  obtain c' where c': "timer_init (timer_handler_at p) ?w =
      Inr ((), ?w\<lparr>g_freq_hz := 100, con := c', g_interrupt_handlers := (g_interrupt_handlers ?w)[32 := timer_handler_at p]\<rparr>)"
      (is "_ = Inr ((), ?z)")
    using timer_init_run [of "timer_handler_at p" ?w] by blast
  have run: "kmain_init p s = Inr ((), ?z)"
    using t(1) u(1) c' by (simp add: lift_io_def)
  have "paging_on ?z" using paging_bit by (simp add: paging_on_def)
  then have walk: "mmu_walk ?z va = (if unat va < 1048576 then Some va
      else if KERNEL_START p \<le> va \<and> va < PAGE_ALIGN_UP (KERNEL_END p) then Some (kphys va) else None)" for va
    using u(3) by (intro kernel_entries_walk [OF u(2) _ k(2)]) simp_all
  have "kernel_up p ?z"
    unfolding kernel_up_def kernel_serves_def walk using t(7-12,14) same k(7) by (simp add: kphys_def)
  moreover have arena: "arena_ok ?z" "initialBase ?z = EARLY_KMALLOC_START p" "maxBase ?z = EARLY_KMALLOC_END p" "heap ?z = heap u"
    using u(2) tables_frame_fields [OF u(4)] t(4,6) by (simp_all add: tables_ok_def arena_ok_def heap_def new_dirs_def Let_def filled_def)
  moreover have "live ?z" if "\<forall>a \<in> heap ?z. mmu_walk ?z a = Some (kphys a)"
  proof (rule tables_live [OF u(2)])
    show "mmu_walk ?z a = Some (kphys a)" if "a \<in> heap u" for a using that arena(4) \<open>\<forall>a \<in> heap ?z. _ a\<close> by simp
    show "paging_on ?z" using paging_bit by (simp add: paging_on_def)
  qed simp_all
  moreover have "unat (currentBase ?z) \<le> unat (page_up (EARLY_KMALLOC_START p)) + 4096 * 5"
    using u(5) t(5) by (simp add: next_table_def)
  moreover have "mem ?z x = mem s x" if "x \<notin> kphys ` allocated ?z" for x
    using that u(6) t(13) by (simp add: allocated_def)
  ultimately show ?thesis using run same t(12) by (intro exI [of _ ?z]) auto
qed

text \<open>The vector at which the chips deliver a line.\<close>

definition irq_vector :: "chip \<times> chip \<Rightarrow> nat \<Rightarrow> nat" where
  "irq_vector cs n = (if n < 8 then unat (vector_base (fst cs)) + n else unat (vector_base (snd cs)) + (n - 8))"

lemma line_number:
  assumes "n < 16"
  shows "unat (32 + of_nat n :: u32) = 32 + n" "ucast (32 + of_nat n :: u32) = (of_nat (32 + n) :: u8)"
proof -
  have i: "(32 + of_nat n :: u32) = of_nat (32 + n)" by simp
  show "unat (32 + of_nat n :: u32) = 32 + n" unfolding i using assms by (intro unat_of_nat_u32) simp
  show "ucast (32 + of_nat n :: u32) = (of_nat (32 + n) :: u8)"
    unfolding i using assms by (simp add: unsigned_of_nat take_bit_nat_eq_self del: of_nat_add)
qed

lemma kernel_up_serves: "kernel_up p s \<Longrightarrow> kernel_serves p s"
  by (simp add: kernel_up_def)

lemma kernel_serves_kept: "kernel_serves p s \<Longrightarrow> interrupts_kept s t \<Longrightarrow> kernel_serves p t"
  by (simp add: kernel_serves_def interrupts_kept_def)

lemma up_gate:
  assumes "kernel_serves p s" "n < 16"
  shows "gate_target (g_idt s ! (32 + n)) = irq_stub p n" "segment_selector (g_idt s ! (32 + n)) = 0x08"
proof -
  have "idt_vectors (exception_stub p) (irq_stub p) (32 + n) = Some (irq_stub p n)"
    using assms(2) by (simp add: idt_vectors_def)
  then show "gate_target (g_idt s ! (32 + n)) = irq_stub p n" "segment_selector (g_idt s ! (32 + n)) = 0x08"
    using assms(1) by (simp_all add: kernel_serves_def)
qed

text \<open>An interrupt at vector \<open>v\<close>: the processor goes through the gate and runs the stub of line \<open>n\<close>.\<close>

definition interrupt :: "(u32 \<Rightarrow> registers \<Rightarrow> ('a idt_st_scheme, unit) kernel) \<Rightarrow> nat \<Rightarrow> nat \<Rightarrow> cpu \<Rightarrow> ('a idt_st_scheme, cpu) kernel" where
  "interrupt run v n c s =
     kbind (deliver (segment_selector (g_idt s ! v)) (gate_target (g_idt s ! v)) None c) (irq_entry run n) s"

lemma interrupt_run:
  fixes s :: "'a kernel_st_scheme"
  assumes "kernel_serves p s" "n < 16" "bit (c_eflags c) 9" "g_interrupt_handlers s ! (32 + n) \<noteq> 0"
    and "run (g_interrupt_handlers s ! (32 + n)) (entry_frame (32 + of_nat n) 0 c s)
           (s\<lparr>seg_cs := 0x08, intf := False, seg_data := 0x10\<rparr>) = Inr ((), t)"
  shows "interrupt run (32 + n) n c s =
    Inr (c, t\<lparr>con := pic8259_eoi (of_nat (32 + n)) (con t), seg_data := seg_data s, seg_cs := seg_cs s, intf := True\<rparr>)"
proof -
  let ?f = "entry_frame (32 + of_nat n) 0 c s"
  let ?s = "s\<lparr>seg_cs := 0x08, intf := False, seg_data := 0x10\<rparr>"
  note num = line_number [OF assms(2)]
  have i: "int_no ?f = 32 + of_nat n" by (simp add: entry_frame_def)
  have "isr_irq_handler run ?f ?s = Inr ((), t\<lparr>con := pic8259_eoi (of_nat (32 + n)) (con t)\<rparr>)"
    using isr_irq_handler_run [of ?f run ?s] assms(2,4,5) by (simp add: i num del: of_nat_add)
  then show ?thesis
    unfolding interrupt_def up_gate [OF assms(1,2)] interrupt_path [OF assms(3)] by simp
qed

lemma up_handlers:
  assumes "kernel_serves p s" "n < 16"
  shows "g_interrupt_handlers s ! (32 + n) = (if n = 0 then timer_handler_at p else 0)"
  using assms by (simp add: kernel_serves_def)

lemma interrupt_timer:
  fixes s :: "'a kernel_st_scheme"
  assumes "kernel_serves p s" "no_timer_functions s" "timer_handler_at p \<noteq> 0" "bit (c_eflags c) 9" "intf s"
    and "run (timer_handler_at p) = (\<lambda>_. timer_handler call)"
  shows "interrupt run 32 0 c s = Inr (c, s\<lparr>g_ticks := g_ticks s + 1, con := pic8259_eoi 0x20 (con s)\<rparr>)"
proof -
  let ?s = "s\<lparr>seg_cs := 0x08, intf := False, seg_data := 0x10\<rparr>"
  have "no_timer_functions ?s" using assms(2) by (simp add: no_timer_functions_def)
  then have t: "timer_handler call ?s = Inr ((), ?s\<lparr>g_ticks := g_ticks s + 1\<rparr>)"
    using timer_handler_idle [of ?s call] by simp
  have h: "g_interrupt_handlers s ! (32 + 0) = timer_handler_at p" using up_handlers [OF assms(1), of 0] by simp
  have "interrupt run (32 + 0) 0 c s = Inr (c, ?s\<lparr>g_ticks := g_ticks s + 1, con := pic8259_eoi (of_nat (32 + 0)) (con s),
      seg_data := seg_data s, seg_cs := seg_cs s, intf := True\<rparr>)"
    using interrupt_run [OF assms(1) _ assms(4), of 0 run "?s\<lparr>g_ticks := g_ticks s + 1\<rparr>"] assms(3,6) t h by simp
  then show ?thesis using assms(5) by simp
qed

section \<open>Properties\<close>



text \<open>
  \<open>kmain\<close> maps one page of the boot module, at the address a request for four bytes returned. In an image
  of the build tool no byte of any file lies on that page, and the first file begins, as the driver
  computes its address, on the page where \<open>ramdisk_init\<close> puts the root node.
\<close>

lemma kmain_maps_headers_only:
  fixes s :: "'a kernel_st_scheme"
  assumes "arena_ok s" "unat (page_up (currentBase s)) + 8192 \<le> unat (maxBase s)"
    and "image_of names datas img" "i < length datas" "length img \<le> 0x10000000"
  shows "\<exists>addr s'. kmalloc_early_align 4 s = Inr (addr, s') \<and> page_up (currentBase s') = addr + 4096
    \<and> block addr 4096 \<inter> block (addr + of_nat (start_of datas i)) (length (datas ! i)) = {}
    \<and> addr + of_nat (start_of datas 0) \<in> block (page_up (currentBase s')) 4096"
proof -
  define addr where "addr = page_up (currentBase s)"
  let ?s = "s\<lparr>currentBase := addr + 4\<rparr>"
  have mx: "unat (maxBase s) \<le> 4294963200" and cb: "unat (currentBase s) \<le> 4294963200"
    using assms(1) by (auto simp: arena_ok_def word_le_nat_alt)
  have al: "unat addr mod 4096 = 0" unfolding addr_def by (rule page_up_bounds(3) [OF cb])
  have run: "kmalloc_early_align 4 s = Inr (addr, ?s)"
    using kmalloc_early_align_run(1) [OF assms(1), of 4] assms(2) by (simp add: addr_def)
  have fits: "start_of datas i + length (datas ! i) \<le> 0x10000000"
    using start_of_fits [OF assms(4)] assms(3,5) by (simp add: image_of_def)
  have up: "page_up (addr + 4) = addr + 4096"
    by (rule page_up_page [OF al]) (use assms(2) mx in \<open>simp_all add: addr_def\<close>)
  have "block (addr + of_nat 0) 4096 \<inter> block (addr + of_nat (start_of datas i)) (length (datas ! i)) = {}"
    using fits by (intro sub_blocks_disjoint) (simp_all add: start_of_def)
  moreover have first: "addr + of_nat (start_of datas 0) = addr + 4096 + of_nat 772" by (simp add: start_of_def)
  have "addr + of_nat (start_of datas 0) \<in> block (addr + 4096) 4096"
    unfolding first by (rule block_mem) simp
  ultimately show ?thesis using run up by auto
qed

section \<open>A small kernel\<close>

definition sample_kernel :: kernel_st where
  "sample_kernel = ramdisk_st.extend
     (paging_st.extend sample_boot
        \<lparr>initrd_h = 0, file_headers = 0, nroot_nodes = 0, root = 0, dev = 0, root_nodes = 0\<rparr>)
     \<lparr>fs_root = 0\<rparr>"

definition sample_program :: program where
  "sample_program = linkage.extend sample_lk
     \<lparr>gdt_at = 0xC0106000, idt_at = 0xC0107000, exception_stub = (\<lambda>i. 0xC0101000 + of_nat (16 * i)),
      irq_stub = (\<lambda>i. 0xC0102000 + of_nat (16 * i)), page_fault_handler_at = 0xC0105000, timer_handler_at = 0xC0105100,
      KERNEL_START = 0xC0104000, KERNEL_END = 0xC0208000, EARLY_KMALLOC_START = 0xC0200000,
      EARLY_KMALLOC_END = 0xC0208000, buf_at = 0xC0109000\<rparr>"

lemma sample_kernel_fields [simp]:
  "mem sample_kernel = mem sample_boot" "cr0 sample_kernel = cr0 sample_boot" "cr3 sample_kernel = cr3 sample_boot"
  "kernelPagingEnabled sample_kernel = kernelPagingEnabled sample_boot"
  "length (g_gdt sample_kernel) = 5" "length (g_idt sample_kernel) = 256"
  "g_interrupt_handlers sample_kernel = replicate 256 0" "no_timer_functions sample_kernel"
  "initialized sample_kernel = 1" "initialBase sample_kernel = 0xC0200000" "currentBase sample_kernel = 0xC0200000"
  "maxBase sample_kernel = 0xC0208000"
  by (simp_all add: sample_kernel_def ramdisk_st.defs paging_st.defs sample_boot_def timer_st.defs sample_timer_def
      idt_st.defs sample_idt_def gdt_st.defs sample_gdt_def isr_st.defs sample_isr_def no_timer_functions_def)

lemma sample_program_fields [simp]:
  "gdt_at sample_program = 0xC0106000" "EARLY_KMALLOC_START sample_program = 0xC0200000"
  "EARLY_KMALLOC_END sample_program = 0xC0208000" "KERNEL_START sample_program = 0xC0104000"
  "KERNEL_END sample_program = 0xC0208000" "timer_handler_at sample_program = 0xC0105100"
  by (simp_all add: sample_program_def linkage.defs)

lemma sample_kernel_ready: "boot_ready sample_program sample_kernel"
proof -
  have "boot_mapped (sample_kernel\<lparr>initialBase := 0xC0200000, maxBase := 0xC0208000\<rparr>) \<longleftrightarrow> boot_mapped sample_boot"
    by (simp add: boot_mapped_def mapped_def mmu_walk_def walk_reads_def paging_on_def heap_def cong: if_cong)
  with sample_boot_ok(1) show ?thesis
    by (simp add: boot_ready_def gdt_clear_of_check_def page_aligned_def page_up_def PAGE_ALIGN_def)
qed

lemma sample_kernel_serves:
  "\<exists>s :: kernel_st. kernel_serves sample_program s \<and> no_timer_functions s"
  using kmain_init_up [OF sample_kernel_ready] sample_kernel_fields(8) by (auto simp: no_timer_functions_def kernel_up_def)

definition sample_pic :: chip where
  "sample_pic = \<lparr>stage = Ready, wants4 = True, vector_base = 0x20, cascade = 4, mode = 1, imr = 0, in_service = {0}\<rparr>"

lemma sample_cpu_enabled: "bit (c_eflags sample_cpu) 9"
  by (simp add: sample_cpu_def)


end
