(* ===== verification/Mount.thy ===== *)
theory Mount
  imports Kernel
begin

unbundle bit_operations_syntax

text \<open>
  The boot module (\<^verbatim>\<open>src/kernel.c\<close>): with paging switched on, \<open>kmain\<close> takes two fresh pages of the arena, maps the
  first to the loader's module list and the second to the first page of the module, and mounts
  the ramdisk whose headers lie there.
\<close>

section \<open>What kmain finds\<close>

definition module_ready :: "u32 \<Rightarrow> u32 \<Rightarrow> u32 \<Rightarrow> 'a kernel_st_scheme \<Rightarrow> bool" where
  "module_ready mbi mods start s \<longleftrightarrow> live s \<and> arena_ok s \<and> (\<forall>a \<in> heap s. mmu_walk s a = Some (kphys a))
     \<and> aligned4 (mbi_mods_addr mbi)
     \<and> (\<exists>pa. mmu_walk s (mbi_mods_addr mbi) = Some pa \<and> get32 (mem s) pa = mods)
     \<and> page_aligned mods \<and> page_aligned start \<and> get32 (mem s) mods = start
     \<and> block mods 8 \<inter> kphys ` heap s = {} \<and> block start 4096 \<inter> kphys ` heap s = {}"

text \<open>
  The memory of the ramdisk as \<open>kmain\<close> maps it: the first page of the module, the heap for the nodes and the two
  literals; and where these addresses lead.
\<close>

definition mount_region :: "linkage \<Rightarrow> u32 \<Rightarrow> nat \<Rightarrow> u32 set" where
  "mount_region lk addr n = block addr 4096 \<union> heap_for (addr + 4096) n \<union> block (initrd_str lk) 7 \<union> block (dev_str lk) 4"

definition mount_tr :: "u32 \<Rightarrow> u32 \<Rightarrow> u32 \<Rightarrow> u32" where
  "mount_tr addr start va = (if va \<in> block addr 4096 then start + (va - addr) else kphys va)"

definition kernel_mapped :: "u32 set \<Rightarrow> u32 \<Rightarrow> 'a kernel_st_scheme \<Rightarrow> bool" where
  "kernel_mapped L start s \<longleftrightarrow> (\<forall>x \<in> L. mmu_walk s x = Some (kphys x) \<and> x \<notin> heap s \<and> kphys x \<notin> block start 4096)"

definition literals_mapped :: "linkage \<Rightarrow> u32 \<Rightarrow> 'a kernel_st_scheme \<Rightarrow> bool" where
  "literals_mapped lk start s \<longleftrightarrow> kernel_mapped (block (initrd_str lk) 7 \<union> block (dev_str lk) 4) start s"

section \<open>Fresh pages\<close>

lemma fresh_page:
  fixes s :: "'a kernel_st_scheme"
  assumes "arena_ok s" "page_up (currentBase s) = p" "n \<noteq> 0" "unat n \<le> 4096" "unat p + 4096 \<le> unat (maxBase s)"
  shows "kmalloc_early_align n s = Inr (p, s\<lparr>currentBase := p + n\<rparr>)" "arena_ok (s\<lparr>currentBase := p + n\<rparr>)"
    "page_aligned p" "currentBase s \<le> p" "block p 4096 \<subseteq> heap s" "page_up (p + n) = p + 4096"
proof -
  have mx: "unat (maxBase s) \<le> 4294963200" "unat (currentBase s) \<le> 4294963200" "unat (initialBase s) \<le> unat (currentBase s)"
    using assms(1) by (auto simp: arena_ok_def word_le_nat_alt)
  note b = page_up_bounds [OF mx(2), unfolded assms(2)]
  show "kmalloc_early_align n s = Inr (p, s\<lparr>currentBase := p + n\<rparr>)" "arena_ok (s\<lparr>currentBase := p + n\<rparr>)"
    using kmalloc_early_align_run [OF assms(1,3)] assms(2,4,5) by simp_all
  show al: "page_aligned p" using b(3) by (simp add: page_aligned_def)
  show "currentBase s \<le> p" using b(1) by (simp add: word_le_nat_alt)
  show "block p 4096 \<subseteq> heap s"
  proof
    fix x
    assume "x \<in> block p 4096"
    then have "unat p \<le> unat x" "unat x < unat p + 4096" using mem_block_iff [OF page_block_fits [OF al], of x] by simp_all
    then show "x \<in> heap s" using assms(5) b(1) mx(3) by (simp add: heap_def word_le_nat_alt word_less_nat_alt)
  qed
  have "0 < unat n" using assms(3) by (simp add: unat_gt_0)
  then show "page_up (p + n) = p + 4096" using b(3) assms(4,5) mx(1) by (intro page_up_page) simp_all
qed

lemma in_page_iff:
  assumes "page_aligned p"
  shows "unat va div 4096 = unat p div 4096 \<longleftrightarrow> va \<in> block p 4096"
proof
  assume "unat va div 4096 = unat p div 4096"
  moreover have "unat p = unat p div 4096 * 4096" using assms unfolding page_aligned_def by (metis add.right_neutral div_mult_mod_eq)
  ultimately have "unat p \<le> unat va" "unat va < unat p + 4096" by linarith+
  then show "va \<in> block p 4096" using mem_block_iff [OF page_block_fits [OF assms], of va] by simp
qed (rule in_page [OF assms])

lemma page_offset:
  assumes "page_aligned p" "va \<in> block p 4096"
  shows "va AND 0xFFF = va - p"
proof -
  have r: "unat p \<le> unat va" "unat va < unat p + 4096"
    using assms(2) mem_block_iff [OF page_block_fits [OF assms(1)], of va] by simp_all
  obtain k where k: "unat p = 4096 * k" using assms(1) unfolding page_aligned_def by auto
  have "unat va mod 4096 = unat va - unat p" using r unfolding k by (simp add: mod_nat_eqI)
  then have "unat (va AND 0xFFF) = unat (va - p)"
    using r(1) by (simp add: unat_and_offset_mask unat_sub_le word_le_nat_alt)
  then show ?thesis by (simp only: word_unat_eq_iff)
qed

text \<open>One step of \<open>kmain_mount\<close>: a fresh page is taken and mapped to a frame.\<close>

lemma map_window:
  fixes s :: "'a kernel_st_scheme"
  assumes lv: "live s" and ar: "arena_ok s" "page_up (currentBase s) = p" and n: "n \<noteq> 0" "unat n \<le> 4096" "unat p + 4096 \<le> unat (maxBase s)"
    and frame: "page_aligned frame" and walk: "mmu_walk s p = Some pa"
  obtains a m where "kmalloc_early_align n s = Inr (p, s\<lparr>currentBase := p + n\<rparr>)"
    "page_map p frame PAGE_ENTRY_RW (s\<lparr>currentBase := p + n\<rparr>) = Inr (a, s\<lparr>currentBase := p + n, mem := m\<rparr>)"
    "live (s\<lparr>currentBase := p + n, mem := m\<rparr>)" "arena_ok (s\<lparr>currentBase := p + n, mem := m\<rparr>)"
    "\<And>va. mmu_walk (s\<lparr>currentBase := p + n, mem := m\<rparr>) va =
       (if va \<in> block p 4096 then Some (frame + (va - p)) else mmu_walk s va)"
    "\<And>x. x \<notin> kphys ` arena_used (s\<lparr>currentBase := p + n\<rparr>) \<Longrightarrow> m x = mem s x"
    "page_up (p + n) = p + 4096"
proof -
  note fp = fresh_page [OF ar n]
  let ?s = "s\<lparr>currentBase := p + n\<rparr>"
  have p0: "clear_of_tables s p" by (rule live_fresh_page [OF lv fp(3,4)])
  have "unat (p + n) = unat p + unat n" using n(2,3) u32_less [of "maxBase s"] by (intro unat_add_small) linarith
  then have le: "currentBase s \<le> p + n" using fp(4) by (simp add: word_le_nat_alt)
  have lv': "live ?s" by (rule live_base [OF lv le])
  have same: "mmu_walk ?s va = mmu_walk s va" for va by (simp add: mmu_walk_def paging_on_def cong: if_cong)
  have "table_page ?s = table_page s"
    by (simp add: table_page_def present_def dir_entry_def tab_entry_def heap_word_def fun_eq_iff)
  then have clear: "clear_of_tables ?s p" using p0 by (simp add: clear_of_tables_def)
  have walk': "mmu_walk ?s p = Some pa" using walk same by simp
  obtain a m where am: "page_map p frame PAGE_ENTRY_RW ?s = Inr (a, ?s\<lparr>mem := m\<rparr>)" "live (?s\<lparr>mem := m\<rparr>)"
      "\<And>va. mmu_walk (?s\<lparr>mem := m\<rparr>) va =
         (if unat va div 4096 = unat p div 4096 then Some (frame + (va AND 0xFFF)) else mmu_walk ?s va)"
      "\<And>x. x \<notin> kphys ` arena_used ?s \<Longrightarrow> m x = mem ?s x"
    by (rule live_map_fresh [OF lv' fp(3) frame walk' clear]) blast
  have "m x = mem s x" if "x \<notin> kphys ` arena_used ?s" for x using am(4) [OF that] by simp
  moreover have "mmu_walk (?s\<lparr>mem := m\<rparr>) va = (if va \<in> block p 4096 then Some (frame + (va - p)) else mmu_walk s va)" for va
    unfolding am(3) same using in_page_iff [OF fp(3), of va] page_offset [OF fp(3), of va] by simp
  moreover have "arena_ok (?s\<lparr>mem := m\<rparr>)" using fp(2) by (simp add: arena_ok_def)
  ultimately show thesis using that fp(1,6) am(1,2) by simp
qed

section \<open>Mounting\<close>

text \<open>The steps of \<open>kmain_mount\<close> up to the ramdisk: both windows are open.\<close>

definition windows_open :: "u32 \<Rightarrow> u32 \<Rightarrow> 'a kernel_st_scheme \<Rightarrow> 'a kernel_st_scheme \<Rightarrow> bool" where
  "windows_open addr start s t \<longleftrightarrow> live t \<and> arena_ok t \<and> maxBase t = maxBase s \<and> page_up (currentBase t) = addr + 4096
     \<and> arena_used t \<subseteq> heap s \<and> (\<forall>x \<in> arena_used t. unat x < unat addr + 4096)
     \<and> (\<forall>va. va \<notin> block (addr - 4096) 4096 \<longrightarrow>
          mmu_walk t va = (if va \<in> block addr 4096 then Some (start + (va - addr)) else mmu_walk s va))
     \<and> interrupts_kept s t \<and> (\<forall>x. x \<notin> kphys ` arena_used t \<longrightarrow> mem t x = mem s x)"

lemma kmain_windows:
  fixes s :: "'a kernel_st_scheme"
  assumes rdy: "module_ready mbi mods start s" and addr: "addr = page_up (currentBase s) + 4096"
    and room: "unat (page_up (currentBase s)) + 8192 \<le> unat (maxBase s)"
  shows "\<exists>t e. kmain_mount p mbi s =
      kbind (ramdisk_init (linkage.truncate p) addr (e - start)) (\<lambda>r. kmodify (\<lambda>s. s\<lparr>fs_root := r\<rparr>)) t
    \<and> windows_open addr start s t"
proof -
  let ?p = "page_up (currentBase s)"
  have lv: "live s" and ar: "arena_ok s" and hp: "\<And>a. a \<in> heap s \<Longrightarrow> mmu_walk s a = Some (kphys a)"
    and mbi: "aligned4 (mbi_mods_addr mbi)" and al: "page_aligned mods" "page_aligned start"
    and st: "get32 (mem s) mods = start" and ap: "block mods 8 \<inter> kphys ` heap s = {}"
    using rdy by (simp_all add: module_ready_def)
  obtain pa where pa: "mmu_walk s (mbi_mods_addr mbi) = Some pa" "get32 (mem s) pa = mods"
    using rdy by (auto simp: module_ready_def)
  have up: "unat addr = unat ?p + 4096" unfolding addr using room u32_less [of "maxBase s"] by (intro unat_add_small [where b = 4096, simplified]) linarith
  have r16: "(16 :: u32) \<noteq> 0" "unat (16 :: u32) \<le> 4096" and r4: "(4 :: u32) \<noteq> 0" "unat (4 :: u32) \<le> 4096" by simp_all
  have fit: "unat ?p + 4096 \<le> unat (maxBase s)" using room by simp
  note fp = fresh_page [OF ar refl r16 fit]
  have pw: "mmu_walk s ?p = Some (kphys ?p)" by (rule hp, rule subsetD [OF fp(5)]) (use block_mem [of 0 4096 ?p] in simp)
  obtain a1 m1 where w1: "kmalloc_early_align 16 s = Inr (?p, s\<lparr>currentBase := ?p + 16\<rparr>)"
      "page_map ?p mods PAGE_ENTRY_RW (s\<lparr>currentBase := ?p + 16\<rparr>) = Inr (a1, s\<lparr>currentBase := ?p + 16, mem := m1\<rparr>)"
      "live (s\<lparr>currentBase := ?p + 16, mem := m1\<rparr>)" "arena_ok (s\<lparr>currentBase := ?p + 16, mem := m1\<rparr>)"
      "\<And>va. mmu_walk (s\<lparr>currentBase := ?p + 16, mem := m1\<rparr>) va =
         (if va \<in> block ?p 4096 then Some (mods + (va - ?p)) else mmu_walk s va)"
      "\<And>x. x \<notin> kphys ` arena_used (s\<lparr>currentBase := ?p + 16\<rparr>) \<Longrightarrow> m1 x = mem s x" "page_up (?p + 16) = ?p + 4096"
    by (rule map_window [OF lv ar refl r16 fit al(1) pw]) blast
  let ?s1 = "s\<lparr>currentBase := ?p + 16, mem := m1\<rparr>"
  have cur: "page_up (currentBase ?s1) = addr" using w1(7) addr by simp
  have fit': "unat addr + 4096 \<le> unat (maxBase ?s1)" using room up by simp
  note fq = fresh_page [OF w1(4) cur r4 fit']
  have heap1: "heap ?s1 = heap s" by (simp add: heap_def)
  have sub: "block addr 4096 \<subseteq> heap s" using fq(5) by (simp add: heap_def)
  have apart: "addr \<notin> block ?p 4096"
    using up mem_block_iff [OF page_block_fits [OF fp(3)], of addr] by simp
  have aw: "mmu_walk ?s1 addr = Some (kphys addr)"
    using apart subsetD [OF sub, of addr] block_mem [of 0 4096 addr] hp by (simp add: w1(5))
  obtain a2 m2 where w2: "kmalloc_early_align 4 ?s1 = Inr (addr, ?s1\<lparr>currentBase := addr + 4\<rparr>)"
      "page_map addr start PAGE_ENTRY_RW (?s1\<lparr>currentBase := addr + 4\<rparr>) = Inr (a2, ?s1\<lparr>currentBase := addr + 4, mem := m2\<rparr>)"
      "live (?s1\<lparr>currentBase := addr + 4, mem := m2\<rparr>)" "arena_ok (?s1\<lparr>currentBase := addr + 4, mem := m2\<rparr>)"
      "\<And>va. mmu_walk (?s1\<lparr>currentBase := addr + 4, mem := m2\<rparr>) va =
         (if va \<in> block addr 4096 then Some (start + (va - addr)) else mmu_walk ?s1 va)"
      "\<And>x. x \<notin> kphys ` arena_used (?s1\<lparr>currentBase := addr + 4\<rparr>) \<Longrightarrow> m2 x = mem ?s1 x" "page_up (addr + 4) = addr + 4096"
    by (rule map_window [OF w1(3,4) cur r4 fit' al(2) aw]) blast
  let ?t = "?s1\<lparr>currentBase := addr + 4, mem := m2\<rparr>"
  have "unat ?p + 8192 < 4294967296" using room u32_less [of "maxBase s"] by linarith
  then have "unat (addr + 4) = unat addr + 4" "unat (?p + 16) = unat ?p + 16"
    using up unat_add_small [of addr 4] unat_add_small [of ?p 16] by simp_all
  then have used: "arena_used (s\<lparr>currentBase := ?p + 16\<rparr>) \<subseteq> arena_used ?t" "arena_used ?t \<subseteq> heap s"
      "\<forall>x \<in> arena_used ?t. unat x < unat addr + 4096"
    using up room by (auto simp: arena_used_def heap_def word_le_nat_alt word_less_nat_alt)
  have mods: "get32 m1 mods = start"
  proof -
    have "word_bytes mods \<inter> kphys ` heap s = {}" using ap block_mono [of 4 8 mods] by (auto simp: word_bytes_block)
    then have "m1 x = mem s x" if "x \<in> word_bytes mods" for x
      using that used(1,2) by (intro w1(6)) blast
    then show ?thesis unfolding st [symmetric] by (rule get32_cong)
  qed
  have step: "kmain_mount p mbi s =
      kbind (ramdisk_init (linkage.truncate p) addr (get32 m1 (mods + 4) - start)) (\<lambda>r. kmodify (\<lambda>s. s\<lparr>fs_root := r\<rparr>)) ?t"
  proof -
    let ?c = "s\<lparr>currentBase := ?p + 16\<rparr>" and ?d = "?s1\<lparr>currentBase := addr + 4\<rparr>"
    have p4: "aligned4 ?p" "aligned4 (?p + 4)"
      using elem_aligned4 [OF fp(3), of 0] elem_aligned4 [OF fp(3), of 1] by (simp_all add: elem_def)
    have walks: "mmu_walk ?c va = mmu_walk s va" "mmu_walk ?d va = mmu_walk ?s1 va" for va
      by (simp_all add: mmu_walk_def paging_on_def cong: if_cong)
    have "?p + of_nat 0 \<in> block ?p 4096" "?p + of_nat 4 \<in> block ?p 4096" by (rule block_mem; simp)+
    then have pws: "mmu_walk ?s1 ?p = Some mods" "mmu_walk ?s1 (?p + 4) = Some (mods + 4)" by (simp_all add: w1(5))
    have l1: "load32 (mbi_mods_addr mbi) ?c = Inr (mods, ?c)"
      using load32_walk [of ?c, OF _ mbi] walks pa by simp
    have l2: "load32 (mod_end ?p) ?s1 = Inr (get32 m1 (mods + 4), ?s1)" "load32 (mod_start ?p) ?s1 = Inr (start, ?s1)"
      using load32_walk [OF pws(2) p4(2)] load32_walk [OF pws(1) p4(1)] by (simp_all add: mod_end_def mod_start_def mods)
    have l3: "load32 (mod_start ?p) ?d = Inr (start, ?d)"
      using load32_walk [of ?d ?p mods] walks pws p4 mods by (simp add: mod_start_def)
    show ?thesis
      by (simp add: kmain_mount_def multiboot_module_size_def w1(1,2) l1 l2 l3 [simplified]
          w2(1,2) [simplified])
  qed
  have "windows_open addr start s ?t"
  proof -
    have "mmu_walk ?t va = (if va \<in> block addr 4096 then Some (start + (va - addr)) else mmu_walk s va)"
      if "va \<notin> block (addr - 4096) 4096" for va
      using that unfolding w2(5) w1(5) by (simp add: addr)
    moreover have "mem ?t x = mem s x" if "x \<notin> kphys ` arena_used ?t" for x
      using that w2(6) [of x] w1(6) [of x] used(1) by (auto simp: arena_used_def)
    ultimately show ?thesis using w2(3,4,7) used by (simp add: windows_open_def interrupts_kept_def)
  qed
  with step show ?thesis by blast
qed

text \<open>Through the windows the processor sees the module, the heap, the literals, and any other part of the kernel.\<close>

lemma windows_view:
  fixes s t :: "'a kernel_st_scheme"
  assumes rdy: "module_ready mbi mods start s" and lits: "literals_mapped lk start s" "kernel_mapped E start s" and w: "windows_open addr start s t"
    and addr: "page_aligned addr" "block (addr - 4096) 4096 \<union> block addr 4096 \<union> heap_for (addr + 4096) n \<subseteq> heap s"
    and size: "4096 \<le> unat addr" "unat addr + (12288 + 184 * n) < 4294967296"
  shows "view (mount_region lk addr n \<union> E) (mount_tr addr start) (\<lambda>va. mem s (mount_tr addr start va)) t"
proof -
  let ?D = "mount_region lk addr n \<union> E" and ?tr = "mount_tr addr start"
  let ?L = "block (initrd_str lk) 7 \<union> block (dev_str lk) 4 \<union> E" and ?H = "heap_for (addr + 4096) n"
  have "unat (addr + 4096) = unat addr + 4096" using size(2) unat_add_small [of addr 4096] by simp
  then have top: "unat addr + 4096 \<le> unat x" if "x \<in> ?H" for x
    using that size(2) mem_block_iff [of "addr + 4096" "8192 + 184 * n" x] by (simp add: heap_for_def)
  have apart: "block (addr - 4096) 4096 \<inter> block addr 4096 = {}" "block (addr - 4096) 4096 \<inter> ?H = {}"
    using sub_blocks_disjoint [of 0 4096 4096 4096 "addr - 4096"] size
      sub_blocks_disjoint [of 0 4096 8192 "8192 + 184 * n" "addr - 4096"]
    by (simp_all add: heap_for_def add.commute)
  have hp: "mmu_walk s a = Some (kphys a)" if "a \<in> heap s" for a using rdy that by (simp add: module_ready_def)
  have mod: "block start 4096 \<inter> kphys ` heap s = {}" using rdy by (simp add: module_ready_def)
  have lit: "mmu_walk s x = Some (kphys x)" "x \<notin> heap s" "kphys x \<notin> block start 4096" if "x \<in> ?L" for x
    using lits that by (auto simp: literals_mapped_def kernel_mapped_def)
  have used: "arena_used t \<subseteq> heap s" "\<And>x. x \<in> arena_used t \<Longrightarrow> unat x < unat addr + 4096" and lv: "live t"
    using w by (auto simp: windows_open_def)
  have win: "x \<in> block addr 4096 \<or> x \<in> ?H \<and> x \<notin> block addr 4096 \<or> x \<in> ?L \<and> x \<notin> block addr 4096" if "x \<in> ?D" for x
    using that by (auto simp: mount_region_def)
  have tr_in: "?tr x \<in> block start 4096" if "x \<in> block addr 4096" for x
  proof -
    obtain i where "i < 4096" "x = addr + of_nat i" using \<open>x \<in> block addr 4096\<close> by (auto simp: block_def)
    then show ?thesis using that block_mem [of i 4096 start] by (simp add: mount_tr_def)
  qed
  have tr_out: "?tr x = kphys x" if "x \<notin> block addr 4096" for x using that by (simp add: mount_tr_def)
  have away: "?tr x \<notin> kphys ` arena_used t" if "x \<in> ?D" for x
    using win [OF that]
  proof (elim disjE conjE)
    assume "x \<in> block addr 4096"
    then show ?thesis using tr_in mod used(1) by blast
  next
    assume "x \<in> ?H" "x \<notin> block addr 4096"
    then have "x \<notin> arena_used t" using top used(2) by fastforce
    then show ?thesis using tr_out [OF \<open>x \<notin> block addr 4096\<close>] by auto
  next
    assume "x \<in> ?L" "x \<notin> block addr 4096"
    then show ?thesis using lit(2) used(1) tr_out by auto
  qed
  have walk: "mmu_walk t x = Some (?tr x)" if "x \<in> ?D" for x
  proof -
    have "x \<notin> block (addr - 4096) 4096" "x \<in> block addr 4096 \<or> mmu_walk s x = Some (kphys x)"
      using win [OF that] lit(1,2) [of x] addr(2) apart hp [of x] by auto
    then show ?thesis using w by (auto simp: windows_open_def mount_tr_def)
  qed
  have "inj_on ?tr ?D"
  proof (rule inj_onI)
    fix x y
    assume xy: "x \<in> ?D" "y \<in> ?D" "?tr x = ?tr y"
    have "?tr z \<notin> block start 4096" if "z \<in> ?D" "z \<notin> block addr 4096" for z
    proof -
      have "z \<in> heap s \<or> z \<in> ?L" using win [OF that(1)] that(2) addr(2) by blast
      then show ?thesis unfolding tr_out [OF that(2)] using mod lit(3) [of z] by blast
    qed
    then have "x \<in> block addr 4096 \<longleftrightarrow> y \<in> block addr 4096" using xy tr_in by metis
    then show "x = y" using xy(3) by (auto simp: mount_tr_def split: if_splits)
  qed
  moreover have "walk_reads t x \<inter> ?tr ` ?D = {}" for x using live_reads [OF lv, of x] away by blast
  moreover have "mem t (?tr x) = mem s (?tr x)" if "x \<in> ?D" for x using away [OF that] w by (simp add: windows_open_def)
  ultimately show ?thesis using walk by (simp add: view_def mapped_def)
qed

text \<open>The two windows and the nodes fit into the arena.\<close>

lemma mount_room:
  fixes s :: "'a kernel_st_scheme"
  assumes ar: "arena_ok s" and addr: "addr = page_up (currentBase s) + 4096"
    and room: "unat (page_up (currentBase s)) + 16384 + 184 * n \<le> unat (maxBase s)"
  shows "page_aligned addr" "unat addr = unat (page_up (currentBase s)) + 4096" "unat (addr + 4096) = unat addr + 4096"
    "block (addr - 4096) 4096 \<union> block addr 4096 \<union> heap_for (addr + 4096) n \<subseteq> heap s"
    "unat addr + (12288 + 184 * n) < 4294967296"
proof -
  let ?p = "page_up (currentBase s)"
  have mx: "unat (currentBase s) \<le> 4294963200" "unat (initialBase s) \<le> unat (currentBase s)"
    using ar by (auto simp: arena_ok_def word_le_nat_alt)
  note b = page_up_bounds [OF mx(1)]
  have lt: "unat ?p + 16384 + 184 * n < 4294967296" using room u32_less [of "maxBase s"] by linarith
  show u: "unat addr = unat ?p + 4096" using lt unat_add_small [of ?p 4096] by (simp add: addr)
  then show u': "unat (addr + 4096) = unat addr + 4096" using lt unat_add_small [of addr 4096] by simp
  show "page_aligned addr" using b(3) u by (simp add: page_aligned_def)
  show "unat addr + (12288 + 184 * n) < 4294967296" using lt u by simp
  show "block (addr - 4096) 4096 \<union> block addr 4096 \<union> heap_for (addr + 4096) n \<subseteq> heap s"
  proof
    fix x
    assume "x \<in> block (addr - 4096) 4096 \<union> block addr 4096 \<union> heap_for (addr + 4096) n"
    then have "unat ?p \<le> unat x \<and> unat x < unat ?p + (16384 + 184 * n)"
      using lt u u' mem_block_iff [of ?p 4096 x] mem_block_iff [of addr 4096 x] mem_block_iff [of "addr + 4096" "8192 + 184 * n" x]
      by (auto simp: heap_for_def addr)
    then show "x \<in> heap s"
      using room b(1) mx(2) by (simp add: heap_def word_le_nat_alt word_less_nat_alt)
  qed
qed

lemma mountable_mono: "mountable D lk V addr r names \<Longrightarrow> D \<subseteq> D' \<Longrightarrow> mountable D' lk V addr r names"
  by (auto simp: mountable_def image_ok_def literal_def)

text \<open>\<open>kmain_mount\<close> to its end, with a view that also shows a part \<open>E\<close> of the kernel.\<close>

lemma kmain_mount_run:
  fixes s :: "'a kernel_st_scheme"
  assumes "module_ready mbi mods start s" "literals_mapped (linkage.truncate p) start s"
    and "addr = page_up (currentBase s) + 4096"
    and "unat (page_up (currentBase s)) + 16384 + 184 * length names \<le> unat (maxBase s)"
    and mt: "mountable (mount_region (linkage.truncate p) addr (length names)) (linkage.truncate p)
           (\<lambda>va. mem s (mount_tr addr start va)) addr (addr + 4096) names"
    and E: "kernel_mapped E start s"
  shows "\<exists>s' W. kmain_mount p mbi s = Inr ((), s') \<and> fs_root s' = addr + 4096
    \<and> disk_up (mount_region (linkage.truncate p) addr (length names) \<union> E) (mount_tr addr start) (linkage.truncate p)
        addr (addr + 4096) names W s'
    \<and> mounted (linkage.truncate p) addr (addr + 4096) names (\<lambda>va. mem s (mount_tr addr start va)) W
    \<and> interrupts_kept s s'"
proof -
  let ?lk = "linkage.truncate p" and ?r = "addr + 4096" and ?n = "length names"
  let ?D = "mount_region ?lk addr ?n \<union> E" and ?tr = "mount_tr addr start" and ?V = "\<lambda>va. mem s (mount_tr addr start va)"
  have ar: "arena_ok s" using assms(1) by (simp add: module_ready_def)
  note room = mount_room [OF ar assms(3,4)]
  have "unat (page_up (currentBase s)) + 8192 \<le> unat (maxBase s)" using assms(4) by simp
  then obtain t e where t: "windows_open addr start s t" "kmain_mount p mbi s =
      kbind (ramdisk_init ?lk addr (e - start)) (\<lambda>r. kmodify (\<lambda>s. s\<lparr>fs_root := r\<rparr>)) t"
    using kmain_windows [OF assms(1,3), of p] by blast
  have v: "view ?D ?tr ?V t"
    by (rule windows_view [OF assms(1,2) E t(1) room(1,4) _ room(5)]) (use room(2) in simp)
  have kept: "interrupts_kept s t" using t(1) by (simp add: windows_open_def)
  have "arena_ok t" "page_up (currentBase t) = ?r" "unat ?r + 8192 + 184 * ?n \<le> unat (maxBase t)"
    using t(1) room(2,3) assms(4) by (simp_all add: windows_open_def)
  then obtain t' W where t': "ramdisk_init ?lk addr (e - start) t = Inr (?r, t')" "disk_up ?D ?tr ?lk addr ?r names W t'"
      "mounted ?lk addr ?r names ?V W" "interrupts_kept t t'"
    using ramdisk_init_up [OF v mountable_mono [OF mt Un_upper1]] by blast
  let ?t = "t'\<lparr>fs_root := ?r\<rparr>"
  have "disk_up ?D ?tr ?lk addr ?r names W ?t"
    by (rule disk_up_frame [OF t'(2)]) (use t'(2) in \<open>auto simp: disk_up_def disk_state_def intro: view_frame\<close>)
  moreover have "interrupts_kept s ?t" using interrupts_kept_trans [OF kept t'(4)] by (simp add: interrupts_kept_def)
  ultimately show ?thesis using t'(3) by (intro exI [of _ ?t] exI [of _ W]) (simp add: t(2) t'(1))
qed

section \<open>Properties\<close>

text \<open>
  Bringing up the components leaves page tables in use that map themselves: when the early heap lies among the
  kernel's pages, \<open>kmain_init\<close> returns with the processor walking the tables that \<open>page_map\<close> writes, each of them
  reachable at its own virtual address, and with a whole arena whose every byte is mapped.
\<close>

lemma kmain_init_live:
  fixes s :: "'a kernel_st_scheme"
  assumes "boot_ready p s" "KERNEL_START p \<le> EARLY_KMALLOC_START p" "EARLY_KMALLOC_END p \<le> PAGE_ALIGN_UP (KERNEL_END p)"
  shows "\<exists>s'. kmain_init p s = Inr ((), s') \<and> live s' \<and> arena_ok s' \<and> (\<forall>a \<in> heap s'. mmu_walk s' a = Some (kphys a))"
proof -
  obtain s' where s': "kmain_init p s = Inr ((), s')" "kernel_up p s'" "arena_ok s'"
      "initialBase s' = EARLY_KMALLOC_START p" "maxBase s' = EARLY_KMALLOC_END p"
      "(\<forall>a \<in> heap s'. mmu_walk s' a = Some (kphys a)) \<longrightarrow> live s'"
    using kmain_init_up [OF assms(1)] by blast
  have hi: "3221225472 \<le> unat (KERNEL_START p)" using assms(1) by (simp add: boot_ready_def word_le_nat_alt)
  have "mmu_walk s' a = Some (kphys a)" if "a \<in> heap s'" for a
  proof -
    have "KERNEL_START p \<le> a" "a < PAGE_ALIGN_UP (KERNEL_END p)" using that assms(2,3) s'(4,5) by (auto simp: heap_def)
    moreover from this(1) hi have "\<not> unat a < 1048576" by (simp add: word_le_nat_alt)
    ultimately show ?thesis using s'(2) by (simp add: kernel_up_def kphys_def)
  qed
  with s' show ?thesis by blast
qed

text \<open>
  \<open>kmain_mount\<close> mounts the boot module: when the tables in use map the heap and the literals, the
  loader's list names a page-aligned module, the first page of the module holds the headers of an image and
  the heap is zero where the nodes go, it returns with \<open>fs_root\<close> the root node of a mounted disk whose image is at the page
  it mapped to the module.
\<close>

lemma kmain_mount_root:
  fixes s :: "'a kernel_st_scheme"
  assumes "module_ready mbi mods start s" "literals_mapped (linkage.truncate p) start s"
    and "addr = page_up (currentBase s) + 4096"
    and "unat (page_up (currentBase s)) + 16384 + 184 * length names \<le> unat (maxBase s)"
    and "mountable (mount_region (linkage.truncate p) addr (length names)) (linkage.truncate p)
           (\<lambda>va. mem s (mount_tr addr start va)) addr (addr + 4096) names"
  shows "\<exists>s' W. kmain_mount p mbi s = Inr ((), s') \<and> fs_root s' = addr + 4096
    \<and> disk_up (mount_region (linkage.truncate p) addr (length names)) (mount_tr addr start) (linkage.truncate p)
        addr (addr + 4096) names W s'
    \<and> mounted (linkage.truncate p) addr (addr + 4096) names (\<lambda>va. mem s (mount_tr addr start va)) W"
  using kmain_mount_run [OF assms, of "{}"] by (auto simp: kernel_mapped_def)

end
