(* ===== verification/Boot.thy ===== *)
theory Boot
  imports Mount
begin

unbundle bit_operations_syntax

text \<open>
  The boot code (\<^verbatim>\<open>src/asm/boot.asm\<close>) and the linker script (\<^verbatim>\<open>config/linker.ld\<close>): the loader enters \<open>_start\<close> with paging
  off and the kernel at its physical addresses; the code builds a page directory and two tables, switches paging on, clears
  the kernel's zero-initialised data and calls \<open>kmain\<close>.
\<close>

section \<open>The linker script\<close>

text \<open>The sizes of the sections that the object files contribute, and the symbols that the script defines.\<close>

record section_sizes =
  header_size :: nat
  early_text_size :: nat
  early_data_size :: nat
  early_bss_size :: nat
  text_size :: nat
  rodata_size :: nat
  data_size :: nat
  bss_size :: nat

record link_map =
  sym_EARLY_TEXT_START :: nat
  sym_EARLY_DATA_START :: nat
  sym_EARLY_BSS_START :: nat
  sym_EARLY_BSS_SIZE :: nat
  sym_EARLY_KERNEL_END :: nat
  sym_KERNEL_START :: nat
  sym_TEXT_END :: nat
  sym_BSS_START :: nat
  sym_BSS_SIZE :: nat
  sym_EARLY_KMALLOC_START :: nat
  sym_EARLY_KMALLOC_END :: nat
  sym_KERNEL_END :: nat

definition align_to :: "nat \<Rightarrow> nat \<Rightarrow> nat" where
  "align_to n a = (a + (n - 1)) div n * n"

definition link_script :: "section_sizes \<Rightarrow> link_map" where
  "link_script z =
     (let dot = 0x00100000 + header_size z;
          early_text = align_to 0x1000 dot;
          early_data = align_to 0x1000 (early_text + early_text_size z);
          early_bss = align_to 0x1000 (early_data + early_data_size z);
          early_end = early_bss + early_bss_size z;
          kernel_start = early_end + 0xC0000000;
          text = align_to 0x1000 kernel_start;
          rodata = align_to 0x1000 (text + text_size z);
          data = align_to 0x1000 (rodata + rodata_size z);
          bss = align_to 0x1000 (data + data_size z);
          kmalloc = align_to 0x1000 (bss + bss_size z);
          kmalloc_end = kmalloc + 0x100000
      in \<lparr>sym_EARLY_TEXT_START = early_text, sym_EARLY_DATA_START = early_data, sym_EARLY_BSS_START = early_bss,
          sym_EARLY_BSS_SIZE = early_bss_size z, sym_EARLY_KERNEL_END = early_end, sym_KERNEL_START = kernel_start,
          sym_TEXT_END = text + text_size z, sym_BSS_START = bss, sym_BSS_SIZE = bss_size z,
          sym_EARLY_KMALLOC_START = kmalloc, sym_EARLY_KMALLOC_END = kmalloc_end, sym_KERNEL_END = kmalloc_end\<rparr>)"

text \<open>The assertion at the end of the script.\<close>

definition link_assert :: "section_sizes \<Rightarrow> bool" where
  "link_assert z \<longleftrightarrow> sym_KERNEL_END (link_script z) - sym_KERNEL_START (link_script z) < 0x300000"

section \<open>The boot code\<close>

text \<open>The symbols and labels that \<^verbatim>\<open>boot.asm\<close> refers to.\<close>

record boot_program = program +
  EARLY_BSS_START :: u32
  EARLY_BSS_SIZE :: u32
  EARLY_KERNEL_END :: u32
  BSS_START :: u32
  BSS_SIZE :: u32
  page_directory :: u32
  lowmem_pt :: u32
  kernel_pt :: u32
  multiboot_magic :: u32
  multiboot_info :: u32
  stack :: u32
  return_to :: u32

definition KERNEL_BASE :: u32 where "KERNEL_BASE = 0xC0000000"
definition LOWMEM_END :: "boot_program \<Rightarrow> u32" where "LOWMEM_END p = EARLY_KERNEL_END p"
definition PAGE_PERM :: u32 where "PAGE_PERM = 0x3"
definition STACK_SIZE :: u32 where "STACK_SIZE = 4 * PAGE_SIZE"

text \<open>\<open>rep stosb\<close> with the direction flag clear, \<open>or dword\<close> on memory, \<open>push\<close> below a stack pointer.\<close>

primrec rep_stosb :: "nat \<Rightarrow> u32 \<Rightarrow> u8 \<Rightarrow> ('a machine_scheme, unit) kernel" where
  "rep_stosb 0 edi al = kreturn ()"
| "rep_stosb (Suc ecx) edi al = kthen (store8 edi al) (rep_stosb ecx (edi + 1) al)"

definition or_dword :: "u32 \<Rightarrow> u32 \<Rightarrow> ('a machine_scheme, unit) kernel" where
  "or_dword a v = kbind (load32 a) (\<lambda>w. store32 a (w OR v))"

definition page_index :: "u32 \<Rightarrow> u32" where
  "page_index eax = drop_bit 12 eax AND 0x3FF"

text \<open>
  The two loops run at least once and compare signed (\<open>jl\<close>). The first argument bounds the rounds: after \<open>2 ^ 20\<close> rounds \<open>eax\<close> has
  taken every page address and the loop would never end.
\<close>

definition all_pages :: nat where "all_pages = 1048576"

primrec lowmem_loop :: "nat \<Rightarrow> boot_program \<Rightarrow> u32 \<Rightarrow> ('a machine_scheme, unit) kernel" where
  "lowmem_loop 0 p eax = kstop Undefined"
| "lowmem_loop (Suc k) p eax =
     kthen (store32 (lowmem_pt p + page_index eax * 4) eax)
    (kthen (or_dword (lowmem_pt p + page_index eax * 4) PAGE_PERM)
    (let eax = eax + PAGE_SIZE in
       if sint eax < sint (LOWMEM_END p) then lowmem_loop k p eax else kreturn ()))"

primrec higher_loop :: "nat \<Rightarrow> boot_program \<Rightarrow> u32 \<Rightarrow> ('a machine_scheme, unit) kernel" where
  "higher_loop 0 p eax = kstop Undefined"
| "higher_loop (Suc k) p eax =
    (let ebx = eax - KERNEL_BASE in
     kthen (store32 (kernel_pt p + page_index eax * 4) ebx)
    (kthen (or_dword (kernel_pt p + page_index eax * 4) PAGE_PERM)
    (let eax = eax + PAGE_SIZE in
       if sint eax < sint (KERNEL_END p) then higher_loop k p eax else kreturn ())))"

definition boot_tables :: "boot_program \<Rightarrow> ('a machine_scheme, unit) kernel" where
  "boot_tables p =
     kthen (store32 (page_directory p) (lowmem_pt p))
    (kthen (or_dword (page_directory p) PAGE_PERM)
    (kthen (lowmem_loop all_pages p 0)
    (let edx = drop_bit 22 KERNEL_BASE in
     kthen (store32 (page_directory p + edx * 4) (kernel_pt p))
    (kthen (or_dword (page_directory p + edx * 4) PAGE_PERM)
           (higher_loop all_pages p (KERNEL_START p))))))"

definition boot_paging :: "boot_program \<Rightarrow> ('a machine_scheme, unit) kernel" where
  "boot_paging p =
     kthen (kmodify (\<lambda>s. s\<lparr>cr3 := page_directory p\<rparr>))
           (kmodify (\<lambda>s. s\<lparr>cr0 := cr0 s OR 0x80000000\<rparr>))"

text \<open>
  Static variables of the C code with no initialiser, or zero, lie in \<^verbatim>\<open>.bss\<close>. In the state they are fields beside the memory, so the \<open>rep stosb\<close> over
  \<^verbatim>\<open>.bss\<close> also sets these fields to zero.
\<close>

definition zero_gdt_entry :: gdt_entry where
  "zero_gdt_entry = \<lparr>segment_limit = 0, base_low = 0, base_middle = 0, access = 0, granularity = 0, base_high = 0\<rparr>"

definition zero_gate :: idt_gate where
  "zero_gate = \<lparr>gate_base_low = 0, segment_selector = 0, gate_zero = 0, gate_type = 0, gate_base_high = 0\<rparr>"

definition clear_statics :: "'a kernel_st_scheme \<Rightarrow> 'a kernel_st_scheme" where
  "clear_statics s = s\<lparr>con := (con s)\<lparr>vga_x := 0, vga_y := 0, vga_ptr := 0, vga_pos := 0, screen_bg := COLOR_BLACK\<rparr>,
     initialized := 0, initialBase := 0, currentBase := 0, maxBase := 0, g_interrupt_handlers := replicate 256 0,
     g_gdt := replicate GDT_DESCRIPTORS zero_gdt_entry, g_gdt_ptr := (0, 0),
     g_idt := replicate IDT_DESCRIPTORS zero_gate, g_idt_ptr := (0, 0), g_ticks := 0, g_freq_hz := 0, tf_current_index := 0,
     tf_functions := replicate 256 0, tf_func_args := replicate 256 \<lparr>timeout = 0, user = 0\<rparr>,
     pageDirectory := 0, ptPhysToVirt := 0, kernelPagingEnabled := False,
     initrd_h := 0, file_headers := 0, nroot_nodes := 0, root := 0, dev := 0, root_nodes := 0, fs_root := 0\<rparr>"

text \<open>The stack pointer is a register of the boot code only: C code is modelled without its stack.\<close>

definition boot_call :: "boot_program \<Rightarrow> ('a kernel_st_scheme, unit) kernel" where
  "boot_call p =
    (let esp = stack p + STACK_SIZE in
     kbind (load32 (multiboot_magic p)) (\<lambda>magic.
     kthen (store32 (esp - 4) magic)
    (kbind (load32 (multiboot_info p)) (\<lambda>info.
     kthen (store32 (esp - 8) info)
    (kthen (store32 (esp - 12) (return_to p))
           (kbind (load32 (esp - 8)) (\<lambda>mbi. kmain (program.truncate p) mbi)))))))"

definition start :: "boot_program \<Rightarrow> u32 \<Rightarrow> u32 \<Rightarrow> ('a kernel_st_scheme, unit) kernel" where
  "start p eax ebx =
     kthen (store32 (multiboot_magic p) eax)
    (kthen (store32 (multiboot_info p) ebx)
    (kthen (rep_stosb (unat (EARLY_BSS_SIZE p)) (EARLY_BSS_START p) 0)
    (kthen (boot_tables p)
    (kthen (boot_paging p)
    (kthen (rep_stosb (unat (BSS_SIZE p)) (BSS_START p) 0)
    (kthen (kmodify clear_statics)
           (boot_call p)))))))"

section \<open>Filling a page table\<close>

text \<open>Before paging is on, an address is physical.\<close>

lemma flat_walk: "\<not> paging_on s \<Longrightarrow> mmu_walk s va = Some va"
  by (simp add: mmu_walk_def)

lemma flat_store32: "\<not> paging_on s \<Longrightarrow> store32 a v s = Inr ((), s\<lparr>mem := put32 (mem s) a v\<rparr>)"
  by (simp add: store32_def flat_walk put32_def eval_nat_numeral)

lemma flat_load32: "\<not> paging_on s \<Longrightarrow> load32 a s = Inr (get32 (mem s) a, s)"
  by (simp add: load32_def flat_walk get32_def eval_nat_numeral)

lemma paging_on_mem [simp]: "paging_on (s\<lparr>mem := m\<rparr>) = paging_on s"
  by (simp add: paging_on_def)

text \<open>An entry is stored and its permissions are or-ed in.\<close>

lemma flat_entry:
  assumes "\<not> paging_on s"
  shows "kthen (store32 a v) (kthen (or_dword a PAGE_PERM) k) s = k (s\<lparr>mem := put32 (mem s) a (v OR 3)\<rparr>)"
  using assms by (simp add: flat_store32 flat_load32 or_dword_def PAGE_PERM_def)

lemma flat_stosb:
  assumes "\<not> paging_on s"
  shows "rep_stosb n a v s = Inr ((), s\<lparr>mem := \<lambda>x. if x \<in> block a n then v else mem s x\<rparr>)"
  using assms
proof (induction n arbitrary: a s)
  case (Suc n)
  have "store8 a v s = Inr ((), s\<lparr>mem := (mem s)(a := v)\<rparr>)" using Suc.prems by (simp add: store8_def flat_walk)
  then show ?case
    using Suc.IH [of "s\<lparr>mem := (mem s)(a := v)\<rparr>" "a + 1"] Suc.prems by (simp add: block_Cons fun_eq_iff)
qed simp

text \<open>Both loops fill consecutive entries; \<open>off\<close> is what they subtract from the address.\<close>

primrec fill_loop :: "nat \<Rightarrow> u32 \<Rightarrow> u32 \<Rightarrow> u32 \<Rightarrow> u32 \<Rightarrow> ('a machine_scheme, unit) kernel" where
  "fill_loop 0 pt off limit eax = kstop Undefined"
| "fill_loop (Suc k) pt off limit eax =
     kthen (store32 (elem pt (table_index eax)) (eax - off))
    (kthen (or_dword (elem pt (table_index eax)) PAGE_PERM)
       (if sint (eax + PAGE_SIZE) < sint limit then fill_loop k pt off limit (eax + PAGE_SIZE) else kreturn ()))"

lemma page_index_elem: "pt + page_index eax * 4 = elem pt (table_index eax)"
  by (simp add: page_index_def table_index_drop elem_def mult.commute)

lemma lowmem_loop_fill: "lowmem_loop k p eax = fill_loop k (lowmem_pt p) 0 (LOWMEM_END p) eax"
  by (induction k arbitrary: eax) (simp_all add: page_index_elem Let_def)

lemma higher_loop_fill: "higher_loop k p eax = fill_loop k (kernel_pt p) KERNEL_BASE (KERNEL_END p) eax"
  by (induction k arbitrary: eax) (simp_all add: page_index_elem Let_def)

primrec page_fill :: "nat \<Rightarrow> u32 \<Rightarrow> u32 \<Rightarrow> u32 \<Rightarrow> (u32 \<Rightarrow> u8) \<Rightarrow> (u32 \<Rightarrow> u8)" where
  "page_fill 0 pt off eax m = m"
| "page_fill (Suc n) pt off eax m =
     page_fill n pt off (eax + PAGE_SIZE) (put32 m (elem pt (table_index eax)) ((eax - off) OR 3))"

lemma fill_loop_run:
  assumes "\<not> paging_on s" "0 < n" "n \<le> k"
    and "\<And>j. 0 < j \<Longrightarrow> j < n \<Longrightarrow> sint (eax + of_nat j * PAGE_SIZE) < sint limit"
    and "\<not> sint (eax + of_nat n * PAGE_SIZE) < sint limit"
  shows "fill_loop k pt off limit eax s = Inr ((), s\<lparr>mem := page_fill n pt off eax (mem s)\<rparr>)"
  using assms
proof (induction n arbitrary: k eax s)
  case (Suc n)
  obtain k' where k: "k = Suc k'" using Suc.prems(3) by (cases k) auto
  let ?s = "s\<lparr>mem := put32 (mem s) (elem pt (table_index eax)) ((eax - off) OR 3)\<rparr>"
  have on: "\<not> paging_on ?s" using Suc.prems(1) by simp
  have later: "eax + PAGE_SIZE + of_nat j * PAGE_SIZE = eax + of_nat (Suc j) * PAGE_SIZE" for j
    by (simp add: algebra_simps)
  show ?case
  proof (cases "n = 0")
    case True
    then show ?thesis using Suc.prems(1,5) by (simp add: k flat_entry)
  next
    case False
    have "fill_loop k' pt off limit (eax + PAGE_SIZE) ?s = Inr ((), ?s\<lparr>mem := page_fill n pt off (eax + PAGE_SIZE) (mem ?s)\<rparr>)"
      by (rule Suc.IH [OF on]) (use False Suc.prems(3,5) Suc.prems(4) [of "Suc j" for j] in \<open>simp_all add: k later del: of_nat_Suc\<close>)
    moreover have "sint (eax + PAGE_SIZE) < sint limit" using Suc.prems(4) [of 1] False by simp
    ultimately show ?thesis using Suc.prems(1) by (simp add: k flat_entry)
  qed
qed simp

lemma page_fill_other:
  assumes "page_aligned pt" "x \<notin> block pt 4096"
  shows "page_fill n pt off eax m x = m x"
proof (induction n arbitrary: eax m)
  case (Suc n)
  have "x \<notin> word_bytes (elem pt (table_index eax))" using elem_in_block [OF assms(1)] assms(2) by (auto simp del: index_less intro: index_less)
  then show ?case using Suc.IH by (simp add: put32_other)
qed simp

lemma page_fill_entry:
  assumes pt: "page_aligned pt" and eax: "page_aligned eax"
    and c: "c < 1023" "unat va div 4194304 = c" "c * 4194304 \<le> unat eax" "unat eax + 4096 * n \<le> Suc c * 4194304"
  shows "get32 (page_fill n pt off eax m) (elem pt (table_index va)) =
    (if unat eax \<le> unat va \<and> unat va < unat eax + 4096 * n then ((va AND 0xFFFFF000) - off) OR 3
     else get32 m (elem pt (table_index va)))"
  using eax c(3,4)
proof (induction n arbitrary: eax m)
  case (Suc n)
  let ?m = "put32 m (elem pt (table_index eax)) ((eax - off) OR 3)"
  have "Suc c * 4194304 < 4294967296" using c(1) by simp
  then have up: "unat (eax + PAGE_SIZE) = unat eax + 4096"
    using Suc.prems(3) unat_add_small [of eax 4096] by (simp add: PAGE_SIZE_def)
  have al: "page_aligned (eax + PAGE_SIZE)" using Suc.prems(1) up by (simp add: page_aligned_def)
  have dir: "unat eax div 4194304 = c" using Suc.prems(2,3) by (intro div_nat_eqI) simp_all
  have same: "table_index va = table_index eax \<longleftrightarrow> unat eax \<le> unat va \<and> unat va < unat eax + 4096"
  proof -
    have "dir_index va = dir_index eax" using c(2) dir by (simp add: word_unat_eq_iff unat_dir_index)
    then have "table_index va = table_index eax \<longleftrightarrow> unat va div 4096 = unat eax div 4096" using same_indices_iff [of va eax] by auto
    also have "\<dots> \<longleftrightarrow> va \<in> block eax 4096" by (rule in_page_iff [OF Suc.prems(1)])
    finally show ?thesis using mem_block_iff [OF page_block_fits [OF Suc.prems(1)]] by simp
  qed
  have frame: "va AND 0xFFFFF000 = eax" if "unat eax \<le> unat va" "unat va < unat eax + 4096"
  proof -
    have "va \<in> block eax 4096" using that mem_block_iff [OF page_block_fits [OF Suc.prems(1)]] by simp
    then have "unat va div 4096 = unat eax div 4096" by (rule in_page [OF Suc.prems(1)])
    then have "unat (va AND 0xFFFFF000) = unat (eax AND 0xFFFFF000)" by (simp add: unat_and_page_mask)
    then show ?thesis using page_aligned_mask [OF Suc.prems(1)] by (simp add: word_unat_eq_iff)
  qed
  have "get32 ?m (elem pt (table_index va)) =
      (if unat eax \<le> unat va \<and> unat va < unat eax + 4096 then ((va AND 0xFFFFF000) - off) OR 3
       else get32 m (elem pt (table_index va)))"
  proof (cases "table_index va = table_index eax")
    case True
    with frame show ?thesis unfolding same by (simp add: True)
  next
    case False
    then have "elem pt (table_index va) \<noteq> elem pt (table_index eax)"
      using unat_elem [OF pt index_less(2)] by (metis add_left_cancel mult_left_cancel word_unat_eq_iff zero_neq_numeral)
    moreover have "\<not> (unat eax \<le> unat va \<and> unat va < unat eax + 4096)" using False unfolding same .
    ultimately show ?thesis by (simp only: if_False get32_put32_other elem_aligned4 [OF pt] index_less)
  qed
  moreover have "c * 4194304 \<le> unat (eax + PAGE_SIZE)" "unat (eax + PAGE_SIZE) + 4096 * n \<le> Suc c * 4194304"
    using Suc.prems(2,3) up by simp_all
  note Suc.IH [OF al this, of ?m]
  ultimately show ?case by (auto simp: up)
qed auto

section \<open>Where the linker puts things\<close>

text \<open>
  The labels of \<^verbatim>\<open>boot.asm\<close> in its sections, which no other object contributes to: two words of data and three pages for
  the directory and the tables; the stack and the descriptor table lie in the kernel.
\<close>

definition linked :: "section_sizes \<Rightarrow> boot_program \<Rightarrow> bool" where
  "linked z p \<longleftrightarrow> (let k = link_script z in
     early_data_size z = 8 \<and> early_bss_size z = 0x3000
     \<and> EARLY_BSS_START p = of_nat (sym_EARLY_BSS_START k) \<and> EARLY_BSS_SIZE p = of_nat (sym_EARLY_BSS_SIZE k)
     \<and> EARLY_KERNEL_END p = of_nat (sym_EARLY_KERNEL_END k)
     \<and> BSS_START p = of_nat (sym_BSS_START k) \<and> BSS_SIZE p = of_nat (sym_BSS_SIZE k)
     \<and> KERNEL_START p = of_nat (sym_KERNEL_START k) \<and> KERNEL_END p = of_nat (sym_KERNEL_END k)
     \<and> EARLY_KMALLOC_START p = of_nat (sym_EARLY_KMALLOC_START k) \<and> EARLY_KMALLOC_END p = of_nat (sym_EARLY_KMALLOC_END k)
     \<and> page_directory p = EARLY_BSS_START p \<and> lowmem_pt p = page_directory p + 4096 \<and> kernel_pt p = page_directory p + 8192
     \<and> multiboot_magic p = of_nat (sym_EARLY_DATA_START k) \<and> multiboot_info p = multiboot_magic p + 4
     \<and> sym_BSS_START k \<le> unat (stack p) \<and> unat (stack p) + 16384 \<le> sym_BSS_START k + sym_BSS_SIZE k \<and> aligned4 (stack p)
     \<and> sym_KERNEL_START k \<le> unat (gdt_at p) \<and> unat (gdt_at p) + 40 \<le> sym_KERNEL_END k)"

text \<open>What the boot code needs: one page table reaches to the end of the kernel.\<close>

definition one_table :: "section_sizes \<Rightarrow> bool" where
  "one_table z \<longleftrightarrow> sym_KERNEL_END (link_script z) \<le> 0xC0400000"

lemma align_to_page: "a \<le> align_to 4096 a" "align_to 4096 a mod 4096 = 0" "align_to 4096 a < a + 4096"
proof -
  have "a + 4095 = (a + 4095) div 4096 * 4096 + (a + 4095) mod 4096" "(a + 4095) mod 4096 < 4096" by simp_all
  then show "a \<le> align_to 4096 a" "align_to 4096 a < a + 4096" unfolding align_to_def by linarith+
  show "align_to 4096 a mod 4096 = 0" by (simp add: align_to_def)
qed

text \<open>The facts the proofs use, on addresses read as natural numbers.\<close>

definition placed :: "boot_program \<Rightarrow> bool" where
  "placed p \<longleftrightarrow> page_aligned (page_directory p) \<and> 0x100000 \<le> unat (page_directory p)
     \<and> EARLY_BSS_START p = page_directory p \<and> EARLY_BSS_SIZE p = 0x3000
     \<and> lowmem_pt p = page_directory p + 4096 \<and> kernel_pt p = page_directory p + 8192
     \<and> unat (EARLY_KERNEL_END p) = unat (page_directory p) + 0x3000
     \<and> unat (KERNEL_START p) = 0xC0000000 + unat (EARLY_KERNEL_END p)
     \<and> aligned4 (multiboot_magic p) \<and> multiboot_info p = multiboot_magic p + 4
     \<and> 0x100000 \<le> unat (multiboot_magic p) \<and> unat (multiboot_magic p) + 8 \<le> unat (page_directory p)
     \<and> unat (KERNEL_START p) \<le> unat (BSS_START p) \<and> unat (BSS_START p) + unat (BSS_SIZE p) \<le> unat (EARLY_KMALLOC_START p)
     \<and> page_aligned (EARLY_KMALLOC_START p) \<and> unat (EARLY_KMALLOC_END p) = unat (EARLY_KMALLOC_START p) + 0x100000
     \<and> KERNEL_END p = EARLY_KMALLOC_END p \<and> unat (KERNEL_END p) \<le> 0xC0400000
     \<and> aligned4 (stack p) \<and> unat (BSS_START p) \<le> unat (stack p) \<and> unat (stack p) + 16384 \<le> unat (BSS_START p) + unat (BSS_SIZE p)
     \<and> unat (KERNEL_START p) \<le> unat (gdt_at p) \<and> unat (gdt_at p) + 40 \<le> unat (KERNEL_END p)"

lemma linked_placed:
  assumes "linked z p" "one_table z"
  shows "placed p"
proof -
  define et where "et = align_to 4096 (1048576 + header_size z)"
  define ed where "ed = align_to 4096 (et + early_text_size z)"
  define eb where "eb = align_to 4096 (ed + 8)"
  define tx where "tx = align_to 4096 (eb + 12288 + 3221225472)"
  define ro where "ro = align_to 4096 (tx + text_size z)"
  define da where "da = align_to 4096 (ro + rodata_size z)"
  define bs where "bs = align_to 4096 (da + data_size z)"
  define km where "km = align_to 4096 (bs + bss_size z)"
  note defs = et_def ed_def eb_def tx_def ro_def da_def bs_def km_def
  have ge: "1048576 \<le> et" "et \<le> ed" "ed + 8 \<le> eb" "eb + 12288 + 3221225472 \<le> tx" "tx \<le> ro" "ro \<le> da" "da \<le> bs" "bs + bss_size z \<le> km"
    using align_to_page(1) unfolding defs by (meson le_add1 le_trans)+
  have al: "ed mod 4096 = 0" "eb mod 4096 = 0" "bs mod 4096 = 0" "km mod 4096 = 0" using align_to_page(2) unfolding defs by blast+
  have sz: "early_data_size z = 8" "early_bss_size z = 12288" using assms(1) by (simp_all add: linked_def Let_def)
  have k: "sym_EARLY_BSS_START (link_script z) = eb" "sym_EARLY_BSS_SIZE (link_script z) = 12288"
    "sym_EARLY_KERNEL_END (link_script z) = eb + 12288" "sym_BSS_START (link_script z) = bs" "sym_BSS_SIZE (link_script z) = bss_size z"
    "sym_KERNEL_START (link_script z) = eb + 12288 + 3221225472" "sym_KERNEL_END (link_script z) = km + 1048576"
    "sym_EARLY_KMALLOC_START (link_script z) = km" "sym_EARLY_KMALLOC_END (link_script z) = km + 1048576"
    "sym_EARLY_DATA_START (link_script z) = ed"
    by (simp_all add: link_script_def Let_def sz defs)
  have top: "km + 1048576 \<le> 3225419776" using assms(2) by (simp add: one_table_def k)
  have p: "EARLY_BSS_START p = of_nat eb" "EARLY_BSS_SIZE p = 0x3000" "EARLY_KERNEL_END p = of_nat (eb + 12288)"
    "BSS_START p = of_nat bs" "BSS_SIZE p = of_nat (bss_size z)" "KERNEL_START p = of_nat (eb + 12288 + 3221225472)"
    "KERNEL_END p = of_nat (km + 1048576)" "EARLY_KMALLOC_START p = of_nat km" "EARLY_KMALLOC_END p = of_nat (km + 1048576)"
    "page_directory p = EARLY_BSS_START p" "lowmem_pt p = page_directory p + 4096" "kernel_pt p = page_directory p + 8192"
    "multiboot_magic p = of_nat ed" "multiboot_info p = multiboot_magic p + 4"
    "bs \<le> unat (stack p)" "unat (stack p) + 16384 \<le> bs + bss_size z" "aligned4 (stack p)"
    "eb + 12288 + 3221225472 \<le> unat (gdt_at p)" "unat (gdt_at p) + 40 \<le> km + 1048576"
    using assms(1) unfolding linked_def k Let_def by simp_all
  have u: "unat (EARLY_BSS_START p) = eb" "unat (EARLY_KERNEL_END p) = eb + 12288" "unat (BSS_START p) = bs" "unat (BSS_SIZE p) = bss_size z"
    "unat (KERNEL_START p) = eb + 12288 + 3221225472" "unat (KERNEL_END p) = km + 1048576" "unat (EARLY_KMALLOC_START p) = km"
    "unat (EARLY_KMALLOC_END p) = km + 1048576" "unat (multiboot_magic p) = ed"
    unfolding p by (subst unat_of_nat_u32; use ge top in linarith)+
  have "ed mod 4 = 0" using al(1) page_mod_4 [of ed] by simp
  then show ?thesis
    unfolding placed_def page_aligned_def aligned4_def using p u al ge top by (simp add: aligned4_def)
qed

section \<open>The boot page tables\<close>

lemma sint_signed:
  "sint (x :: u32) = (if unat x < 2147483648 then int (unat x) else int (unat x) - 4294967296)"
proof -
  have r: "- 2147483648 \<le> sint x" "sint x < 2147483648" using sint_greater_eq [of x] sint_lt [of x] by simp_all
  have "int (unat x) = sint x mod 4294967296" by (simp add: uint_sint take_bit_eq_mod)
  moreover have "sint x mod 4294967296 = (if 0 \<le> sint x then sint x else sint x + 4294967296)"
  proof (cases "0 \<le> sint x")
    case False
    have "sint x mod 4294967296 = (sint x + 4294967296) mod 4294967296" by simp
    also have "\<dots> = sint x + 4294967296" using r False by (intro mod_pos_pos_trivial) simp_all
    finally show ?thesis using False by simp
  qed (use r in simp)
  ultimately have "int (unat x) = (if 0 \<le> sint x then sint x else sint x + 4294967296)" by (rule trans)
  with r show ?thesis by presburger
qed

lemma sint_less: "unat (x :: u32) < unat (y :: u32) \<Longrightarrow> unat y < 2147483648 \<or> 2147483648 \<le> unat x \<Longrightarrow> sint x < sint y"
  using sint_signed [of x] sint_signed [of y] by presburger

text \<open>The rounds of a loop whose limit is a page boundary on the same side of the signed order.\<close>

lemma fill_rounds:
  assumes "\<not> paging_on s" "page_aligned eax" "page_aligned limit" "unat eax < unat limit"
    and "unat limit < 2147483648 \<or> 2147483648 \<le> unat eax"
  shows "fill_loop all_pages pt off limit eax s =
    Inr ((), s\<lparr>mem := page_fill ((unat limit - unat eax) div 4096) pt off eax (mem s)\<rparr>)"
proof (rule fill_loop_run [OF assms(1)])
  let ?n = "(unat limit - unat eax) div 4096"
  have "(unat limit - unat eax) mod 4096 = 0"
    using assms(2-4) unfolding page_aligned_def by (simp add: mod_eq_0_iff_dvd)
  then have n: "unat limit = unat eax + 4096 * ?n" using assms(4) mult_div_mod_eq [of 4096 "unat limit - unat eax"] by linarith
  have up: "unat (eax + of_nat j * PAGE_SIZE) = unat eax + 4096 * j" if "j \<le> ?n" for j
  proof -
    have lt: "unat eax + 4096 * j < 4294967296" using that n u32_less [of limit] by linarith
    then have "unat (of_nat j * PAGE_SIZE) = 4096 * j"
      using unat_of_nat_u32 [of "j * 4096"] by (simp add: PAGE_SIZE_def)
    then show ?thesis using lt by (subst unat_add_small) simp_all
  qed
  show "0 < ?n" using n assms(4) by (cases ?n) auto
  show "?n \<le> all_pages" using n u32_less [of limit] unfolding all_pages_def by linarith
  show "sint (eax + of_nat j * PAGE_SIZE) < sint limit" if "0 < j" "j < ?n" for j
  proof (rule sint_less)
    show "unat (eax + of_nat j * PAGE_SIZE) < unat limit" using n up [of j] that by linarith
    show "unat limit < 2147483648 \<or> 2147483648 \<le> unat (eax + of_nat j * PAGE_SIZE)" using up [of j] that assms(5) by linarith
  qed
  show "\<not> sint (eax + of_nat ?n * PAGE_SIZE) < sint limit"
    using n up [of ?n] by (simp add: sint_signed)
qed

text \<open>The memory that the boot code leaves: directory and tables.\<close>

definition table_mem :: "boot_program \<Rightarrow> (u32 \<Rightarrow> u8) \<Rightarrow> (u32 \<Rightarrow> u8)" where
  "table_mem p m =
     page_fill ((unat (KERNEL_END p) - unat (KERNEL_START p)) div 4096) (kernel_pt p) KERNEL_BASE (KERNEL_START p)
       (put32
          (page_fill (unat (EARLY_KERNEL_END p) div 4096) (lowmem_pt p) 0 0
             (put32 m (elem (page_directory p) 0) (lowmem_pt p OR 3)))
          (elem (page_directory p) 768) (kernel_pt p OR 3))"

lemma placedD:
  assumes "placed p"
  shows "page_aligned (page_directory p)" "0x100000 \<le> unat (page_directory p)" "EARLY_BSS_START p = page_directory p"
    "EARLY_BSS_SIZE p = 0x3000" "lowmem_pt p = page_directory p + 4096" "kernel_pt p = page_directory p + 8192"
    "unat (EARLY_KERNEL_END p) = unat (page_directory p) + 0x3000"
    "unat (KERNEL_START p) = 0xC0000000 + unat (EARLY_KERNEL_END p)"
    "aligned4 (multiboot_magic p)" "multiboot_info p = multiboot_magic p + 4"
    "0x100000 \<le> unat (multiboot_magic p)" "unat (multiboot_magic p) + 8 \<le> unat (page_directory p)"
    "unat (KERNEL_START p) \<le> unat (BSS_START p)"
    "unat (BSS_START p) + unat (BSS_SIZE p) \<le> unat (EARLY_KMALLOC_START p)" "page_aligned (EARLY_KMALLOC_START p)"
    "unat (EARLY_KMALLOC_END p) = unat (EARLY_KMALLOC_START p) + 0x100000" "KERNEL_END p = EARLY_KMALLOC_END p"
    "unat (KERNEL_END p) \<le> 0xC0400000" "aligned4 (stack p)" "unat (BSS_START p) \<le> unat (stack p)"
    "unat (stack p) + 16384 \<le> unat (BSS_START p) + unat (BSS_SIZE p)"
    "unat (KERNEL_START p) \<le> unat (gdt_at p)" "unat (gdt_at p) + 40 \<le> unat (KERNEL_END p)"
  using assms unfolding placed_def by - (elim conjE, assumption)+

lemma page_shift: "page_aligned b \<Longrightarrow> unat a = unat b + k \<Longrightarrow> k mod 4096 = 0 \<Longrightarrow> page_aligned a"
  by (auto simp: page_aligned_def mod_eq_0_iff_dvd intro: dvd_add)

lemma placed_pages:
  assumes "placed p"
  shows "page_aligned (page_directory p)" "page_aligned (lowmem_pt p)" "page_aligned (kernel_pt p)"
    "unat (lowmem_pt p) = unat (page_directory p) + 4096" "unat (kernel_pt p) = unat (page_directory p) + 8192"
    "page_aligned (EARLY_KERNEL_END p)" "page_aligned (KERNEL_START p)" "page_aligned (KERNEL_END p)"
    "unat (KERNEL_START p) < unat (KERNEL_END p)" "unat (page_directory p) < 4194304"
proof -
  note pd = placedD [OF assms]
  have ke: "unat (KERNEL_END p) = unat (EARLY_KMALLOC_END p)" using pd(17) by simp
  show small: "unat (page_directory p) < 4194304" and "unat (KERNEL_START p) < unat (KERNEL_END p)"
    using pd(7,8,13,14,16,18) ke by linarith+
  show u: "unat (lowmem_pt p) = unat (page_directory p) + 4096" "unat (kernel_pt p) = unat (page_directory p) + 8192"
    using small unat_add_small [of "page_directory p" 4096] unat_add_small [of "page_directory p" 8192] by (simp_all add: pd(5,6))
  show "page_aligned (page_directory p)" "page_aligned (lowmem_pt p)" "page_aligned (kernel_pt p)" "page_aligned (EARLY_KERNEL_END p)"
    by (rule page_shift [OF pd(1) pd(7)] page_shift [OF pd(1) u(1)] page_shift [OF pd(1) u(2)] pd(1), simp?)+
  then have "page_aligned (EARLY_KERNEL_END p)" by simp
  moreover have "unat (KERNEL_START p) = unat (EARLY_KERNEL_END p) + 0xC0000000" using pd(8) by simp
  ultimately show "page_aligned (KERNEL_START p)" by (rule page_shift) simp
  show "page_aligned (KERNEL_END p)" unfolding pd(17) by (rule page_shift [OF pd(15,16)]) simp
qed

lemma boot_tables_fill:
  fixes s :: "'a machine_scheme"
  assumes off: "\<not> paging_on s"
    and al: "page_aligned (EARLY_KERNEL_END p)" "page_aligned (KERNEL_START p)" "page_aligned (KERNEL_END p)"
    and rng: "0 < unat (EARLY_KERNEL_END p)" "unat (EARLY_KERNEL_END p) < 2147483648"
      "0xC0000000 \<le> unat (KERNEL_START p)" "unat (KERNEL_START p) < unat (KERNEL_END p)"
  shows "boot_tables p s = Inr ((), s\<lparr>mem := table_mem p (mem s)\<rparr>)"
proof -
  have z: "page_aligned 0" by (simp add: page_aligned_def)
  let ?m1 = "put32 (mem s) (page_directory p) (lowmem_pt p OR 3)"
  let ?m2 = "page_fill (unat (EARLY_KERNEL_END p) div 4096) (lowmem_pt p) 0 0 ?m1"
  let ?m3 = "put32 ?m2 (elem (page_directory p) 768) (kernel_pt p OR 3)"
  have low: "lowmem_loop all_pages p 0 (s\<lparr>mem := ?m1\<rparr>) = Inr ((), s\<lparr>mem := ?m2\<rparr>)"
    using fill_rounds [of "s\<lparr>mem := ?m1\<rparr>" 0 "EARLY_KERNEL_END p"] off al(1) rng(1,2) z
    by (simp add: lowmem_loop_fill LOWMEM_END_def)
  have high: "higher_loop all_pages p (KERNEL_START p) (s\<lparr>mem := ?m3\<rparr>) = Inr ((), s\<lparr>mem := table_mem p (mem s)\<rparr>)"
    using fill_rounds [of "s\<lparr>mem := ?m3\<rparr>" "KERNEL_START p" "KERNEL_END p"] off al(2,3) rng(3,4)
    by (simp add: higher_loop_fill table_mem_def elem_def [of _ 0])
  have dir: "page_directory p + drop_bit 22 KERNEL_BASE * 4 = elem (page_directory p) 768"
    by (simp add: KERNEL_BASE_def elem_def)
  show ?thesis
    unfolding boot_tables_def Let_def dir
    using off low high by (simp add: flat_entry)
qed

lemma boot_tables_run:
  fixes s :: "'a machine_scheme"
  assumes "placed p" "\<not> paging_on s"
  shows "boot_tables p s = Inr ((), s\<lparr>mem := table_mem p (mem s)\<rparr>)"
proof (rule boot_tables_fill [OF assms(2)])
  show "0 < unat (EARLY_KERNEL_END p)" "unat (EARLY_KERNEL_END p) < 2147483648" "0xC0000000 \<le> unat (KERNEL_START p)"
    using placedD(7,8) [OF assms(1)] placed_pages(10) [OF assms(1)] by linarith+
qed (use placed_pages [OF assms(1)] in simp_all)

lemma get32_page_fill_other:
  assumes "page_aligned pt" "page_aligned q" "q \<noteq> pt" "i < 1024"
  shows "get32 (page_fill n pt off eax m) (elem q i) = get32 m (elem q i)"
proof (rule get32_cong)
  fix x
  assume "x \<in> word_bytes (elem q i)"
  then have "x \<notin> block pt 4096"
    using elem_in_block [OF assms(2,4)] page_blocks_disjoint [OF assms(1,2)] assms(3) by blast
  then show "page_fill n pt off eax m x = m x" by (rule page_fill_other [OF assms(1)])
qed

lemma get32_put_elem:
  assumes "page_aligned pt" "page_aligned q" "i < 1024" "j < 1024"
  shows "get32 (put32 m (elem pt j) v) (elem q i) = (if pt = q \<and> j = i then v else get32 m (elem q i))"
  using elem_inject [OF assms(1,2,4,3)] elem_aligned4 [OF assms(1,4)] elem_aligned4 [OF assms(2,3)]
  by (auto simp: get32_put32_other)

text \<open>What the tables say, when the pages were zero before.\<close>

lemma boot_entries:
  assumes pl: "placed p" and zero: "\<And>x. x \<in> block (page_directory p) 0x3000 \<Longrightarrow> m x = 0"
  shows "i < 1024 \<Longrightarrow> get32 (table_mem p m) (elem (page_directory p) i) =
      (if i = 0 then lowmem_pt p OR 3 else if i = 768 then kernel_pt p OR 3 else 0)"
    "dir_index va = 0 \<Longrightarrow> get32 (table_mem p m) (elem (lowmem_pt p) (table_index va)) =
      (if unat va < unat (EARLY_KERNEL_END p) then (va AND 0xFFFFF000) OR 3 else 0)"
    "dir_index va = 768 \<Longrightarrow> get32 (table_mem p m) (elem (kernel_pt p) (table_index va)) =
      (if KERNEL_START p \<le> va \<and> va < KERNEL_END p then kphys (va AND 0xFFFFF000) OR 3 else 0)"
proof -
  note pg = placed_pages [OF pl] and pd = placedD [OF pl]
  have ne: "lowmem_pt p \<noteq> page_directory p" "kernel_pt p \<noteq> page_directory p" "kernel_pt p \<noteq> lowmem_pt p"
    using pg(4,5) by auto
  have fits: "unat (page_directory p) + 0x3000 \<le> 4294967296" using pg(10) by simp
  have z: "get32 m (elem q i) = 0" if q: "q = page_directory p \<or> q = lowmem_pt p \<or> q = kernel_pt p" and i: "i < 1024" for q i
  proof -
    have al: "page_aligned q" using q pg(1-3) by blast
    have "block q 4096 \<subseteq> block (page_directory p) 0x3000"
    proof
      fix x
      assume "x \<in> block q 4096"
      then show "x \<in> block (page_directory p) 0x3000"
        using q pg(4,5) mem_block_iff [OF page_block_fits [OF al], of x] mem_block_iff [OF fits, of x] by auto
    qed
    then have "m x = 0" if "x \<in> word_bytes (elem q i)" for x using that elem_in_block [OF al i] zero by blast
    then show ?thesis by (simp add: get32_def word_bytes_def le32_def)
  qed
  have z1: "page_aligned 0" by (simp add: page_aligned_def)
  have E: "4096 * (unat (EARLY_KERNEL_END p) div 4096) = unat (EARLY_KERNEL_END p)"
    using pg(6) by (simp add: page_aligned_def mult_div_mod_eq mod_eq_0_iff_dvd)
  have K: "unat (KERNEL_START p) + 4096 * ((unat (KERNEL_END p) - unat (KERNEL_START p)) div 4096) = unat (KERNEL_END p)"
  proof -
    have "(unat (KERNEL_END p) - unat (KERNEL_START p)) mod 4096 = 0"
      using pg(7-9) by (simp add: page_aligned_def mod_eq_0_iff_dvd)
    then show ?thesis using pg(9) mult_div_mod_eq [of 4096 "unat (KERNEL_END p) - unat (KERNEL_START p)"] by linarith
  qed
  show "get32 (table_mem p m) (elem (page_directory p) i) =
      (if i = 0 then lowmem_pt p OR 3 else if i = 768 then kernel_pt p OR 3 else 0)" if "i < 1024"
    unfolding table_mem_def
    using that pg ne z [of "page_directory p" i] by (simp add: get32_page_fill_other get32_put_elem)
  show "get32 (table_mem p m) (elem (lowmem_pt p) (table_index va)) =
      (if unat va < unat (EARLY_KERNEL_END p) then (va AND 0xFFFFF000) OR 3 else 0)" if "dir_index va = 0"
  proof -
    have dv: "unat va div 4194304 = 0" using that unat_dir_index [of va] by simp
    have e: "get32 (put32 m (elem (page_directory p) 0) v) (elem (lowmem_pt p) (table_index va)) = 0" for v
      using get32_put_elem [OF pg(1,2)] ne(1) z [of "lowmem_pt p"] by simp
    have lim: "unat (EARLY_KERNEL_END p) div 4096 \<le> 1024" using pd(8,18) pg(9) by linarith
    show ?thesis
      unfolding table_mem_def
      using pg(1-3) ne page_fill_entry [OF pg(2) z1, of 0 va "unat (EARLY_KERNEL_END p) div 4096" 0] dv E lim
        e
      by (simp add: get32_page_fill_other get32_put_elem del: mult_div_mod_eq)
  qed
  show "get32 (table_mem p m) (elem (kernel_pt p) (table_index va)) =
      (if KERNEL_START p \<le> va \<and> va < KERNEL_END p then kphys (va AND 0xFFFFF000) OR 3 else 0)" if "dir_index va = 768"
  proof -
    have dv: "unat va div 4194304 = 768" using that unat_dir_index [of va] by simp
    have e: "get32 (put32 (page_fill n (lowmem_pt p) 0 0 (put32 m (elem (page_directory p) 0) v)) (elem (page_directory p) 768) w)
        (elem (kernel_pt p) (table_index va)) = 0" for n v w
      using get32_put_elem [OF pg(1,3)] get32_page_fill_other [OF pg(2,3) ne(3)] ne(2) z [of "kernel_pt p"] by simp
    have "768 * 4194304 \<le> unat (KERNEL_START p)" "unat (KERNEL_END p) \<le> Suc 768 * 4194304" using pd(8,18) by simp_all
    then show ?thesis
      unfolding table_mem_def
      using page_fill_entry [OF pg(3,7), of 768 va "(unat (KERNEL_END p) - unat (KERNEL_START p)) div 4096" KERNEL_BASE] dv K
        e
      by (simp add: kphys_def KERNEL_BASE_def word_le_nat_alt word_less_nat_alt)
  qed
qed

section \<open>The boot address space\<close>

definition boot_space :: "boot_program \<Rightarrow> 'a machine_scheme \<Rightarrow> bool" where
  "boot_space p t \<longleftrightarrow> paging_on t \<and> cr3 t = page_directory p
     \<and> (\<forall>i<1024. get32 (mem t) (elem (page_directory p) i) =
          (if i = 0 then lowmem_pt p OR 3 else if i = 768 then kernel_pt p OR 3 else 0))
     \<and> (\<forall>va. dir_index va = 0 \<longrightarrow> get32 (mem t) (elem (lowmem_pt p) (table_index va)) =
          (if unat va < unat (EARLY_KERNEL_END p) then (va AND 0xFFFFF000) OR 3 else 0))
     \<and> (\<forall>va. dir_index va = 768 \<longrightarrow> get32 (mem t) (elem (kernel_pt p) (table_index va)) =
          (if KERNEL_START p \<le> va \<and> va < KERNEL_END p then kphys (va AND 0xFFFFF000) OR 3 else 0))"

lemma table_blocks:
  assumes "placed p" "q = page_directory p \<or> q = lowmem_pt p \<or> q = kernel_pt p"
  shows "block q 4096 \<subseteq> block (page_directory p) 0x3000" "page_aligned q"
proof -
  note pg = placed_pages [OF assms(1)]
  show al: "page_aligned q" using assms(2) pg(1-3) by blast
  show "block q 4096 \<subseteq> block (page_directory p) 0x3000"
  proof
    fix x
    assume "x \<in> block q 4096"
    then show "x \<in> block (page_directory p) 0x3000"
      using assms(2) pg(4,5,10) mem_block_iff [OF page_block_fits [OF al], of x] mem_block_iff [of "page_directory p" "0x3000" x] by auto
  qed
qed

lemma boot_space_frame:
  assumes "placed p" "boot_space p t" "cr0 t' = cr0 t" "cr3 t' = cr3 t"
    and same: "\<And>x. x \<in> block (page_directory p) 0x3000 \<Longrightarrow> mem t' x = mem t x"
  shows "boot_space p t'"
proof -
  have "get32 (mem t') (elem q i) = get32 (mem t) (elem q i)"
    if "q = page_directory p \<or> q = lowmem_pt p \<or> q = kernel_pt p" "i < 1024" for q i
    by (rule get32_cong) (use same elem_in_block [OF table_blocks(2) [OF assms(1) that(1)] that(2)] table_blocks(1) [OF assms(1) that(1)] in blast)
  then show ?thesis using assms(2-4) by (simp add: boot_space_def paging_on_def)
qed

lemma dir_ranges:
  assumes "placed p"
  shows "unat va < unat (EARLY_KERNEL_END p) \<Longrightarrow> dir_index va = 0"
    "KERNEL_START p \<le> va \<Longrightarrow> va < KERNEL_END p \<Longrightarrow> dir_index va = 768"
    "unat (EARLY_KERNEL_END p) < 4194304"
proof -
  note pd = placedD [OF assms] and pg = placed_pages [OF assms]
  show E: "unat (EARLY_KERNEL_END p) < 4194304" using pd(8,18) pg(9) by linarith
  show "dir_index va = 0" if "unat va < unat (EARLY_KERNEL_END p)"
    using that E by (simp add: word_unat_eq_iff unat_dir_index)
  show "dir_index va = 768" if "KERNEL_START p \<le> va" "va < KERNEL_END p"
  proof -
    have "unat va div 4194304 = 768"
      using that pd(8,18) by (intro div_nat_eqI) (simp_all add: word_le_nat_alt word_less_nat_alt)
    then show ?thesis by (simp add: word_unat_eq_iff unat_dir_index)
  qed
qed

lemma kernel_frame:
  assumes "0xC0000000 \<le> va"
  shows "page_aligned (kphys (va AND 0xFFFFF000))" "kphys (va AND 0xFFFFF000) + (va AND 0xFFF) = kphys va"
proof -
  have "0xC0000000 \<le> va AND 0xFFFFF000"
    using assms unfolding word_le_nat_alt unat_and_page_mask by (simp add: div_le_mono less_eq_div_iff_mult_less_eq)
  then show "page_aligned (kphys (va AND 0xFFFFF000))" using kphys_page_aligned page_aligned_masked by blast
  show "kphys (va AND 0xFFFFF000) + (va AND 0xFFF) = kphys va" using va_split [of va] by (simp flip: kphys_plus)
qed

lemma boot_walk:
  assumes pl: "placed p" and sp: "boot_space p t"
  shows "mmu_walk t va =
    (if unat va < unat (EARLY_KERNEL_END p) then Some va
     else if KERNEL_START p \<le> va \<and> va < KERNEL_END p then Some (kphys va) else None)"
    "walk_reads t va \<subseteq> block (page_directory p) 0x3000"
proof -
  note pg = placed_pages [OF pl]
  let ?e = "get32 (mem t) (elem (page_directory p) (dir_index va))"
  have on: "paging_on t" and pde: "get32 (mem t) (pde_addr (cr3 t) va) = ?e"
    using sp by (simp_all add: boot_space_def pde_addr_elem pg(1))
  have ent: "?e = (if dir_index va = 0 then lowmem_pt p OR 3 else if dir_index va = 768 then kernel_pt p OR 3 else 0)"
    using sp by (simp add: boot_space_def)
  have low: "pte_addr ?e va = elem (lowmem_pt p) (table_index va)" "?e AND 1 \<noteq> 0" if "dir_index va = 0"
    using that ent or_3_present by (simp_all add: pte_addr_elem masked_or_3 pg(2))
  have high: "pte_addr ?e va = elem (kernel_pt p) (table_index va)" "?e AND 1 \<noteq> 0" if "dir_index va = 768"
    using that ent or_3_present by (simp_all add: pte_addr_elem masked_or_3 pg(3))
  have none: "?e AND 1 = 0" if "dir_index va \<noteq> 0" "dir_index va \<noteq> 768" using that ent by simp
  show "mmu_walk t va = (if unat va < unat (EARLY_KERNEL_END p) then Some va
     else if KERNEL_START p \<le> va \<and> va < KERNEL_END p then Some (kphys va) else None)"
  proof (cases "dir_index va = 0 \<or> dir_index va = 768")
    case False
    then have "\<not> unat va < unat (EARLY_KERNEL_END p)" "\<not> (KERNEL_START p \<le> va \<and> va < KERNEL_END p)"
      using dir_ranges(1,2) [OF pl] by blast+
    with False show ?thesis using on pde none by (simp add: mmu_walk_def)
  next
    case True
    then show ?thesis
    proof
      assume d: "dir_index va = 0"
      then have "\<not> (KERNEL_START p \<le> va \<and> va < KERNEL_END p)" using dir_ranges(2) [OF pl] by fastforce
      moreover have "get32 (mem t) (elem (lowmem_pt p) (table_index va)) =
          (if unat va < unat (EARLY_KERNEL_END p) then (va AND 0xFFFFF000) OR 3 else 0)" using sp d by (simp add: boot_space_def)
      ultimately show ?thesis
        using on pde low [OF d] entry_walk [OF page_aligned_masked] va_split by (auto simp: mmu_walk_def)
    next
      assume d: "dir_index va = 768"
      then have "768 * 4194304 \<le> unat va" using unat_dir_index [of va] by simp
      then have hi: "0xC0000000 \<le> va" by (simp add: word_le_nat_alt)
      from d have "\<not> unat va < unat (EARLY_KERNEL_END p)" using dir_ranges(1) [OF pl] by fastforce
      moreover have "get32 (mem t) (elem (kernel_pt p) (table_index va)) =
          (if KERNEL_START p \<le> va \<and> va < KERNEL_END p then kphys (va AND 0xFFFFF000) OR 3 else 0)" using sp d by (simp add: boot_space_def)
      ultimately show ?thesis
        using on pde high [OF d] entry_walk [OF kernel_frame(1), of va] kernel_frame(2) [of va] hi by (simp add: mmu_walk_def)
    qed
  qed
  have "word_bytes (elem q i) \<subseteq> block (page_directory p) 0x3000"
    if "q = page_directory p \<or> q = lowmem_pt p \<or> q = kernel_pt p" "i < 1024" for q i
    using elem_in_block [OF table_blocks(2) [OF pl that(1)] that(2)] table_blocks(1) [OF pl that(1)] by blast
  then show "walk_reads t va \<subseteq> block (page_directory p) 0x3000"
    using on pde low high none sp pg(1) by (auto simp: walk_reads_def boot_space_def pde_addr_elem)
qed

section \<open>Entering the kernel\<close>

definition kernel_range :: "boot_program \<Rightarrow> u32 set" where
  "kernel_range p = {a. KERNEL_START p \<le> a \<and> a < KERNEL_END p}"

lemma kernel_phys:
  assumes "placed p" "a \<in> kernel_range p"
  shows "unat (kphys a) = unat a - 0xC0000000" "unat (page_directory p) + 0x3000 \<le> unat (kphys a)" "0xC0000000 \<le> unat a"
    "unat (kphys a) < 0x400000"
proof -
  have "unat (KERNEL_START p) = 0xC0000000 + (unat (page_directory p) + 0x3000)" "unat (KERNEL_END p) \<le> 0xC0400000"
    "unat (KERNEL_START p) \<le> unat a" "unat a < unat (KERNEL_END p)"
    using placedD(7,8,18) [OF assms(1)] assms(2) by (simp_all add: kernel_range_def word_le_nat_alt word_less_nat_alt)
  moreover from this(1,3) show "0xC0000000 \<le> unat a" by linarith
  moreover from this show "unat (kphys a) = unat a - 0xC0000000"
    by (simp add: kphys_def unat_sub_le word_le_nat_alt)
  ultimately show "unat (page_directory p) + 0x3000 \<le> unat (kphys a)" "unat (kphys a) < 0x400000" by linarith+
qed

lemma kernel_apart:
  assumes "placed p" "a \<in> kernel_range p"
  shows "kphys a \<notin> block (page_directory p) 0x3000"
  using kernel_phys(2) [OF assms] placed_pages(10) [OF assms(1)] mem_block_iff [of "page_directory p" "0x3000" "kphys a"] by simp

lemma boot_mapped_kernel:
  assumes "placed p" "boot_space p t"
  shows "mapped (kernel_range p) kphys t"
proof -
  have "mmu_walk t va = Some (kphys va) \<and> walk_reads t va \<inter> kphys ` kernel_range p = {}" if "va \<in> kernel_range p" for va
  proof -
    have "\<not> unat va < unat (EARLY_KERNEL_END p)"
      using that placedD(8) [OF assms(1)] by (auto simp: kernel_range_def word_le_nat_alt)
    with that boot_walk [OF assms, of va] kernel_apart [OF assms(1)] show ?thesis by (auto simp: kernel_range_def)
  qed
  then show ?thesis by (auto simp: mapped_def inj_on_def)
qed

text \<open>\<open>rep stosb\<close> on mapped memory.\<close>

lemma mapped_stosb:
  assumes "mapped D tr s" "block a n \<subseteq> D" "n \<le> 4294967296"
  shows "rep_stosb n a v s = Inr ((), s\<lparr>mem := \<lambda>x. if x \<in> tr ` block a n then v else mem s x\<rparr>)"
  using assms
proof (induction n arbitrary: a s)
  case (Suc n)
  have a: "a \<in> D" "block (a + 1) n \<subseteq> D" using Suc.prems(2) by (auto simp: block_Cons)
  let ?s = "s\<lparr>mem := (mem s)(tr a := v)\<rparr>"
  have "store8 a v s = Inr ((), ?s)" using Suc.prems(1) a(1) by (simp add: store8_def mapped_def)
  moreover have "mapped D tr ?s" by (rule mapped_frame [OF Suc.prems(1)]) (use a(1) in auto)
  ultimately show ?case using Suc.IH [OF _ a(2), of ?s] Suc.prems(3) by (auto simp: block_Cons fun_eq_iff)
qed simp

lemma kernel_store:
  assumes "placed p" "boot_space p t" "a \<in> kernel_range p" "aligned4 a"
  shows "store32 a v t = Inr ((), t\<lparr>mem := put32 (mem t) (kphys a) v\<rparr>)" "boot_space p (t\<lparr>mem := put32 (mem t) (kphys a) v\<rparr>)"
    "aligned4 (kphys a)" "load32 a t = Inr (get32 (mem t) (kphys a), t)"
proof -
  have w: "mmu_walk t a = Some (kphys a)" using boot_mapped_kernel [OF assms(1,2)] assms(3) by (simp add: mapped_def)
  show "store32 a v t = Inr ((), t\<lparr>mem := put32 (mem t) (kphys a) v\<rparr>)" by (rule store32_walk [OF w assms(4)])
  show "load32 a t = Inr (get32 (mem t) (kphys a), t)" by (rule load32_walk [OF w assms(4)])
  have ph: "unat (kphys a) = unat a - 0xC0000000" "unat (page_directory p) + 0x3000 \<le> unat (kphys a)" "0xC0000000 \<le> unat a"
    using kernel_phys [OF assms(1,3)] by blast+
  have "(unat a - 0xC0000000) mod 4 = 0" using assms(4) ph(3) by (simp add: aligned4_def mod_eq_0_iff_dvd)
  then show al: "aligned4 (kphys a)" by (simp add: aligned4_def ph(1))
  show "boot_space p (t\<lparr>mem := put32 (mem t) (kphys a) v\<rparr>)"
  proof (rule boot_space_frame [OF assms(1,2)])
    fix x
    assume "x \<in> block (page_directory p) 0x3000"
    then have "unat x < unat (kphys a)"
      using ph(2) placed_pages(10) [OF assms(1)] mem_block_iff [of "page_directory p" "0x3000" x] by simp
    moreover have "unat (kphys a) \<le> unat y" if "y \<in> word_bytes (kphys a)" for y
      using that aligned4_plus [OF al, of 1] aligned4_plus [OF al, of 2] aligned4_plus [OF al, of 3] by (auto simp: word_bytes_def)
    ultimately have "x \<notin> word_bytes (kphys a)" by (meson leD)
    then show "mem (t\<lparr>mem := put32 (mem t) (kphys a) v\<rparr>) x = mem t x" by (simp add: put32_other)
  qed simp_all
qed

lemma low_load:
  assumes "placed p" "boot_space p t" "unat a < unat (EARLY_KERNEL_END p)" "aligned4 a"
  shows "load32 a t = Inr (get32 (mem t) a, t)"
  using boot_walk(1) [OF assms(1,2), of a] assms(3,4) by (intro load32_walk) simp_all

text \<open>The three words pushed on the new stack.\<close>

lemma pushed_word:
  assumes "placed p" "k \<in> {4, 8, 12}"
  shows "stack p + STACK_SIZE - k \<in> kernel_range p" "aligned4 (stack p + STACK_SIZE - k)"
    "word_bytes (kphys (stack p + STACK_SIZE - k)) \<subseteq> kphys ` block (BSS_START p) (unat (BSS_SIZE p))"
    "unat (stack p + STACK_SIZE - k) = unat (stack p) + 16384 - unat k"
proof -
  note pd = placedD [OF assms(1)]
  have ke: "unat (KERNEL_END p) = unat (EARLY_KMALLOC_START p) + 0x100000" using pd(16,17) by simp
  have S: "STACK_SIZE = 16384" by (simp add: STACK_SIZE_def PAGE_SIZE_def)
  have k: "unat k = 4 \<or> unat k = 8 \<or> unat k = 12" using assms(2) by auto
  have "unat (stack p) + 16384 < 4294967296" using pd(14,18,21) ke by linarith
  then have u: "unat (stack p + STACK_SIZE) = unat (stack p) + 16384" using unat_add_small [of "stack p" 16384] by (simp add: S)
  then show e: "unat (stack p + STACK_SIZE - k) = unat (stack p) + 16384 - unat k"
    using k by (subst unat_sub_le) (auto simp: word_le_nat_alt)
  show al: "aligned4 (stack p + STACK_SIZE - k)"
    using pd(19) k unfolding aligned4_def e by (auto simp: mod_eq_0_iff_dvd)
  show "stack p + STACK_SIZE - k \<in> kernel_range p"
    using e k pd(13,14,20,21) ke by (auto simp: kernel_range_def word_le_nat_alt word_less_nat_alt)
  have "word_bytes (stack p + STACK_SIZE - k) \<subseteq> block (BSS_START p) (unat (BSS_SIZE p))"
  proof
    fix x
    assume "x \<in> word_bytes (stack p + STACK_SIZE - k)"
    then have "unat (stack p) \<le> unat x \<and> unat x < unat (stack p) + 16384"
      using aligned4_plus [OF al, of 1] aligned4_plus [OF al, of 2] aligned4_plus [OF al, of 3] e k by (auto simp: word_bytes_def)
    then show "x \<in> block (BSS_START p) (unat (BSS_SIZE p))"
      using pd(14,18,20,21) ke mem_block_iff [of "BSS_START p" "unat (BSS_SIZE p)" x] by simp
  qed
  then show "word_bytes (kphys (stack p + STACK_SIZE - k)) \<subseteq> kphys ` block (BSS_START p) (unat (BSS_SIZE p))"
    by (simp add: kphys_word_bytes image_mono)
qed

lemma boot_words:
  assumes "placed p"
  shows "aligned4 (multiboot_magic p)" "aligned4 (multiboot_info p)" "multiboot_info p \<noteq> multiboot_magic p"
    "unat (multiboot_info p) = unat (multiboot_magic p) + 4" "unat (multiboot_info p) + 4 \<le> unat (page_directory p)"
    "unat (multiboot_magic p) < unat (EARLY_KERNEL_END p)" "unat (multiboot_info p) < unat (EARLY_KERNEL_END p)"
proof -
  note pd = placedD [OF assms]
  show al: "aligned4 (multiboot_magic p)" by (rule pd(9))
  show u: "unat (multiboot_info p) = unat (multiboot_magic p) + 4"
    using pd(7,12) dir_ranges(3) [OF assms] unat_add_small [of "multiboot_magic p" 4] by (simp add: pd(10))
  then show "aligned4 (multiboot_info p)" using al by (simp add: aligned4_def)
  from u show "multiboot_info p \<noteq> multiboot_magic p" by auto
  show "unat (multiboot_info p) + 4 \<le> unat (page_directory p)" using u pd(12) by simp
  with u show "unat (multiboot_magic p) < unat (EARLY_KERNEL_END p)" "unat (multiboot_info p) < unat (EARLY_KERNEL_END p)"
    using pd(7) by simp_all
qed

lemma boot_call_run:
  fixes t :: "'a kernel_st_scheme"
  assumes pl: "placed p" and sp: "boot_space p t"
    and args: "get32 (mem t) (multiboot_magic p) = eax" "get32 (mem t) (multiboot_info p) = ebx"
  shows "\<exists>m. boot_call p t = kmain (program.truncate p) ebx (t\<lparr>mem := m\<rparr>) \<and> boot_space p (t\<lparr>mem := m\<rparr>)
    \<and> (\<forall>x. x \<notin> kphys ` block (BSS_START p) (unat (BSS_SIZE p)) \<longrightarrow> m x = mem t x)"
proof -
  note bw = boot_words [OF pl]
  let ?e = "stack p + STACK_SIZE"
  let ?m1 = "put32 (mem t) (kphys (?e - 4)) eax"
  let ?m2 = "put32 ?m1 (kphys (?e - 8)) ebx"
  let ?m3 = "put32 ?m2 (kphys (?e - 12)) (return_to p)"
  note p4 = pushed_word [OF pl, of 4] and p8 = pushed_word [OF pl, of 8] and p12 = pushed_word [OF pl, of 12]
  have s1: "store32 (?e - 4) eax t = Inr ((), t\<lparr>mem := ?m1\<rparr>)" "boot_space p (t\<lparr>mem := ?m1\<rparr>)" "aligned4 (kphys (?e - 4))"
    using kernel_store [OF pl sp p4(1,2)] by simp_all
  have s2: "store32 (?e - 8) ebx (t\<lparr>mem := ?m1\<rparr>) = Inr ((), t\<lparr>mem := ?m2\<rparr>)" "boot_space p (t\<lparr>mem := ?m2\<rparr>)" "aligned4 (kphys (?e - 8))"
    using kernel_store [OF pl s1(2) p8(1,2)] by simp_all
  have s3: "store32 (?e - 12) (return_to p) (t\<lparr>mem := ?m2\<rparr>) = Inr ((), t\<lparr>mem := ?m3\<rparr>)" "boot_space p (t\<lparr>mem := ?m3\<rparr>)" "aligned4 (kphys (?e - 12))"
    using kernel_store [OF pl s2(2) p12(1,2)] by simp_all
  have "kphys (?e - 4) \<noteq> multiboot_info p"
    using kernel_phys(2) [OF pl p4(1)] bw(5) by auto
  then have info: "get32 ?m1 (multiboot_info p) = ebx" using args(2) s1(3) bw(2) by (simp add: get32_put32_other)
  have l1: "load32 (multiboot_magic p) t = Inr (eax, t)" using low_load [OF pl sp bw(6,1)] args(1) by simp
  have l2: "load32 (multiboot_info p) (t\<lparr>mem := ?m1\<rparr>) = Inr (ebx, t\<lparr>mem := ?m1\<rparr>)"
    using low_load [OF pl s1(2) bw(7,2)] info by simp
  have ne: "kphys (?e - 12) \<noteq> kphys (?e - 8)" by simp
  have l3: "load32 (?e - 8) (t\<lparr>mem := ?m3\<rparr>) = Inr (ebx, t\<lparr>mem := ?m3\<rparr>)"
    using kernel_store(4) [OF pl s3(2) p8(1,2)] get32_put32_other [OF s3(3) s2(3) ne] by simp
  have "boot_call p t = kmain (program.truncate p) ebx (t\<lparr>mem := ?m3\<rparr>)"
    by (simp add: boot_call_def Let_def l1 s1(1) l2 s2(1) s3(1) l3)
  moreover have "?m3 x = mem t x" if "x \<notin> kphys ` block (BSS_START p) (unat (BSS_SIZE p))" for x
  proof -
    have "x \<notin> word_bytes (kphys (?e - 4))" "x \<notin> word_bytes (kphys (?e - 8))" "x \<notin> word_bytes (kphys (?e - 12))"
      using that p4(3) p8(3) p12(3) by auto
    then show ?thesis by (simp add: put32_other)
  qed
  ultimately show ?thesis using s3(2) by blast
qed

text \<open>All memory that \<open>_start\<close> writes before it calls \<open>kmain\<close>.\<close>

definition boot_writes :: "boot_program \<Rightarrow> u32 set" where
  "boot_writes p = block (multiboot_magic p) 8 \<union> block (page_directory p) 0x3000
     \<union> kphys ` block (BSS_START p) (unat (BSS_SIZE p))"

lemma table_mem_other:
  assumes "placed p" "x \<notin> block (page_directory p) 0x3000"
  shows "table_mem p m x = m x"
proof -
  note pg = placed_pages [OF assms(1)]
  have out: "x \<notin> block (page_directory p) 4096" "x \<notin> block (lowmem_pt p) 4096" "x \<notin> block (kernel_pt p) 4096"
    using table_blocks(1) [OF assms(1)] assms(2) by blast+
  have "x \<notin> word_bytes (elem (page_directory p) i)" if "i < 1024" for i using elem_in_block [OF pg(1) that] out(1) by blast
  then show ?thesis using out pg(2,3) by (simp add: table_mem_def page_fill_other put32_other)
qed

lemma bss_in_kernel:
  assumes "placed p"
  shows "block (BSS_START p) (unat (BSS_SIZE p)) \<subseteq> kernel_range p"
proof
  note pd = placedD [OF assms]
  have ke: "unat (KERNEL_END p) = unat (EARLY_KMALLOC_START p) + 0x100000" using pd(16,17) by simp
  fix x
  assume "x \<in> block (BSS_START p) (unat (BSS_SIZE p))"
  then show "x \<in> kernel_range p"
    using pd(13,14,18) ke mem_block_iff [of "BSS_START p" "unat (BSS_SIZE p)" x]
    by (simp add: kernel_range_def word_le_nat_alt word_less_nat_alt)
qed

lemma start_run:
  fixes s :: "'a kernel_st_scheme"
  assumes pl: "placed p" and off: "\<not> paging_on s"
  defines "u \<equiv> clear_statics (s\<lparr>cr3 := page_directory p, cr0 := cr0 s OR 0x80000000\<rparr>)"
  shows "\<exists>m. start p eax ebx s = kmain (program.truncate p) ebx (u\<lparr>mem := m\<rparr>) \<and> boot_space p (u\<lparr>mem := m\<rparr>)
    \<and> (\<forall>x. x \<notin> boot_writes p \<longrightarrow> m x = mem s x)"
proof -
  note pg = placed_pages [OF pl] and pd = placedD [OF pl] and bw = boot_words [OF pl]
  let ?m1 = "put32 (put32 (mem s) (multiboot_magic p) eax) (multiboot_info p) ebx"
  let ?m2 = "\<lambda>x. if x \<in> block (page_directory p) 0x3000 then 0 else ?m1 x"
  let ?m3 = "table_mem p ?m2"
  let ?B = "kphys ` block (BSS_START p) (unat (BSS_SIZE p))"
  let ?m4 = "\<lambda>x. if x \<in> ?B then 0 else ?m3 x"
  let ?v = "s\<lparr>cr3 := page_directory p, cr0 := cr0 s OR 0x80000000\<rparr>"
  have sz: "unat (EARLY_BSS_SIZE p) = 0x3000" by (simp add: pd(4))
  have fits: "unat (page_directory p) + 0x3000 \<le> 4294967296" using pg(10) by simp
  have sp3: "boot_space p (s\<lparr>mem := ?m3, cr3 := page_directory p, cr0 := cr0 s OR 0x80000000\<rparr>)"
    using boot_entries [OF pl, of ?m2] paging_bit by (simp add: boot_space_def paging_on_def)
  have "rep_stosb (unat (BSS_SIZE p)) (BSS_START p) 0 (s\<lparr>mem := ?m3, cr3 := page_directory p, cr0 := cr0 s OR 0x80000000\<rparr>)
      = Inr ((), ?v\<lparr>mem := ?m4\<rparr>)"
    using mapped_stosb [OF boot_mapped_kernel [OF pl sp3] bss_in_kernel [OF pl]] u32_less [of "BSS_SIZE p"]
    by (simp cong: if_cong)
  then have run: "start p eax ebx s = boot_call p (clear_statics (?v\<lparr>mem := ?m4\<rparr>))"
    using off boot_tables_run [OF pl, of "s\<lparr>mem := ?m2\<rparr>"]
    by (simp add: start_def flat_store32 flat_stosb sz pd(3) boot_paging_def cong: if_cong)
  have cs: "clear_statics (?v\<lparr>mem := ?m4\<rparr>) = u\<lparr>mem := ?m4\<rparr>" by (simp add: u_def clear_statics_def)
  have apart: "x \<notin> ?B" if "unat x < unat (page_directory p) + 0x3000" for x
    using that kernel_phys(2) [OF pl] bss_in_kernel [OF pl] by (force dest: subsetD)
  have sp4: "boot_space p (u\<lparr>mem := ?m4\<rparr>)"
  proof (rule boot_space_frame [OF pl sp3])
    show "mem (u\<lparr>mem := ?m4\<rparr>) x = mem (s\<lparr>mem := ?m3, cr3 := page_directory p, cr0 := cr0 s OR 0x80000000\<rparr>) x"
      if "x \<in> block (page_directory p) 0x3000" for x
      using that apart [of x] mem_block_iff [OF fits, of x] by simp
  qed (simp_all add: u_def clear_statics_def)
  have keep: "get32 ?m4 a = get32 ?m1 a" if "aligned4 a" "unat a + 4 \<le> unat (page_directory p)" for a
  proof (rule get32_cong)
    fix x
    assume "x \<in> word_bytes a"
    then have "unat x < unat (page_directory p)"
      using that aligned4_plus [OF that(1), of 1] aligned4_plus [OF that(1), of 2] aligned4_plus [OF that(1), of 3] by (auto simp: word_bytes_def)
    then show "?m4 x = ?m1 x"
      using apart [of x] table_mem_other [OF pl, of x ?m2] mem_block_iff [OF fits, of x] by simp
  qed
  have "get32 ?m4 (multiboot_magic p) = eax" "get32 ?m4 (multiboot_info p) = ebx"
    using keep [OF bw(1)] keep [OF bw(2)] bw(4,5) get32_put32_other [OF bw(2,1) bw(3)] by simp_all
  from boot_call_run [OF pl sp4, of eax ebx] this obtain m where
    m: "boot_call p (u\<lparr>mem := ?m4\<rparr>) = kmain (program.truncate p) ebx (u\<lparr>mem := m\<rparr>)" "boot_space p (u\<lparr>mem := m\<rparr>)"
      "\<forall>x. x \<notin> ?B \<longrightarrow> m x = ?m4 x"
    by auto
  have "m x = mem s x" if "x \<notin> boot_writes p" for x
  proof -
    have "word_bytes (multiboot_magic p) \<union> word_bytes (multiboot_info p) \<subseteq> block (multiboot_magic p) 8"
      using sub_block [of 0 4 8 "multiboot_magic p"] sub_block [of 4 4 8 "multiboot_magic p"] by (simp add: word_bytes_block pd(10))
    then have "x \<notin> word_bytes (multiboot_magic p)" "x \<notin> word_bytes (multiboot_info p)" "x \<notin> ?B" "x \<notin> block (page_directory p) 0x3000"
      using that by (auto simp: boot_writes_def)
    then show ?thesis using m(3) table_mem_other [OF pl, of x ?m2] by (simp add: put32_other)
  qed
  with run cs m(1,2) show ?thesis by auto
qed

end
