(* ===== verification/BootUp.thy ===== *)
theory BootUp
  imports Boot
begin

unbundle bit_operations_syntax

text \<open>
  From the boot code into the kernel: the state that \<open>_start\<close> hands to \<open>kmain\<close> is the one that \<open>kmain\<close> needs, the components come up
  in it, and the assertion of the linker script does not protect the one page table of the boot code.
\<close>

section \<open>What the boot code hands over\<close>

lemma truncate_fields [simp]:
  "gdt_at (program.truncate p) = gdt_at p" "idt_at (program.truncate p) = idt_at p"
  "exception_stub (program.truncate p) = exception_stub p" "irq_stub (program.truncate p) = irq_stub p"
  "page_fault_handler_at (program.truncate p) = page_fault_handler_at p"
  "timer_handler_at (program.truncate p) = timer_handler_at p"
  "KERNEL_START (program.truncate p) = KERNEL_START p" "KERNEL_END (program.truncate p) = KERNEL_END p"
  "EARLY_KMALLOC_START (program.truncate p) = EARLY_KMALLOC_START p"
  "EARLY_KMALLOC_END (program.truncate p) = EARLY_KMALLOC_END p"
  by (simp_all add: program.defs)

lemma placed_gdt_clear:
  assumes "placed p"
  shows "gdt_clear_of_check (gdt_at p)"
proof -
  note pd = placedD [OF assms]
  have g: "0xC0103000 \<le> unat (gdt_at p)" "unat (gdt_at p) + 40 \<le> 0xC0400000" using pd(2,7,8,18,22,23) by linarith+
  have ne: "gdt_at p + 8 * i - 0xC0000000 \<noteq> 0x001010D8" if "unat i \<le> 4" for i
  proof
    assume "gdt_at p + 8 * i - 0xC0000000 = 0x001010D8"
    then have "gdt_at p + 8 * i = 0xC01010D8" by (simp add: diff_eq_eq)
    moreover have "unat (8 * i) = 8 * unat i" using that by (simp add: unat_word_ariths)
    then have "unat (gdt_at p + 8 * i) = unat (gdt_at p) + 8 * unat i"
      using g that unat_add_small [of "gdt_at p" "8 * i"] by simp
    ultimately show False using g by simp
  qed
  show ?thesis
    unfolding gdt_clear_of_check_def
  proof
    fix i :: u32
    assume "i \<in> set [0, 1, 2, 3, 4]"
    then have "unat i \<le> 4" by auto
    then show "gdt_at p + 8 * i - 0xC0000000 \<noteq> 0x001010D8" by (rule ne)
  qed
qed

lemma heap_in_kernel:
  assumes "placed p" "initialBase t = EARLY_KMALLOC_START p" "maxBase t = EARLY_KMALLOC_END p"
  shows "heap t \<subseteq> kernel_range p"
proof -
  note pd = placedD [OF assms(1)]
  have "KERNEL_START p \<le> EARLY_KMALLOC_START p" using pd(13,14) by (simp add: word_le_nat_alt)
  then show ?thesis using pd(17) assms(2,3) by (auto simp: heap_def kernel_range_def)
qed

lemma boot_space_mapped:
  fixes t :: "'a paging_st_scheme"
  assumes pl: "placed p" and sp: "boot_space p t" and h: "heap t \<subseteq> kernel_range p" and k: "\<not> kernelPagingEnabled t"
  shows "boot_mapped t"
proof -
  have m: "mapped (heap t) kphys t" by (rule mapped_subset [OF boot_mapped_kernel [OF pl sp] h])
  have "mmu_walk t a = Some a \<and> walk_reads t a \<inter> kphys ` heap t = {}" if "a \<in> walk_reads t va" for va a
  proof -
    have "a \<in> block (page_directory p) 0x3000" using boot_walk(2) [OF pl sp] that by blast
    then have "unat a < unat (EARLY_KERNEL_END p)"
      using placed_pages(10) [OF pl] placedD(7) [OF pl] mem_block_iff [of "page_directory p" "0x3000" a] by simp
    moreover have "walk_reads t a \<inter> kphys ` heap t = {}"
      using boot_walk(2) [OF pl sp, of a] kernel_apart [OF pl] h by blast
    ultimately show ?thesis using boot_walk(1) [OF pl sp, of a] by simp
  qed
  then show ?thesis using m k sp placedD(1) [OF pl] by (simp add: boot_mapped_def boot_space_def)
qed

lemma start_ready:
  fixes v :: "'a kernel_st_scheme"
  assumes pl: "placed p" and sp: "boot_space p ((clear_statics v)\<lparr>mem := m\<rparr>)"
  shows "boot_ready (program.truncate p) ((clear_statics v)\<lparr>mem := m\<rparr>)"
proof -
  note pd = placedD [OF pl] and pg = placed_pages [OF pl]
  let ?t = "((clear_statics v)\<lparr>mem := m\<rparr>)\<lparr>initialBase := EARLY_KMALLOC_START p, maxBase := EARLY_KMALLOC_END p\<rparr>"
  have ke: "unat (KERNEL_END p) = unat (EARLY_KMALLOC_START p) + 0x100000" using pd(16,17) by simp
  have "boot_space p ?t" by (rule boot_space_frame [OF pl sp]) simp_all
  moreover have "heap ?t \<subseteq> kernel_range p" by (rule heap_in_kernel [OF pl]) simp_all
  moreover have "\<not> kernelPagingEnabled ?t" by (simp add: clear_statics_def)
  ultimately have bm: "boot_mapped ?t" by (rule boot_space_mapped [OF pl])
  have "page_up (EARLY_KMALLOC_START p) = EARLY_KMALLOC_START p"
    using pd(15) by (intro page_up_aligned)
  then show ?thesis
    using bm placed_gdt_clear [OF pl] pg(7,9) pd(8,13,14,16,18) ke
    by (simp add: boot_ready_def clear_statics_def word_le_nat_alt word_less_nat_alt GDT_DESCRIPTORS_def IDT_DESCRIPTORS_def)
qed

text \<open>
  C7: \<open>_start\<close> keeps its promise to \<open>kmain\<close>. For a kernel that \<^verbatim>\<open>linker.ld\<close> lays out and whose end one page table reaches,
  entered with paging off: both loops end, paging is switched on, the addresses of the boot code lead to themselves and
  those of the kernel to the physical memory it was loaded to, no other address is mapped, \<open>kmain\<close> is called with the loader's
  information in the state it needs, and no memory outside the boot data and \<^verbatim>\<open>.bss\<close> has changed.
\<close>

theorem start_enters_kmain:
  fixes s :: "'a kernel_st_scheme"
  assumes "linked z p" "one_table z" "\<not> paging_on s"
  shows "\<exists>t. start p eax ebx s = kmain (program.truncate p) ebx t \<and> boot_ready (program.truncate p) t
    \<and> (\<forall>va. mmu_walk t va = (if unat va < unat (EARLY_KERNEL_END p) then Some va
          else if KERNEL_START p \<le> va \<and> va < KERNEL_END p then Some (va - 0xC0000000) else None))
    \<and> (\<forall>x. x \<notin> boot_writes p \<longrightarrow> mem t x = mem s x)"
proof -
  have pl: "placed p" by (rule linked_placed [OF assms(1,2)])
  let ?v = "s\<lparr>cr3 := page_directory p, cr0 := cr0 s OR 0x80000000\<rparr>"
  obtain m where m: "start p eax ebx s = kmain (program.truncate p) ebx ((clear_statics ?v)\<lparr>mem := m\<rparr>)"
    "boot_space p ((clear_statics ?v)\<lparr>mem := m\<rparr>)" "\<forall>x. x \<notin> boot_writes p \<longrightarrow> m x = mem s x"
    using start_run [OF pl assms(3)] by blast
  show ?thesis
    using m start_ready [OF pl m(2)] boot_walk(1) [OF pl m(2)] by (intro exI [of _ "(clear_statics ?v)\<lparr>mem := m\<rparr>"]) (simp add: kphys_def)
qed

text \<open>The components come up in that state; the memory of the loader is changed in the boot data and the early heap only.\<close>

lemma start_up:
  fixes s :: "'a kernel_st_scheme"
  assumes "linked z p" "one_table z" "\<not> paging_on s"
  shows "\<exists>t. start p eax ebx s =
      kthen (kmain_mount (program.truncate p) ebx)
     (kthen (list_files 2147483648 (program.truncate p) 0) (kmodify (\<lambda>s. s\<lparr>intf := True\<rparr>))) t
    \<and> kernel_up (program.truncate p) t \<and> live t \<and> arena_ok t \<and> initialBase t = EARLY_KMALLOC_START p
    \<and> maxBase t = EARLY_KMALLOC_END p \<and> (\<forall>a \<in> heap t. mmu_walk t a = Some (kphys a))
    \<and> unat (currentBase t) \<le> unat (EARLY_KMALLOC_START p) + 20480
    \<and> (\<forall>x. x \<notin> boot_writes p \<longrightarrow> x \<notin> kphys ` allocated t \<longrightarrow> mem t x = mem s x)
    \<and> no_timer_functions t"
proof -
  have pl: "placed p" by (rule linked_placed [OF assms(1,2)])
  note pd = placedD [OF pl] and pg = placed_pages [OF pl]
  let ?v = "s\<lparr>cr3 := page_directory p, cr0 := cr0 s OR 0x80000000\<rparr>"
  obtain m where m: "start p eax ebx s = kmain (program.truncate p) ebx ((clear_statics ?v)\<lparr>mem := m\<rparr>)"
    "boot_space p ((clear_statics ?v)\<lparr>mem := m\<rparr>)" "\<forall>x. x \<notin> boot_writes p \<longrightarrow> m x = mem s x"
    using start_run [OF pl assms(3)] by blast
  obtain t where t: "kmain_init (program.truncate p) ((clear_statics ?v)\<lparr>mem := m\<rparr>) = Inr ((), t)"
      "kernel_up (program.truncate p) t" "arena_ok t" "initialBase t = EARLY_KMALLOC_START p"
      "maxBase t = EARLY_KMALLOC_END p" "(\<forall>a \<in> heap t. mmu_walk t a = Some (kphys a)) \<longrightarrow> live t"
      "unat (currentBase t) \<le> unat (page_up (EARLY_KMALLOC_START p)) + 4096 * 5"
      "\<forall>x. x \<notin> kphys ` allocated t \<longrightarrow> mem t x = m x" "tf_func_args t = replicate 256 \<lparr>timeout = 0, user = 0\<rparr>"
    using kmain_init_up [OF start_ready [OF pl m(2)]] by (auto simp: clear_statics_def)
  have up: "PAGE_ALIGN_UP (KERNEL_END p) = KERNEL_END p" using pg(8) by (simp add: PAGE_ALIGN_UP_page_up page_up_aligned)
  have walk: "mmu_walk t a = Some (kphys a)" if "a \<in> heap t" for a
  proof -
    have "a \<in> kernel_range p" using heap_in_kernel [OF pl t(4,5)] that by blast
    moreover from this have "\<not> unat a < 1048576" using kernel_phys(3) [OF pl] by fastforce
    ultimately show ?thesis using t(2) up by (simp add: kernel_up_def kphys_def kernel_range_def)
  qed
  have "unat (currentBase t) \<le> unat (EARLY_KMALLOC_START p) + 20480" using t(7) page_up_aligned [OF pd(15)] by simp
  moreover have "\<forall>x. x \<notin> boot_writes p \<longrightarrow> x \<notin> kphys ` allocated t \<longrightarrow> mem t x = mem s x" using t(8) m(3) by simp
  moreover have "no_timer_functions t" by (simp add: no_timer_functions_def t(9))
  ultimately show ?thesis using t(1-6) m(1) walk by (intro exI [of _ t]) (simp add: kmain_def)
qed

text \<open>
  C9: from the loader to the mounting of the module the kernel comes up: for every kernel that \<^verbatim>\<open>linker.ld\<close> lays out and whose end one
  page table reaches, \<open>_start\<close> runs \<open>kmain_init\<close> to its end, which leaves the segments, the gates, the handlers, the
  kernel's own page tables in use, and the whole early heap mapped; what is left to run is the mounting and the listing.
\<close>

theorem start_brings_up:
  fixes s :: "'a kernel_st_scheme"
  assumes "linked z p" "one_table z" "\<not> paging_on s"
  shows "\<exists>t. start p eax ebx s =
      kthen (kmain_mount (program.truncate p) ebx)
     (kthen (list_files 2147483648 (program.truncate p) 0) (kmodify (\<lambda>s. s\<lparr>intf := True\<rparr>))) t
    \<and> kernel_up (program.truncate p) t \<and> live t \<and> arena_ok t \<and> initialBase t = EARLY_KMALLOC_START p
    \<and> maxBase t = EARLY_KMALLOC_END p \<and> (\<forall>a \<in> heap t. mmu_walk t a = Some (kphys a))"
  using start_up [OF assms] by blast

section \<open>The assertion of the linker script\<close>

text \<open>
  The script refuses a kernel of three megabytes, but the table that the boot code fills for it reaches four
  megabytes from \<open>KERNEL_BASE\<close> and the kernel starts after the early part, above the first megabyte.
\<close>

text \<open>Where such a kernel lies.\<close>

lemma large_layout:
  assumes "linked z p" "link_assert z" "sym_EARLY_KERNEL_END (link_script z) \<le> 0x400000" "\<not> one_table z"
  defines "q \<equiv> page_directory p"
  shows "unat q \<le> 4182016" "unat (EARLY_KERNEL_END p) = unat q + 12288" "unat (KERNEL_START p) = unat q + 12288 + 3221225472"
    "3225419776 < unat (KERNEL_END p)" "unat (KERNEL_END p) < unat (KERNEL_START p) + 3145728"
    "page_aligned q" "page_aligned (EARLY_KERNEL_END p)" "page_aligned (KERNEL_START p)" "page_aligned (KERNEL_END p)"
    "unat (lowmem_pt p) = unat q + 4096" "unat (kernel_pt p) = unat q + 8192" "page_aligned (lowmem_pt p)" "page_aligned (kernel_pt p)"
proof -
  let ?k = "link_script z"
  define eb where "eb = sym_EARLY_BSS_START ?k"
  define ke where "ke = sym_KERNEL_END ?k"
  have e: "sym_EARLY_KERNEL_END ?k = eb + 12288" "sym_KERNEL_START ?k = eb + 12288 + 3221225472"
    using assms(1) by (simp_all add: linked_def eb_def link_script_def Let_def)
  have m: "eb mod 4096 = 0" "ke mod 4096 = 0"
    using align_to_page(2) by (simp_all add: eb_def ke_def link_script_def Let_def mod_eq_0_iff_dvd)
  have r: "3225419776 < ke" "ke < eb + 12288 + 3221225472 + 3145728" "eb \<le> 4182016"
    using assms(2-4) e by (simp_all add: one_table_def link_assert_def ke_def)
  have p: "q = of_nat eb" "EARLY_KERNEL_END p = of_nat (eb + 12288)" "KERNEL_START p = of_nat (eb + 12288 + 3221225472)"
    "KERNEL_END p = of_nat ke" "lowmem_pt p = q + 4096" "kernel_pt p = q + 8192"
    using assms(1) e by (simp_all add: linked_def Let_def eb_def ke_def q_def)
  have u: "unat q = eb" "unat (EARLY_KERNEL_END p) = eb + 12288" "unat (KERNEL_START p) = eb + 12288 + 3221225472"
    "unat (KERNEL_END p) = ke"
    unfolding p by (subst unat_of_nat_u32; use r in linarith)+
  show "unat q \<le> 4182016" "unat (EARLY_KERNEL_END p) = unat q + 12288" "unat (KERNEL_START p) = unat q + 12288 + 3221225472"
    "3225419776 < unat (KERNEL_END p)" "unat (KERNEL_END p) < unat (KERNEL_START p) + 3145728"
    using u r by simp_all
  show "page_aligned q" "page_aligned (EARLY_KERNEL_END p)" "page_aligned (KERNEL_START p)" "page_aligned (KERNEL_END p)"
    using u m by (simp_all add: page_aligned_def mod_eq_0_iff_dvd)
  show "unat (lowmem_pt p) = unat q + 4096" "unat (kernel_pt p) = unat q + 8192"
    using r(3) u(1) unat_add_small [of q 4096] unat_add_small [of q 8192] by (simp_all add: p(5,6))
  then show "page_aligned (lowmem_pt p)" "page_aligned (kernel_pt p)"
    using m(1) u(1) by (simp_all add: page_aligned_def mod_eq_0_iff_dvd)
qed

text \<open>A directory entry that the boot code does not write is absent.\<close>

lemma absent_entry:
  assumes al: "page_aligned q" "page_aligned (lowmem_pt p)" "page_aligned (kernel_pt p)"
    and ne: "q \<noteq> lowmem_pt p" "q \<noteq> kernel_pt p" and q: "q = page_directory p" "unat q + 0x3000 \<le> 4294967296"
    and z: "\<And>x. x \<in> block q 0x3000 \<Longrightarrow> m x = 0" and i: "i < 1024" "i \<noteq> 0" "i \<noteq> 768"
  shows "get32 (table_mem p m) (elem q i) = 0"
proof -
  have "get32 (table_mem p m) (elem q i) = get32 m (elem q i)"
    unfolding table_mem_def using al ne i by (simp add: get32_page_fill_other get32_put_elem flip: q(1))
  also have "block q 4096 \<subseteq> block q 0x3000" using sub_block [of 0 4096 "0x3000" q] by simp
  then have "m x = 0" if "x \<in> word_bytes (elem q i)" for x
    using that elem_in_block [OF al(1) i(1)] z by auto
  then have "get32 m (elem q i) = 0" by (simp add: get32_def word_bytes_def le32_def)
  finally show ?thesis .
qed

text \<open>
  C26: the assertion of \<^verbatim>\<open>linker.ld\<close> does not protect the boot code. For a kernel that passes the assertion and ends above
  \<open>0xC0400000\<close>, the boot code fills its tables and switches paging on, and the kernel's addresses from \<open>0xC0400000\<close> on are
  not mapped: their directory entry was never written.
\<close>

theorem assert_misses_second_table:
  fixes s :: "'a machine_scheme"
  assumes "linked z p" "link_assert z" "sym_EARLY_KERNEL_END (link_script z) \<le> 0x400000" "\<not> one_table z"
    and "\<not> paging_on s" "\<And>x. x \<in> block (page_directory p) 0x3000 \<Longrightarrow> mem s x = 0"
  shows "0xC0400000 < KERNEL_END p \<and> (\<exists>t. kthen (boot_tables p) (boot_paging p) s = Inr ((), t)
    \<and> (\<forall>va. 0xC0400000 \<le> va \<and> va < KERNEL_END p \<longrightarrow> mmu_walk t va = None))"
proof -
  let ?q = "page_directory p" and ?t = "s\<lparr>mem := table_mem p (mem s), cr3 := page_directory p, cr0 := cr0 s OR 0x80000000\<rparr>"
  note l = large_layout [OF assms(1-4)]
  have run: "boot_tables p s = Inr ((), s\<lparr>mem := table_mem p (mem s)\<rparr>)"
    by (rule boot_tables_fill [OF assms(5) l(7-9)]) (use l(1-5) in linarith)+
  have "unat ?q \<noteq> unat (lowmem_pt p)" "unat ?q \<noteq> unat (kernel_pt p)" using l(10,11) by simp_all
  then have ne: "?q \<noteq> lowmem_pt p" "?q \<noteq> kernel_pt p" by metis+
  have "mmu_walk ?t va = None" if va: "0xC0400000 \<le> va" "va < KERNEL_END p" for va
  proof -
    have "unat va div 4194304 = 769"
      using va l(1,3,5) by (intro div_nat_eqI) (simp_all add: word_le_nat_alt word_less_nat_alt)
    then have d: "dir_index va = 769" by (simp add: word_unat_eq_iff unat_dir_index)
    have "get32 (table_mem p (mem s)) (elem ?q 769) = 0"
      by (rule absent_entry [OF l(6,12,13) ne refl _ assms(6)]) (use l(1) in simp_all)
    then show ?thesis using d l(6) paging_bit by (simp add: mmu_walk_def paging_on_def pde_addr_elem)
  qed
  moreover have "0xC0400000 < KERNEL_END p" using l(4) by (simp add: word_less_nat_alt)
  moreover have "kthen (boot_tables p) (boot_paging p) s = Inr ((), ?t)" by (simp add: run boot_paging_def)
  ultimately show ?thesis by blast
qed

section \<open>A small image\<close>

definition sample_sizes :: section_sizes where
  "sample_sizes = \<lparr>header_size = 12, early_text_size = 200, early_data_size = 8, early_bss_size = 0x3000,
     text_size = 0x5000, rodata_size = 0x1000, data_size = 0x100, bss_size = 0x6000\<rparr>"

text \<open>Another with as much code as the assertion allows.\<close>

definition large_sizes :: section_sizes where
  "large_sizes = sample_sizes\<lparr>text_size := 0x1F4000\<rparr>"

definition image_of_sizes :: "section_sizes \<Rightarrow> boot_program" where
  "image_of_sizes z = (let k = link_script z; pd = of_nat (sym_EARLY_BSS_START k) in
     program.extend
       (sample_program\<lparr>gdt_at := of_nat (sym_BSS_START k), KERNEL_START := of_nat (sym_KERNEL_START k),
          KERNEL_END := of_nat (sym_KERNEL_END k), EARLY_KMALLOC_START := of_nat (sym_EARLY_KMALLOC_START k),
          EARLY_KMALLOC_END := of_nat (sym_EARLY_KMALLOC_END k)\<rparr>)
       \<lparr>EARLY_BSS_START = pd, EARLY_BSS_SIZE = of_nat (sym_EARLY_BSS_SIZE k),
         EARLY_KERNEL_END = of_nat (sym_EARLY_KERNEL_END k), BSS_START = of_nat (sym_BSS_START k),
         BSS_SIZE = of_nat (sym_BSS_SIZE k), page_directory = pd, lowmem_pt = pd + 4096, kernel_pt = pd + 8192,
         multiboot_magic = of_nat (sym_EARLY_DATA_START k), multiboot_info = of_nat (sym_EARLY_DATA_START k) + 4,
         stack = of_nat (sym_BSS_START k + 0x1000), return_to = 0x101080\<rparr>)"

lemma sample_linked: "linked sample_sizes (image_of_sizes sample_sizes)" "one_table sample_sizes"
  by (simp_all add: linked_def one_table_def image_of_sizes_def link_script_def align_to_def sample_sizes_def Let_def
      program.defs aligned4_def)

lemma large_linked: "linked large_sizes (image_of_sizes large_sizes)" "link_assert large_sizes"
    "sym_EARLY_KERNEL_END (link_script large_sizes) \<le> 0x400000" "\<not> one_table large_sizes"
  by (simp_all add: linked_def one_table_def link_assert_def image_of_sizes_def link_script_def align_to_def large_sizes_def
      sample_sizes_def Let_def program.defs aligned4_def)

text \<open>The machine as the loader leaves it, with paging off.\<close>

definition loaded_kernel :: kernel_st where
  "loaded_kernel = sample_kernel\<lparr>mem := \<lambda>_. 0, cr0 := 0x11\<rparr>"

lemma loaded_off: "\<not> paging_on loaded_kernel"
  by (simp add: paging_on_def loaded_kernel_def)

theorem start_enters_kmain_witness:
  "\<exists>t. start (image_of_sizes sample_sizes) 0x2BADB002 0x9000 loaded_kernel =
      kmain (program.truncate (image_of_sizes sample_sizes)) 0x9000 t \<and> mmu_walk t 0x100000 = Some 0x100000"
proof -
  have "unat (0x100000 :: u32) < unat (EARLY_KERNEL_END (image_of_sizes sample_sizes))"
    by (simp add: image_of_sizes_def link_script_def align_to_def sample_sizes_def Let_def program.defs)
  with start_enters_kmain [OF sample_linked loaded_off, of "0x2BADB002" "0x9000"] show ?thesis by auto
qed

theorem start_brings_up_witness:
  "\<exists>t. start (image_of_sizes sample_sizes) 0x2BADB002 0x9000 loaded_kernel =
      kthen (kmain_mount (program.truncate (image_of_sizes sample_sizes)) 0x9000)
     (kthen (list_files 2147483648 (program.truncate (image_of_sizes sample_sizes)) 0) (kmodify (\<lambda>s. s\<lparr>intf := True\<rparr>))) t
    \<and> live t"
  using start_brings_up [OF sample_linked loaded_off, of "0x2BADB002" "0x9000"] by blast

theorem assert_misses_second_table_witness:
  "\<exists>t. kthen (boot_tables (image_of_sizes large_sizes)) (boot_paging (image_of_sizes large_sizes)) loaded_kernel = Inr ((), t)
    \<and> mmu_walk t 0xC0400000 = None"
proof -
  have "mem loaded_kernel x = 0" for x by (simp add: loaded_kernel_def)
  from assert_misses_second_table [OF large_linked loaded_off this] show ?thesis by auto
qed

end
