(* ===== verification/Launch.thy ===== *)
theory Launch
  imports BootUp
begin

unbundle bit_operations_syntax

text \<open>
  From the loader to the mounted disk: what a Multiboot loader leaves in physical memory, and the run of \<open>_start\<close> over it up to
  the listing of the files.
\<close>

section \<open>What the loader leaves\<close>

text \<open>Physical memory that neither the kernel nor its boot code occupies.\<close>

definition outside :: "boot_program \<Rightarrow> u32 set \<Rightarrow> bool" where
  "outside p B \<longleftrightarrow> (\<forall>x \<in> B. unat x < 0x100000 \<or> unat (KERNEL_END p) \<le> unat x + 0xC0000000)"

text \<open>A string literal in the read-only data of the kernel.\<close>

definition literal_loaded :: "boot_program \<Rightarrow> u32 \<Rightarrow> u8 list \<Rightarrow> 'a machine_scheme \<Rightarrow> bool" where
  "literal_loaded p a cs s \<longleftrightarrow> KERNEL_START p \<le> a \<and> unat a + length cs < unat (BSS_START p)
     \<and> vstr (\<lambda>va. mem s (kphys va)) a cs"

text \<open>
  The information structure below one megabyte, the module list and the module on page boundaries outside the kernel, the headers of
  an image at the start of the module, and a zero early heap, for which the file of the kernel has no bytes.
\<close>

definition module_loaded :: "boot_program \<Rightarrow> u32 \<Rightarrow> u32 \<Rightarrow> u8 list list \<Rightarrow> 'a machine_scheme \<Rightarrow> bool" where
  "module_loaded p mbi load names s \<longleftrightarrow>
     (let mods = get32 (mem s) (mbi_mods_addr mbi) in
      aligned4 (mbi_mods_addr mbi) \<and> unat (mbi_mods_addr mbi) < 0x100000
      \<and> page_aligned mods \<and> get32 (mem s) (mod_start mods) = load \<and> page_aligned load
      \<and> outside p (block mods 8) \<and> outside p (block load 4096))
     \<and> image_ok (block load 4096) (mem s) load names \<and> 4 + 76 * length names \<le> 4096
     \<and> (\<forall>a. EARLY_KMALLOC_START p \<le> a \<and> a < EARLY_KMALLOC_END p \<longrightarrow> mem s (kphys a) = 0)
     \<and> literal_loaded p (initrd_str p) (ascii ''initrd'') s \<and> literal_loaded p (dev_str p) (ascii ''dev'') s"

text \<open>The early heap of a kernel.\<close>

definition kernel_heap :: "boot_program \<Rightarrow> u32 set" where
  "kernel_heap p = {a. EARLY_KMALLOC_START p \<le> a \<and> a < EARLY_KMALLOC_END p}"

section \<open>Lemmas\<close>

lemma linkage_truncate [simp]: "linkage.truncate (program.truncate p) = linkage.truncate p"
  "dev_str (linkage.truncate q) = dev_str q" "initrd_str (linkage.truncate q) = initrd_str q"
  "dentry (linkage.truncate q) = dentry q"
  by (simp_all add: linkage.defs program.defs)

text \<open>What the boot code and the initialisation write lies inside the kernel and the boot data.\<close>

lemma written_range:
  assumes pl: "placed p" and x: "x \<in> boot_writes p \<or> x \<in> kphys ` kernel_range p"
  shows "0x100000 \<le> unat x" "unat x + 0xC0000000 < unat (KERNEL_END p)"
proof -
  note pd = placedD [OF pl] and pg = placed_pages [OF pl]
  have KE: "0xC0000000 + (unat (page_directory p) + 0x3000) < unat (KERNEL_END p)" using pd(7,8) pg(9) by linarith
  have k: "0x100000 \<le> unat x \<and> unat x + 0xC0000000 < unat (KERNEL_END p)" if "x \<in> kphys ` kernel_range p"
  proof -
    from that obtain a where a: "x = kphys a" "a \<in> kernel_range p" by blast
    then have "unat a < unat (KERNEL_END p)" by (simp add: kernel_range_def word_less_nat_alt)
    then show ?thesis using kernel_phys [OF pl a(2)] pd(2) by (simp add: a(1))
  qed
  have "0x100000 \<le> unat x \<and> unat x + 0xC0000000 < unat (KERNEL_END p)"
  proof (cases "x \<in> kphys ` kernel_range p")
    case False
    then have "x \<in> block (multiboot_magic p) 8 \<or> x \<in> block (page_directory p) 0x3000"
      using x bss_in_kernel [OF pl] by (auto simp: boot_writes_def)
    then have "0x100000 \<le> unat x" "unat x < unat (page_directory p) + 0x3000"
      using pd(2,11,12) pg(10) mem_block_iff [of "multiboot_magic p" 8 x] mem_block_iff [of "page_directory p" "0x3000" x] by auto
    with KE show ?thesis by linarith
  qed (rule k)
  then show "0x100000 \<le> unat x" "unat x + 0xC0000000 < unat (KERNEL_END p)" by simp_all
qed

lemma outside_unwritten:
  assumes "placed p" "outside p B" "x \<in> B"
  shows "x \<notin> boot_writes p" "x \<notin> kphys ` kernel_range p"
  using assms(2,3) written_range [OF assms(1), of x] unfolding outside_def by (metis not_le)+

lemma low_word:
  assumes "placed p" "aligned4 a" "unat a < 0x100000" "x \<in> word_bytes a"
  shows "x \<notin> boot_writes p" "x \<notin> kphys ` kernel_range p"
proof -
  have "unat a mod 4 = 0" using assms(2) by (simp add: aligned4_def)
  then have "unat a + 4 \<le> 0x100000" using assms(3) by presburger
  then have "unat x < 0x100000"
    using assms(4) aligned4_plus [OF assms(2), of 1] aligned4_plus [OF assms(2), of 2] aligned4_plus [OF assms(2), of 3]
    by (auto simp: word_bytes_def)
  then show "x \<notin> boot_writes p" "x \<notin> kphys ` kernel_range p" using written_range [OF assms(1), of x] by auto
qed

text \<open>An image seen through a window.\<close>

lemma image_window:
  assumes "image_ok D m load names" "aligned4 addr" "block addr 4096 \<subseteq> D'" "4 + 76 * length names \<le> 4096"
    and "unat addr + 4096 \<le> 4294967296" and V: "\<And>k. k < 4096 \<Longrightarrow> V (addr + of_nat k) = m (load + of_nat k)"
  shows "image_ok D' V addr names"
proof -
  let ?n = "length names"
  have str: "vstr V (file_name (hdr addr i)) cs" if "vstr m (file_name (hdr load i)) cs" "i < ?n" "length cs < 64" for i cs
  proof -
    have at: "file_name (hdr a i) + of_nat j = a + of_nat (5 + 76 * i + j)" for a j
      by (simp add: file_name_def hdr_def algebra_simps)
    have "76 * Suc i \<le> 76 * ?n" using that(2) by (intro mult_le_mono2) simp
    then have "5 + 76 * i + j < 4096" if "j \<le> length cs" for j using that \<open>length cs < 64\<close> assms(4) by simp
    then have "V (file_name (hdr addr i) + of_nat j) = m (file_name (hdr load i) + of_nat j)" if "j \<le> length cs" for j
      unfolding at using that by (intro V)
    then show ?thesis using that(1) by (simp add: vstr_def)
  qed
  have "get32 V addr = get32 m load"
    using V [of 0] V [of 1] V [of 2] V [of 3] by (simp add: get32_def)
  moreover have "block addr (4 + 76 * ?n) \<subseteq> D'"
    using sub_block [of 0 "4 + 76 * ?n" 4096 addr] assms(3,4) by simp
  ultimately show ?thesis using assms(1,2,4,5) str by (simp add: image_ok_def)
qed

lemma page_up_below:
  assumes "unat a \<le> 4294963200" "unat a \<le> k" "k mod 4096 = 0"
  shows "unat (page_up a) \<le> k"
proof -
  obtain i where "k = 4096 * i" using assms(3) by (elim dvdE [OF dvd_eq_mod_eq_0 [THEN iffD2]])
  moreover obtain j where "unat (page_up a) = 4096 * j"
    using page_up_bounds(3) [OF assms(1)] by (elim dvdE [OF dvd_eq_mod_eq_0 [THEN iffD2]])
  moreover have "unat (page_up a) < k + 4096" using page_up_bounds(2) [OF assms(1)] assms(2) by simp
  ultimately show ?thesis by simp
qed

text \<open>The state in which \<open>kmain_mount\<close> starts fits what it needs.\<close>

lemma launch_ready:
  fixes t :: "'a kernel_st_scheme"
  assumes pl: "placed p" and ml: "module_loaded p mbi load names s"
    and t: "kernel_up (program.truncate p) t" "live t" "arena_ok t" "initialBase t = EARLY_KMALLOC_START p"
      "maxBase t = EARLY_KMALLOC_END p" "\<forall>a \<in> heap t. mmu_walk t a = Some (kphys a)"
      "\<forall>x. x \<notin> boot_writes p \<longrightarrow> x \<notin> kphys ` allocated t \<longrightarrow> mem t x = mem s x"
  shows "module_ready mbi (get32 (mem s) (mbi_mods_addr mbi)) load t"
    "literals_mapped (linkage.truncate p) load t"
    "\<And>x. x \<notin> boot_writes p \<Longrightarrow> x \<notin> kphys ` kernel_range p \<Longrightarrow> mem t x = mem s x"
    "\<And>E. E \<subseteq> kernel_range p \<Longrightarrow> E \<inter> heap t = {} \<Longrightarrow> kernel_mapped E load t"
proof -
  note pd = placedD [OF pl]
  let ?mods = "get32 (mem s) (mbi_mods_addr mbi)"
  have hk: "heap t \<subseteq> kernel_range p" by (rule heap_in_kernel [OF pl t(4,5)])
  moreover have "allocated t \<subseteq> heap t" using t(3) by (auto simp: allocated_def heap_def arena_ok_def)
  ultimately show same: "mem t x = mem s x" if "x \<notin> boot_writes p" "x \<notin> kphys ` kernel_range p" for x using t(7) that by blast
  have m: "aligned4 (mbi_mods_addr mbi)" "unat (mbi_mods_addr mbi) < 0x100000" "page_aligned ?mods"
      "get32 (mem s) (mod_start ?mods) = load" "page_aligned load" "outside p (block ?mods 8)" "outside p (block load 4096)"
      "literal_loaded p (initrd_str p) (ascii ''initrd'') s" "literal_loaded p (dev_str p) (ascii ''dev'') s"
    using ml by (simp_all add: module_loaded_def Let_def)
  have w: "word_bytes ?mods \<subseteq> block ?mods 8"
    using sub_block [of 0 4 8 ?mods] by (simp add: word_bytes_block)
  have "get32 (mem t) (mbi_mods_addr mbi) = ?mods"
    by (rule get32_cong) (use same low_word [OF pl m(1,2)] in blast)
  moreover have "get32 (mem t) ?mods = get32 (mem s) ?mods"
    by (rule get32_cong) (use same w outside_unwritten [OF pl m(6)] in blast)
  moreover have "mmu_walk t (mbi_mods_addr mbi) = Some (mbi_mods_addr mbi)" using t(1) m(2) by (simp add: kernel_up_def)
  moreover have "block ?mods 8 \<inter> kphys ` heap t = {}" "block load 4096 \<inter> kphys ` heap t = {}"
    using outside_unwritten(2) [OF pl m(6)] outside_unwritten(2) [OF pl m(7)] hk by blast+
  ultimately show "module_ready mbi ?mods load t"
    using t(2,3,6) m(1,3-5) by (auto simp: module_ready_def mod_start_def)
  have kern: "mmu_walk t x = Some (kphys x)" "kphys x \<notin> block load 4096" if "x \<in> kernel_range p" for x
  proof -
    show "kphys x \<notin> block load 4096" using outside_unwritten(2) [OF pl m(7)] that by blast
    have "3221225472 \<le> unat x" using that pd(7,8) by (simp add: kernel_range_def word_le_nat_alt)
    then show "mmu_walk t x = Some (kphys x)"
      using t(1) that placed_pages(8) [OF pl]
      by (simp add: kernel_up_def kernel_range_def kphys_def PAGE_ALIGN_UP_page_up page_up_aligned)
  qed
  then show "kernel_mapped E load t" if "E \<subseteq> kernel_range p" "E \<inter> heap t = {}" for E
    using that by (auto simp: kernel_mapped_def)
  have lit: "mmu_walk t x = Some (kphys x) \<and> x \<notin> heap t \<and> kphys x \<notin> block load 4096"
    if "literal_loaded p a cs s" "x \<in> block a (Suc (length cs))" for a cs x
  proof -
    have r: "KERNEL_START p \<le> a" "unat a + length cs < unat (BSS_START p)" using that(1) by (simp_all add: literal_loaded_def)
    have top: "unat (BSS_START p) \<le> unat (EARLY_KMALLOC_START p)" "unat (EARLY_KMALLOC_START p) + 0x100000 = unat (KERNEL_END p)"
      using pd(14,16,17) by simp_all
    have "unat a \<le> unat x" "unat x < unat (BSS_START p)"
      using that(2) r(2) mem_block_iff [of a "Suc (length cs)" x] u32_less [of "BSS_START p"] by simp_all
    then have "x \<in> kernel_range p" "x \<notin> heap t"
      using r(1) top t(4) by (simp_all add: kernel_range_def heap_def word_le_nat_alt word_less_nat_alt)
    with kern show ?thesis by blast
  qed
  have "length (ascii ''initrd'') = 6" "length (ascii ''dev'') = 3" by (simp_all add: ascii_names)
  then show "literals_mapped (linkage.truncate p) load t"
    using lit [OF m(8)] lit [OF m(9)] by (auto simp: literals_mapped_def kernel_mapped_def eval_nat_numeral)
qed

lemma launch_mountable:
  fixes t :: "'a kernel_st_scheme"
  assumes pl: "placed p" and ml: "module_loaded p mbi load names s" and ar: "arena_ok t"
    and b: "initialBase t = EARLY_KMALLOC_START p" "maxBase t = EARLY_KMALLOC_END p"
    and addr: "addr = page_up (currentBase t) + 4096"
    and room: "unat (page_up (currentBase t)) + 16384 + 184 * length names \<le> unat (maxBase t)"
    and V: "\<And>va. va \<in> mount_region (linkage.truncate p) addr (length names) \<Longrightarrow> V va = mem s (mount_tr addr load va)"
  shows "mountable (mount_region (linkage.truncate p) addr (length names)) (linkage.truncate p) V addr (addr + 4096) names"
proof -
  note r = mount_room [OF ar addr room]
  let ?n = "length names" and ?lk = "linkage.truncate p"
  let ?D = "mount_region ?lk addr ?n" and ?H = "heap_for (addr + 4096) ?n"
  have fits: "unat addr + 4096 \<le> 4294967296" "unat (addr + 4096) + (8192 + 184 * ?n) \<le> 4294967296" using r(3,5) by simp_all
  have m: "image_ok (block load 4096) (mem s) load names" "4 + 76 * ?n \<le> 4096"
      "\<And>a. EARLY_KMALLOC_START p \<le> a \<Longrightarrow> a < EARLY_KMALLOC_END p \<Longrightarrow> mem s (kphys a) = 0"
      "literal_loaded p (initrd_str p) (ascii ''initrd'') s" "literal_loaded p (dev_str p) (ascii ''dev'') s"
    using ml by (simp_all add: module_loaded_def)
  have al: "aligned4 addr" using r(1) page_mod_4 [of "unat addr"] by (simp add: page_aligned_def aligned4_def)
  have win: "V (addr + of_nat k) = mem s (load + of_nat k)" if "k < 4096" for k
    using V [of "addr + of_nat k"] that by (simp add: mount_region_def mount_tr_def block_mem)
  have "block addr 4096 \<subseteq> ?D" by (auto simp: mount_region_def)
  then have img: "image_ok ?D V addr names" using image_window [OF m(1) al _ m(2) fits(1) win] by blast
  have heap: "x \<notin> block addr 4096 \<and> x \<in> heap t" if "x \<in> ?H" for x
    using that r(3,4) mem_block_iff [OF fits(1), of x] mem_block_iff [OF fits(2), of x] by (auto simp: heap_for_def)
  have zero: "V x = 0" if "x \<in> ?H" for x
  proof -
    have "V x = mem s (kphys x)" using V [of x] heap [OF that] that by (simp add: mount_region_def mount_tr_def)
    then show ?thesis using heap [OF that] m(3) b by (simp add: heap_def)
  qed
  have apart: "?H \<inter> block addr (4 + 76 * ?n) = {}"
    using heap sub_block [of 0 "4 + 76 * ?n" 4096 addr] m(2) by auto
  have lit: "literal ?D (disk_memory addr (addr + 4096) ?n) V a cs"
    if l: "literal_loaded p a cs s" and D: "block a (Suc (length cs)) \<subseteq> ?D" for a cs
  proof -
    have q: "unat a + length cs < unat (BSS_START p)" "vstr (\<lambda>va. mem s (kphys va)) a cs"
      using l by (simp_all add: literal_loaded_def)
    have "unat (BSS_START p) \<le> unat (EARLY_KMALLOC_START p)" using placedD(14) [OF pl] by simp
    then have out: "x \<notin> heap t" if "x \<in> block a (Suc (length cs))" for x
      using that q(1) b(1) mem_block_iff [of a "Suc (length cs)" x] u32_less [of "BSS_START p"] by (simp add: heap_def word_le_nat_alt)
    have hp: "disk_memory addr (addr + 4096) ?n \<subseteq> heap t"
      using r(4) sub_block [of 0 "4 + 76 * ?n" 4096 addr] m(2) by (auto simp: disk_memory_def)
    have Vk: "V x = mem s (kphys x)" if "x \<in> block a (Suc (length cs))" for x
    proof -
      have "x \<notin> block addr 4096" using out [OF that] r(4) by blast
      moreover have "x \<in> ?D" using D that by blast
      ultimately show ?thesis using V [of x] by (simp add: mount_tr_def)
    qed
    have "V (a + of_nat i) = mem s (kphys (a + of_nat i))" if "i \<le> length cs" for i
      using that by (intro Vk block_mem) simp
    then have "vstr V a cs" using q(2) by (simp add: vstr_def)
    moreover have "unat a + length cs < 4294967296" using q(1) u32_less [of "BSS_START p"] by linarith
    ultimately show ?thesis using D out hp by (auto simp: literal_def)
  qed
  have "Suc (length (ascii ''initrd'')) = 7" "Suc (length (ascii ''dev'')) = 4" by (simp_all add: ascii_names)
  then have "block (initrd_str p) (Suc (length (ascii ''initrd''))) \<subseteq> ?D" "block (dev_str p) (Suc (length (ascii ''dev''))) \<subseteq> ?D"
    by (auto simp: mount_region_def)
  then show ?thesis using img apart zero lit m(4,5) by (auto simp: mountable_def mount_region_def)
qed

text \<open>Memory of the kernel that neither \<^verbatim>\<open>.bss\<close> nor the boot data hold.\<close>

lemma kernel_unwritten:
  assumes pl: "placed p" and va: "va \<in> kernel_range p" "va \<notin> block (BSS_START p) (unat (BSS_SIZE p))"
  shows "kphys va \<notin> boot_writes p"
proof -
  have "unat (page_directory p) + 0x3000 \<le> unat (kphys va)" by (rule kernel_phys(2) [OF pl va(1)])
  then have "kphys va \<notin> block (multiboot_magic p) 8" "kphys va \<notin> block (page_directory p) 0x3000"
    using placedD(12) [OF pl] placed_pages(10) [OF pl] mem_block_iff [of "multiboot_magic p" 8 "kphys va"]
      mem_block_iff [of "page_directory p" "0x3000" "kphys va"] by simp_all
  then show ?thesis using va(2) by (auto simp: boot_writes_def)
qed

lemma launch_view:
  fixes t :: "'a kernel_st_scheme"
  assumes pl: "placed p" and ml: "module_loaded p mbi load names s" and ar: "arena_ok t"
    and b: "initialBase t = EARLY_KMALLOC_START p" "maxBase t = EARLY_KMALLOC_END p"
    and same: "\<forall>x. x \<notin> boot_writes p \<longrightarrow> x \<notin> kphys ` allocated t \<longrightarrow> mem t x = mem s x"
    and addr: "addr = page_up (currentBase t) + 4096"
    and room: "unat (page_up (currentBase t)) + 16384 + 184 * length names \<le> unat (maxBase t)"
    and va: "va \<in> mount_region (linkage.truncate p) addr (length names)"
  shows "mem t (mount_tr addr load va) = mem s (mount_tr addr load va)"
proof -
  note r = mount_room [OF ar addr room] and pd = placedD [OF pl]
  have cb: "unat (currentBase t) \<le> unat addr" 
    using ar page_up_bounds(1) [of "currentBase t"] r(2) by (auto simp: arena_ok_def word_le_nat_alt)
  have al: "allocated t \<subseteq> kernel_range p"
    using heap_in_kernel [OF pl b] ar by (auto simp: allocated_def heap_def arena_ok_def)
  have top: "unat (BSS_START p) + unat (BSS_SIZE p) \<le> unat (EARLY_KMALLOC_START p)"
      "unat (EARLY_KMALLOC_START p) + 0x100000 = unat (KERNEL_END p)" using pd(14,16,17) by simp_all
  have kern: "mem t (kphys va) = mem s (kphys va)"
    if "va \<in> kernel_range p" "va \<notin> block (BSS_START p) (unat (BSS_SIZE p))" "va \<notin> allocated t"
    using same kernel_unwritten [OF pl that(1,2)] that(3) by auto
  have bss: "x \<in> block (BSS_START p) (unat (BSS_SIZE p)) \<longleftrightarrow>
      unat (BSS_START p) \<le> unat x \<and> unat x < unat (BSS_START p) + unat (BSS_SIZE p)" for x
    using top u32_less [of "KERNEL_END p"] by (intro mem_block_iff) linarith
  have low: "mem t (kphys va) = mem s (kphys va)"
    if "literal_loaded p a cs s" "va \<in> block a (Suc (length cs))" for a cs
  proof -
    have q: "KERNEL_START p \<le> a" "unat a + length cs < unat (BSS_START p)" using that(1) by (simp_all add: literal_loaded_def)
    then have "unat a \<le> unat va" "unat va < unat (BSS_START p)"
      using that(2) mem_block_iff [of a "Suc (length cs)" va] u32_less [of "BSS_START p"] by simp_all
    then show ?thesis
      using q(1) top b(1) by (intro kern) (auto simp: bss kernel_range_def allocated_def word_le_nat_alt word_less_nat_alt)
  qed
  consider "va \<in> block addr 4096" | "va \<notin> block addr 4096" "va \<in> heap_for (addr + 4096) (length names)"
    | "va \<notin> block addr 4096" "va \<in> block (initrd_str p) 7 \<union> block (dev_str p) 4"
    using va by (auto simp: mount_region_def)
  then show ?thesis
  proof cases
    case 1
    then obtain k where k: "k < 4096" "va = addr + of_nat k" by (auto simp: block_def)
    then have "load + (va - addr) \<in> block load 4096" by auto
    moreover have "outside p (block load 4096)" using ml by (simp add: module_loaded_def Let_def)
    ultimately show ?thesis using 1 same outside_unwritten [OF pl] al by (simp add: mount_tr_def) blast
  next
    case 2
    then have h: "va \<in> heap t" "unat addr \<le> unat va"
      using r(3,4,5) mem_block_iff [of "addr + 4096" "8192 + 184 * length names" va] by (auto simp: heap_for_def)
    then have "mem t (kphys va) = mem s (kphys va)"
      using heap_in_kernel [OF pl b] cb top b(1)
      by (intro kern) (auto simp: bss allocated_def heap_def word_le_nat_alt word_less_nat_alt)
    then show ?thesis using 2 by (simp add: mount_tr_def)
  next
    case 3
    have len: "Suc (length (ascii ''initrd'')) = 7" "Suc (length (ascii ''dev'')) = 4" by (simp_all add: ascii_names)
    have "literal_loaded p (initrd_str p) (ascii ''initrd'') s" "literal_loaded p (dev_str p) (ascii ''dev'') s"
      using ml by (simp_all add: module_loaded_def)
    note L = low [OF this(1), unfolded len] low [OF this(2), unfolded len]
    have "mem t (kphys va) = mem s (kphys va)" using 3(2) L by blast
    then show ?thesis using 3(1) by (simp add: mount_tr_def)
  qed
qed

text \<open>The variables of the kernel that have no bytes in its file.\<close>

lemma bss_not_heap:
  assumes pl: "placed p" and b: "initialBase t = EARLY_KMALLOC_START p"
  shows "block (BSS_START p) (unat (BSS_SIZE p)) \<inter> heap t = {}"
proof -
  note top = placedD(14) [OF pl]
  then have "x \<in> block (BSS_START p) (unat (BSS_SIZE p)) \<longleftrightarrow>
      unat (BSS_START p) \<le> unat x \<and> unat x < unat (BSS_START p) + unat (BSS_SIZE p)" for x
    using u32_less [of "EARLY_KMALLOC_START p"] by (intro mem_block_iff) linarith
  then show ?thesis using top b by (auto simp: heap_def word_le_nat_alt)
qed

text \<open>The run from the loader to the listing, with all that is known of the disk; \<open>E\<close> is a part of \<^verbatim>\<open>.bss\<close> that the view shows too.\<close>

lemma start_mounted:
  fixes s :: "'a kernel_st_scheme"
  assumes "linked z p" "one_table z" "\<not> paging_on s" "module_loaded p mbi load names s"
    and E: "E \<subseteq> block (BSS_START p) (unat (BSS_SIZE p))"
  shows "\<exists>t addr V W. start p eax mbi s =
      kthen (list_files 2147483648 (program.truncate p) 0) (kmodify (\<lambda>s. s\<lparr>intf := True\<rparr>)) t
    \<and> fs_root t = addr + 4096 \<and> unat addr + (12288 + 184 * length names) < 4294967296
    \<and> mountable (mount_region (linkage.truncate p) addr (length names)) (linkage.truncate p) V addr (addr + 4096) names
    \<and> disk_up (mount_region (linkage.truncate p) addr (length names) \<union> E) (mount_tr addr load) (linkage.truncate p)
        addr (addr + 4096) names W t
    \<and> mounted (linkage.truncate p) addr (addr + 4096) names V W
    \<and> (\<forall>va \<in> mount_region (linkage.truncate p) addr (length names). V va = mem s (mount_tr addr load va))
    \<and> heap_for (addr + 4096) (length names) \<subseteq> kernel_heap p \<and> block addr 4096 \<subseteq> kernel_heap p \<and> page_aligned addr
    \<and> kernel_serves (program.truncate p) t \<and> no_timer_functions t"
proof -
  have pl: "placed p" by (rule linked_placed [OF assms(1,2)])
  note pd = placedD [OF pl]
  obtain t where t: "start p eax mbi s =
      kthen (kmain_mount (program.truncate p) mbi)
     (kthen (list_files 2147483648 (program.truncate p) 0) (kmodify (\<lambda>s. s\<lparr>intf := True\<rparr>))) t"
    "kernel_up (program.truncate p) t" "live t" "arena_ok t" "initialBase t = EARLY_KMALLOC_START p"
    "maxBase t = EARLY_KMALLOC_END p" "\<forall>a \<in> heap t. mmu_walk t a = Some (kphys a)"
    "unat (currentBase t) \<le> unat (EARLY_KMALLOC_START p) + 20480"
    "\<forall>x. x \<notin> boot_writes p \<longrightarrow> x \<notin> kphys ` allocated t \<longrightarrow> mem t x = mem s x" "no_timer_functions t"
    using start_up [OF assms(1-3), of eax mbi] by blast
  note rd = launch_ready [OF pl assms(4) t(2-7,9)]
  define addr where "addr = page_up (currentBase t) + 4096"
  have n: "4 + 76 * length names \<le> 4096" using assms(4) by (simp add: module_loaded_def)
  have "unat (currentBase t) \<le> 4294963200" using t(4) by (auto simp: arena_ok_def word_le_nat_alt)
  moreover have "(unat (EARLY_KMALLOC_START p) + 20480) mod 4096 = 0" using pd(15) by (simp add: page_aligned_def mod_eq_0_iff_dvd)
  ultimately have "unat (page_up (currentBase t)) \<le> unat (EARLY_KMALLOC_START p) + 20480" using t(8) by (intro page_up_below)
  then have room: "unat (page_up (currentBase t)) + 16384 + 184 * length names \<le> unat (maxBase t)"
    using n pd(16) by (simp add: t(6))
  have lt: "linkage.truncate (program.truncate p) = linkage.truncate p" by simp
  let ?V = "\<lambda>va. mem t (mount_tr addr load va)"
  have V: "?V va = mem s (mount_tr addr load va)" if "va \<in> mount_region (linkage.truncate p) addr (length names)" for va
    by (rule launch_view [OF pl assms(4) t(4-6,9) addr_def room that])
  have mt: "mountable (mount_region (linkage.truncate p) addr (length names)) (linkage.truncate p) ?V addr (addr + 4096) names"
    by (rule launch_mountable [OF pl assms(4) t(4-6) addr_def room V])
  have Em: "kernel_mapped E load t" using rd(4) [of E] bss_in_kernel [OF pl] bss_not_heap [OF pl t(5)] E by blast
  from kmain_mount_run [of mbi _ load t "program.truncate p", unfolded lt, OF rd(1,2) addr_def room mt Em]
  obtain t' W where t': "kmain_mount (program.truncate p) mbi t = Inr ((), t')" "fs_root t' = addr + 4096"
    "disk_up (mount_region (linkage.truncate p) addr (length names) \<union> E) (mount_tr addr load) (linkage.truncate p)
        addr (addr + 4096) names W t'"
    "mounted (linkage.truncate p) addr (addr + 4096) names ?V W" "interrupts_kept t t'" by blast
  have heap: "heap t = kernel_heap p" by (simp add: kernel_heap_def heap_def t(5,6))
  have up: "kernel_serves (program.truncate p) t'" "no_timer_functions t'"
    using kernel_serves_kept [OF kernel_up_serves [OF t(2)] t'(5)] t'(5) t(10) by (simp_all add: interrupts_kept_def no_timer_functions_def)
  show ?thesis
    by (intro exI [of _ t'] exI [of _ addr] exI [of _ ?V] exI [of _ W] conjI)
      (use t(1) t' V mt up mount_room(1,4,5) [OF t(4) addr_def room] in \<open>simp_all add: heap\<close>)
qed

text \<open>What lies behind the first page of the module, as the driver addresses it: the heap around the root node.\<close>

lemma lost_bytes:
  assumes "i < length datas" "start_of datas i + length (datas ! i) \<le> 8192" "4 + 76 * n \<le> 4096"
    and fits: "unat addr + (12288 + 184 * n) < 4294967296"
  defines "B \<equiv> block (addr + of_nat (start_of datas i)) (length (datas ! i))"
  shows "B \<subseteq> heap_for (addr + 4096) n" "B \<inter> node_memory (addr + 4096) n = {}" "B \<inter> block addr (4 + 76 * n) = {}"
proof -
  have u: "unat (addr + of_nat k) = unat addr + k" if "k \<le> 12288" for k
    by (rule unat_add_of_nat) (use that fits in simp)
  have lo: "4868 \<le> start_of datas i" by (simp add: start_of_def)
  have B: "x \<in> B \<Longrightarrow> unat addr + 4868 \<le> unat x \<and> unat x < unat addr + 8192" for x
    using mem_block_iff [of "addr + of_nat (start_of datas i)" "length (datas ! i)" x] u [of "start_of datas i"] assms(2) fits lo
    by (simp add: B_def)
  have p: "unat (addr + 4096) = unat addr + 4096" "unat (addr + 4096 + 4096) = unat addr + 8192"
      "unat (addr + 4096 + 8192) = unat addr + 12288"
    using u [of 4096] u [of 8192] u [of 12288] by (simp_all add: add.assoc)
  show "B \<subseteq> heap_for (addr + 4096) n"
    using B mem_block_iff [of "addr + 4096" "8192 + 184 * n"] p(1) fits by (fastforce simp: heap_for_def)
  show "B \<inter> block addr (4 + 76 * n) = {}"
    using B mem_block_iff [of addr "4 + 76 * n"] assms(3) fits by fastforce
  have "x \<notin> block (addr + 4096) 184" "x \<notin> block (addr + 4096 + 4096) 184" "x \<notin> block (addr + 4096 + 8192) (184 * n)"
    if "x \<in> B" for x
    using B [OF that] p fits mem_block_iff [of "addr + 4096" 184 x] mem_block_iff [of "addr + 4096 + 4096" 184 x]
      mem_block_iff [of "addr + 4096 + 8192" "184 * n" x] by auto
  then show "B \<inter> node_memory (addr + 4096) n = {}" by (auto simp: node_memory_def)
qed

text \<open>A file of the image after the mount: its header is right and its bytes are zero.\<close>

lemma lost_file:
  assumes mt: "mountable (mount_region lk addr (length names)) lk V addr (addr + 4096) names"
    and md: "mounted lk addr (addr + 4096) names V W"
    and V: "\<forall>va \<in> mount_region lk addr (length names). V va = m (mount_tr addr load va)"
    and im: "image_of names datas img" "loaded m load (take 4096 img)"
    and fits: "4 + 76 * length names \<le> 4096" "unat addr + (12288 + 184 * length names) < 4294967296"
    and i: "i < length datas" "start_of datas i + length (datas ! i) \<le> 8192"
  defines "B \<equiv> block (addr + of_nat (start_of datas i)) (length (datas ! i))"
  shows "get32 W (file_offset (hdr addr i)) = addr + of_nat (start_of datas i)"
    "unat (get32 W (file_length (hdr addr i))) = length (datas ! i)"
    "vread W (addr + of_nat (start_of datas i)) (length (datas ! i)) = replicate (length (datas ! i)) 0"
    "B \<subseteq> mount_region lk addr (length names)"
proof -
  let ?n = "length names"
  have n: "?n = length datas" and len: "length img = start_of datas (length datas)" using im(1) by (simp_all add: image_of_def)
  have big: "4096 \<le> length img" by (simp add: len start_of_def)
  have ld: "loaded V addr (take 4096 img)"
    using V im(2) by (auto simp: loaded_def mount_region_def mount_tr_def block_mem)
  have word: "get32 V (addr + of_nat k) = word_at img k" if "k + 4 \<le> 4096" for k
    using loaded_word [OF ld, of k] that big by (simp add: word_at_def)
  have "76 * Suc i \<le> 76 * ?n" using i(1) n by (intro mult_le_mono2) simp
  then have h: "4 + 76 * i + 76 \<le> 4096" using fits(1) by simp
  have "get32 V (file_offset (hdr addr i)) = of_nat (start_of datas i)" "get32 V (file_length (hdr addr i)) = of_nat (length (datas ! i))"
    using word [of "4 + 76 * i + 68"] word [of "4 + 76 * i + 72"] h im(1) i(1)
    by (simp_all add: image_of_def header_layout hdr_def add.assoc)
  then show "get32 W (file_offset (hdr addr i)) = addr + of_nat (start_of datas i)"
      "unat (get32 W (file_length (hdr addr i))) = length (datas ! i)"
    using md i unat_of_nat_u32 [of "length (datas ! i)"] by (simp_all add: mounted_def file_done_def n add.commute)
  note lost = lost_bytes [OF i fits, folded B_def]
  have al: "aligned4 addr" using mt by (simp add: mountable_def image_ok_def)
  have "W x = 0" if "x \<in> B" for x
  proof -
    have "x \<notin> word_bytes (file_offset (hdr addr j))" if "j < ?n" for j
      using hdr_offset_block [OF al, of j] slot_blocks(1) [OF that, of addr] lost(3) \<open>x \<in> B\<close> by blast
    then have "W x = V x" using md lost(2) that by (auto simp: mounted_def)
    then show ?thesis using mt lost(1) that by (auto simp: mountable_def)
  qed
  then show "vread W (addr + of_nat (start_of datas i)) (length (datas ! i)) = replicate (length (datas ! i)) 0"
    by (intro nth_equalityI) (simp_all add: vread_def block_mem B_def)
  show "B \<subseteq> mount_region lk addr ?n" using lost(1) by (auto simp: mount_region_def)
qed

section \<open>Properties\<close>

text \<open>
  C5: from the loader to the mounted disk. For a kernel that \<^verbatim>\<open>linker.ld\<close> lays out, entered with paging off and with a
  page-aligned module whose first page holds the headers of an image, \<open>_start\<close> reaches the listing with \<open>fs_root\<close> the root
  of a mounted disk; every byte of the disk comes from the loader's memory: its headers from the first page of the module, its
  nodes from fresh pages of the early heap. No hypothesis speaks of a state between the loader and the listing.
\<close>

theorem start_mounts_module:
  fixes s :: "'a kernel_st_scheme"
  assumes "linked z p" "one_table z" "\<not> paging_on s" "module_loaded p mbi load names s"
  shows "\<exists>t addr V W. start p eax mbi s =
      kthen (list_files 2147483648 (program.truncate p) 0) (kmodify (\<lambda>s. s\<lparr>intf := True\<rparr>)) t
    \<and> fs_root t = addr + 4096
    \<and> disk_up (mount_region (linkage.truncate p) addr (length names)) (mount_tr addr load) (linkage.truncate p)
        addr (addr + 4096) names W t
    \<and> mounted (linkage.truncate p) addr (addr + 4096) names V W
    \<and> (\<forall>va \<in> mount_region (linkage.truncate p) addr (length names). V va = mem s (mount_tr addr load va))"
  using start_mounted [OF assms empty_subsetI] by simp blast

text \<open>
  C13: the kernel loses the contents of the files. When the module is an image of the build tool, every file that ends within
  the second page of the image is held by its node with its right length and all bytes zero, whatever its bytes are in
  the image: \<open>kmain\<close> maps the first page of the module only, and the addresses behind it are the heap around the root node.
\<close>

theorem start_loses_contents:
  fixes s :: "'a kernel_st_scheme"
  assumes "linked z p" "one_table z" "\<not> paging_on s" "module_loaded p mbi load names s"
    and "image_of names datas img" "loaded (mem s) load (take 4096 img)"
    and "i < length datas" "0 < length (datas ! i)" "start_of datas i + length (datas ! i) \<le> 8192"
  shows "\<exists>t addr. start p eax mbi s =
      kthen (list_files 2147483648 (program.truncate p) 0) (kmodify (\<lambda>s. s\<lparr>intf := True\<rparr>)) t
    \<and> file_holds (mount_region (linkage.truncate p) addr (length names)) (mount_tr addr load) t
        (nod (addr + 12288) i) (replicate (length (datas ! i)) 0)"
proof -
  let ?n = "length names" and ?lk = "linkage.truncate p"
  obtain t addr V W where t: "start p eax mbi s =
      kthen (list_files 2147483648 (program.truncate p) 0) (kmodify (\<lambda>s. s\<lparr>intf := True\<rparr>)) t"
    "unat addr + (12288 + 184 * ?n) < 4294967296" "mountable (mount_region ?lk addr ?n) ?lk V addr (addr + 4096) names"
    "disk_up (mount_region ?lk addr ?n) (mount_tr addr load) ?lk addr (addr + 4096) names W t"
    "mounted ?lk addr (addr + 4096) names V W" "\<forall>va \<in> mount_region ?lk addr ?n. V va = mem s (mount_tr addr load va)"
    using start_mounted [OF assms(1-4) empty_subsetI, of eax] by simp blast
  have n: "?n = length datas" using assms(5) by (simp add: image_of_def)
  have small: "4 + 76 * ?n \<le> 4096" using assms(4) by (simp add: module_loaded_def)
  note lost = lost_file [OF t(3,5,6) assms(5,6) small t(2) assms(7,9)]
  have r: "addr + 4096 + 8192 = addr + 12288" by simp
  have "file_holds (mount_region ?lk addr ?n) (mount_tr addr load) t (nod (addr + 12288) i) (replicate (length (datas ! i)) 0)"
    by (rule disk_file_holds(1) [OF t(4), of i, unfolded r lost(1-3)]) (use assms(7) n lost(4) in simp_all)
  with t(1) show ?thesis by blast
qed

section \<open>A machine with a module\<close>

text \<open>The information structure at \<open>0x9000\<close>, the module list at \<open>0x400000\<close>, the first page of an image with two files at \<open>0x401000\<close>.\<close>

definition launch_program :: boot_program where
  "launch_program = (image_of_sizes sample_sizes)\<lparr>dev_str := 0xC010B010, initrd_str := 0xC010B000,
     dentry := 0xC010D100, buf_at := 0xC0111000\<rparr>"

definition launch_words :: "nat \<Rightarrow> u32" where
  "launch_words n =
     (if n = 9222 then 0x400000 else if n = 1048576 then 0x401000
      else if n = 273408 then 0x74696E69 else if n = 273409 then 0x6472 else if n = 273412 then 0x766564 else 0)"

definition launch_mem :: "u8 list \<Rightarrow> u32 \<Rightarrow> u8" where
  "launch_mem img x = (if x \<in> block 0x401000 4096 then img ! unat (x - 0x401000) else words_mem launch_words x)"

definition launch_with :: "u8 list \<Rightarrow> kernel_st" where
  "launch_with img = loaded_kernel\<lparr>mem := launch_mem img\<rparr>"

abbreviation launch_state :: kernel_st where "launch_state \<equiv> launch_with sample_img"

lemma launch_mem_low: "unat x < 0x401000 \<Longrightarrow> mem (launch_with img) x = words_mem launch_words x"
  by (simp add: launch_with_def launch_mem_def mem_block_iff)

lemma launch_linked: "linked sample_sizes launch_program"
  by (simp add: launch_program_def linked_def image_of_sizes_def link_script_def align_to_def sample_sizes_def Let_def
      program.defs aligned4_def)

lemma launch_fields:
  "KERNEL_START launch_program = 0xC0106000" "KERNEL_END launch_program = 0xC0213000" "BSS_START launch_program = 0xC010D000"
  "EARLY_KMALLOC_START launch_program = 0xC0113000" "EARLY_KMALLOC_END launch_program = 0xC0213000"
  "initrd_str launch_program = 0xC010B000" "dev_str launch_program = 0xC010B010"
  by (simp_all add: launch_program_def image_of_sizes_def link_script_def align_to_def sample_sizes_def Let_def program.defs)

lemma launch_off: "\<not> paging_on (launch_with img)"
  using loaded_off by (simp add: launch_with_def)

lemma launch_byte:
  "unat a mod 4096 = 0 \<Longrightarrow> k < 4096 \<Longrightarrow> words_mem launch_words (a + of_nat k) = byte_of (k mod 4) (launch_words (unat a div 4 + k div 4))"
proof -
  assume a: "unat a mod 4096 = 0" and k: "k < 4096"
  then obtain q where q: "unat a = 4096 * q" by auto
  have "unat (a + of_nat k) = unat a + k"
    using page_block_fits [of a] a k by (intro unat_add_of_nat) (simp add: page_aligned_def)
  moreover have dv: "(4 * c + k) div 4 = c + k div 4" "(4 * c + k) mod 4 = k mod 4" for c by simp_all
  have "unat a + k = 4 * (1024 * q) + k" "unat a div 4 = 1024 * q" by (simp_all add: q)
  ultimately show ?thesis by (simp only: words_mem_def dv)
qed

lemma launch_literals:
  "literal_loaded launch_program 0xC010B000 (ascii ''initrd'') (launch_with img)"
  "literal_loaded launch_program 0xC010B010 (ascii ''dev'') (launch_with img)"
proof -
  have "words_mem launch_words (0x10B000 + of_nat 0) = 105" "words_mem launch_words (0x10B000 + of_nat 1) = 110"
    "words_mem launch_words (0x10B000 + of_nat 2) = 105" "words_mem launch_words (0x10B000 + of_nat 3) = 116"
    "words_mem launch_words (0x10B000 + of_nat 4) = 114" "words_mem launch_words (0x10B000 + of_nat 5) = 100"
    "words_mem launch_words (0x10B000 + of_nat 6) = 0" "words_mem launch_words (0x10B000 + of_nat 16) = 100"
    "words_mem launch_words (0x10B000 + of_nat 17) = 101" "words_mem launch_words (0x10B000 + of_nat 18) = 118"
    "words_mem launch_words (0x10B000 + of_nat 19) = 0"
    by (subst launch_byte; simp add: launch_words_def byte_of_def)+
  note low = this [simplified]
  have "vstr (\<lambda>va. words_mem launch_words (kphys va)) 0xC010B000 (ascii ''initrd'')"
    "vstr (\<lambda>va. words_mem launch_words (kphys va)) 0xC010B010 (ascii ''dev'')"
    using low by (auto simp: vstr_def ascii_names less_Suc_eq nth_Cons' kphys_def)
  moreover have "mem (launch_with img) (kphys x) = words_mem launch_words (kphys x)" if "x \<in> block 0xC010B000 32" for x
  proof -
    have "3222319104 \<le> unat x" "unat x < 3222319136" using that by (simp_all add: mem_block_iff)
    then have "unat (kphys x) < 0x401000" by (simp add: kphys_def unat_sub_le word_le_nat_alt)
    then show ?thesis by (rule launch_mem_low)
  qed
  moreover have "block 0xC010B000 (Suc (length (ascii ''initrd''))) \<subseteq> block 0xC010B000 32"
    "block 0xC010B010 (Suc (length (ascii ''dev''))) \<subseteq> block 0xC010B000 32"
    by (auto simp: ascii_names mem_block_iff)
  ultimately have "vstr (\<lambda>va. mem (launch_with img) (kphys va)) 0xC010B000 (ascii ''initrd'')"
    "vstr (\<lambda>va. mem (launch_with img) (kphys va)) 0xC010B010 (ascii ''dev'')"
    by (auto intro: vstr_cong)
  then show "literal_loaded launch_program 0xC010B000 (ascii ''initrd'') (launch_with img)"
    "literal_loaded launch_program 0xC010B010 (ascii ''dev'') (launch_with img)"
    by (simp_all add: literal_loaded_def launch_fields) (simp_all add: ascii_names)
qed

lemma launch_heap: "EARLY_KMALLOC_START launch_program \<le> a \<Longrightarrow> a < EARLY_KMALLOC_END launch_program \<Longrightarrow>
    mem (launch_with img) (kphys a) = 0"
proof -
  assume "EARLY_KMALLOC_START launch_program \<le> a" "a < EARLY_KMALLOC_END launch_program"
  then have a: "3222351872 \<le> unat a" "unat a < 3223400448" by (simp_all add: launch_fields word_le_nat_alt word_less_nat_alt)
  then have "unat (kphys a) = unat a - 3221225472" by (simp add: kphys_def unat_sub_le word_le_nat_alt)
  with a have "281600 \<le> unat (kphys a) div 4" "unat (kphys a) div 4 < 543744" by simp_all
  then have "launch_words (unat (kphys a) div 4) = 0" by (simp add: launch_words_def)
  moreover have "unat (kphys a) < 0x401000" using \<open>unat (kphys a) = _\<close> a by simp
  ultimately show ?thesis using launch_mem_low [of "kphys a"] by (simp add: words_mem_def byte_of_def)
qed

lemma launch_image: "loaded (mem (launch_with img)) 0x401000 (take 4096 img)"
proof -
  have "launch_mem img (0x401000 + of_nat j) = img ! j" if "j < 4096" for j
    using that unat_of_nat_u32 [of j] by (simp add: launch_mem_def block_mem)
  then show ?thesis by (simp add: loaded_def launch_with_def)
qed

lemma launch_headers:
  assumes "image_of sample_names datas img" "length img \<le> 4872"
  shows "image_ok (block 0x401000 4096) (mem (launch_with img)) 0x401000 sample_names"
proof -
  let ?V = "\<lambda>x :: u32. img ! unat (x - 0x401000)" and ?D = "block (0x401000 :: u32) (length img)"
  have "unat (of_nat i :: u32) = i" if "i < length img" for i using that assms(2) by (intro unat_of_nat_u32) simp
  then have "loaded ?V 0x401000 img" by (auto simp: loaded_def)
  then have "image_ok ?D ?V 0x401000 sample_names"
    using assms(1) sample_good by (rule loaded_image_ok(1)) (use assms(2) in \<open>simp_all add: aligned4_def\<close>)
  moreover have sub: "block (0x401000 :: u32) 156 \<subseteq> block 0x401000 4096" by (rule block_mono) simp
  ultimately have "image_ok (block 0x401000 4096) ?V 0x401000 sample_names" by (simp add: image_ok_def sample_count)
  then show ?thesis
    by (rule image_ok_cong) (use sub in \<open>auto simp: launch_with_def launch_mem_def sample_count\<close>)
qed

lemma launch_word: "aligned4 a \<Longrightarrow> unat a < 0x401000 \<Longrightarrow> get32 (mem (launch_with img)) a = launch_words (unat a div 4)"
proof -
  assume a: "aligned4 a" "unat a < 0x401000"
  have "get32 (mem (launch_with img)) a = get32 (words_mem launch_words) a"
  proof (rule get32_cong)
    fix x
    assume "x \<in> word_bytes a"
    moreover have "unat a + 3 < 0x401000" using a by (simp add: aligned4_def mod_eq_0_iff_dvd) presburger
    ultimately have "unat x < 0x401000"
      using aligned4_plus [OF a(1), of 1] aligned4_plus [OF a(1), of 2] aligned4_plus [OF a(1), of 3] by (auto simp: word_bytes_def)
    then show "mem (launch_with img) x = words_mem launch_words x" by (rule launch_mem_low)
  qed
  then show ?thesis by (simp add: get32_words_mem a(1))
qed

lemma launch_module_with:
  assumes "image_of sample_names datas img" "length img \<le> 4872"
  shows "module_loaded launch_program 0x9000 0x401000 sample_names (launch_with img)"
proof -
  have "get32 (mem (launch_with img)) 0x9018 = 0x400000" "get32 (mem (launch_with img)) 0x400000 = 0x401000"
    by (subst launch_word; simp add: aligned4_def launch_words_def)+
  moreover have "outside launch_program (block 0x400000 8)" "outside launch_program (block 0x401000 4096)"
    by (simp_all add: outside_def launch_fields mem_block_iff)
  ultimately show ?thesis
    using launch_literals launch_heap launch_headers [OF assms]
    by (simp add: module_loaded_def Let_def mbi_mods_addr_def mod_start_def aligned4_def page_aligned_def launch_fields sample_count)
qed

lemma launch_module: "module_loaded launch_program 0x9000 0x401000 sample_names launch_state"
  by (rule launch_module_with [OF sample_image(2)]) (simp add: sample_img_length)

theorem start_mounts_module_witness:
  "\<exists>t. start launch_program 0x2BADB002 0x9000 launch_state =
      kthen (list_files 2147483648 (program.truncate launch_program) 0) (kmodify (\<lambda>s. s\<lparr>intf := True\<rparr>)) t
    \<and> nroot_nodes t = 2"
proof -
  from start_mounts_module [OF launch_linked sample_linked(2) launch_off launch_module, of "0x2BADB002"]
  show ?thesis by (auto simp: disk_up_def disk_state_def sample_count)
qed

text \<open>The file \<open>a\<close> of the image has the bytes 72, 105, 0.\<close>

theorem start_loses_contents_witness:
  "\<exists>t addr. sample_datas ! 0 = [72, 105, 0] \<and> start launch_program 0x2BADB002 0x9000 launch_state =
      kthen (list_files 2147483648 (program.truncate launch_program) 0) (kmodify (\<lambda>s. s\<lparr>intf := True\<rparr>)) t
    \<and> file_holds (mount_region (linkage.truncate launch_program) addr (length sample_names)) (mount_tr addr 0x401000) t
        (nod (addr + 12288) 0) [0, 0, 0]"
proof -
  have d: "sample_datas ! 0 = [72, 105, 0]" "0 < length sample_datas" "replicate (length (sample_datas ! 0)) (0 :: u8) = [0, 0, 0]"
      "0 < length (sample_datas ! 0)" "start_of sample_datas 0 + length (sample_datas ! 0) \<le> 8192"
    by (simp_all add: sample_datas_def start_of_def numeral_3_eq_3)
  from start_loses_contents [OF launch_linked sample_linked(2) launch_off launch_module sample_image(2) launch_image d(2,4,5), of "0x2BADB002"]
  show ?thesis unfolding d(3) using d(1) by blast
qed

end
