(* ===== verification/Listing.thy ===== *)
theory Listing
  imports Kernel
begin

text \<open>
  The listing of the ramdisk by \<open>kmain\<close>, from the mounted disk to the text on the screen: the printed texts, the files of
  a mounted disk with their contents, one round of the loop, and the loop.
\<close>

section \<open>What the kernel prints\<close>

lemma render_texts:
  "length nm < 2147483648 \<Longrightarrow> render ''Found file %s'' (va_start [VStr nm]) = Inr (''Found file '' @ nm)"
  "length nm < 2147483648 \<Longrightarrow> render ''content: %s'' (va_start [VStr nm]) = Inr (''content: '' @ nm)"
  "render ''(directory)'' (va_start []) = Inr ''(directory)''"
  by (simp_all add: directive_letter conv_text_s del: arg_units.simps)

text \<open>The characters of a string in memory.\<close>

definition text_of :: "u8 list \<Rightarrow> string" where
  "text_of cs = map (\<lambda>c. char_of (unat c)) cs"

lemma string_from_view:
  assumes "view D tr V s" "vstr V a cs" "block a (Suc (length cs)) \<subseteq> D" "unat a + length cs < 4294967296"
  shows "string_from a s = Inr (text_of cs, s)"
  using assms(2-4)
proof (induction cs arbitrary: a)
  case Nil
  then have "load8 a s = Inr (0, s)"
    using assms(1) vm.load8_region [of D tr s a] by (auto simp: view_def vstr_def)
  then show ?case by (simp add: string_from.simps text_of_def)
next
  case (Cons c cs)
  then have in_D: "a \<in> D" "block (a + 1) (Suc (length cs)) \<subseteq> D" by (simp_all add: block_Cons)
  have c: "c \<noteq> 0" "V a = c" "vstr V (a + 1) cs"
    using Cons.prems(1) by (auto simp: vstr_def add.assoc)
  have "load8 a s = Inr (c, s)" using assms(1) vm.load8_region [of D tr s a] in_D(1) c(2) by (auto simp: view_def)
  moreover have "a + 1 \<noteq> 0" "unat (a + 1) = unat a + 1" using Cons.prems(3) unat_add_of_nat [of a 1] by auto
  moreover have "string_from (a + 1) s = Inr (text_of cs, s)"
    using Cons.prems(3) calculation(3) by (intro Cons.IH c in_D) simp
  ultimately show ?case using c(1) by (subst string_from.simps) (simp add: text_of_def)
qed

section \<open>The mounted files\<close>

text \<open>A mounted disk together with the contents of its files, at the places where the image has them.\<close>

definition disk_full ::
  "u32 set \<Rightarrow> (u32 \<Rightarrow> u32) \<Rightarrow> linkage \<Rightarrow> u32 \<Rightarrow> u32 \<Rightarrow> u8 list list \<Rightarrow> u8 list list \<Rightarrow> (u32 \<Rightarrow> u8) \<Rightarrow> 'a ramdisk_st_scheme \<Rightarrow> bool" where
  "disk_full D tr lk addr r names datas W s \<longleftrightarrow> disk_up D tr lk addr r names W s
     \<and> length names = length datas \<and> length datas \<le> 64 \<and> block addr (start_of datas (length datas)) \<subseteq> D
     \<and> (\<forall>i<length datas. get32 W (file_offset (hdr addr i)) = addr + of_nat (start_of datas i)
          \<and> unat (get32 W (file_length (hdr addr i))) = length (datas ! i)
          \<and> vread W (addr + of_nat (start_of datas i)) (length (datas ! i)) = datas ! i)"

text \<open>All of the disk: nodes, headers and data.\<close>

definition disk_range :: "linkage \<Rightarrow> u32 \<Rightarrow> u32 \<Rightarrow> u8 list list \<Rightarrow> u32 set" where
  "disk_range lk addr r datas =
     heap_for r (length datas) \<union> block addr (start_of datas (length datas)) \<union> block (dev_str lk) 4"

lemma disk_range_memory:
  assumes "length datas \<le> 64"
  shows "disk_memory addr r (length datas) \<union> block (dev_str lk) 4 \<subseteq> disk_range lk addr r datas"
proof -
  have "4 + 76 * length datas \<le> start_of datas (length datas)" using assms by (simp add: start_of_def)
  then have "block addr (4 + 76 * length datas) \<subseteq> block addr (start_of datas (length datas))" by (rule block_mono)
  then show ?thesis by (auto simp: disk_memory_def disk_range_def)
qed

lemma disk_full_frame:
  assumes full: "disk_full D tr lk addr r names datas W s" and v: "view D tr W' s'" "disk_state addr r (length names) s'"
    and same: "\<And>x. x \<in> disk_range lk addr r datas \<Longrightarrow> W' x = W x"
  shows "disk_full D tr lk addr r names datas W' s'"
proof -
  have up: "disk_up D tr lk addr r names W s" and n: "length names = length datas" "length datas \<le> 64"
    using full by (simp_all add: disk_full_def)
  have mem: "W' x = W x" if "x \<in> disk_memory addr r (length names) \<union> block (dev_str lk) 4" for x
    using that disk_range_memory [OF n(2), of addr r lk] same by (auto simp: n(1))
  have "disk_up D tr lk addr r names W' s'" by (rule disk_up_frame [OF up v mem])
  moreover have "get32 W' (file_offset (hdr addr i)) = get32 W (file_offset (hdr addr i))"
      "get32 W' (file_length (hdr addr i)) = get32 W (file_length (hdr addr i))"
      "vread W' (addr + of_nat (start_of datas i)) (length (datas ! i)) = vread W (addr + of_nat (start_of datas i)) (length (datas ! i))"
    if i: "i < length datas" for i
  proof -
    note nd = disk_node [OF up i [folded n(1)]]
    show "get32 W' (file_offset (hdr addr i)) = get32 W (file_offset (hdr addr i))"
        "get32 W' (file_length (hdr addr i)) = get32 W (file_length (hdr addr i))"
      using header_fields [OF nd(4)] nd(3) by (auto intro!: get32_cong mem)
    have "block (addr + of_nat (start_of datas i)) (length (datas ! i)) \<subseteq> block addr (start_of datas (length datas))"
      by (rule sub_block [OF start_of_fits [OF i]])
    then show "vread W' (addr + of_nat (start_of datas i)) (length (datas ! i)) = vread W (addr + of_nat (start_of datas i)) (length (datas ! i))"
      by (intro vread_cong same) (auto simp: disk_range_def)
  qed
  ultimately show ?thesis using full by (simp add: disk_full_def)
qed

text \<open>Memory of the caller that the disk does not use: the static directory entry, and a buffer.\<close>

definition dentry_placed :: "u32 set \<Rightarrow> linkage \<Rightarrow> u32 \<Rightarrow> u32 \<Rightarrow> u8 list list \<Rightarrow> bool" where
  "dentry_placed D lk addr r datas \<longleftrightarrow> aligned4 (dentry lk) \<and> dentry lk \<noteq> 0 \<and> block (dentry lk) 68 \<subseteq> D
     \<and> block (dentry lk) 68 \<inter> disk_range lk addr r datas = {} \<and> unat (dentry lk) + 68 \<le> 4294967296"

definition buffers_ok :: "u32 set \<Rightarrow> linkage \<Rightarrow> u32 \<Rightarrow> u32 \<Rightarrow> u32 \<Rightarrow> u8 list list \<Rightarrow> bool" where
  "buffers_ok D lk b addr r datas \<longleftrightarrow> dentry_placed D lk addr r datas \<and> block b 256 \<subseteq> D
     \<and> block b 256 \<inter> (disk_range lk addr r datas \<union> block (dentry lk) 68) = {} \<and> unat b + 256 \<le> 4294967296"

lemma buffers_dentry:
  assumes "dentry_placed D lk addr r datas" "length datas \<le> 64"
  shows "dentry_ok D lk addr r (length datas)"
  using assms disk_range_memory [OF assms(2), of addr r lk] unfolding dentry_placed_def dentry_ok_def by blast

section \<open>One entry\<close>

text \<open>
  The text for the entry at an index: the name, then for \<open>dev\<close> a note and for a file the low byte of its address,
  which the driver prints, and the content up to its first zero byte.
\<close>

definition entry_text :: "u32 \<Rightarrow> u8 list list \<Rightarrow> u8 list list \<Rightarrow> nat \<Rightarrow> string" where
  "entry_text addr names datas k =
     ''Found file '' @ text_of (fst (listed names k)) @ [CHR 0x0A] @
     (case k of 0 \<Rightarrow> ''(directory)''
      | Suc i \<Rightarrow> byte_text (addr + of_nat (start_of datas i)) @ ''content: '' @ text_of (takeWhile (\<lambda>c. c \<noteq> 0) (datas ! i))) @
     [CHR 0x0A]"

lemma text_of_length [simp]: "length (text_of cs) = length cs"
  by (simp add: text_of_def)

lemma terminated_vstr:
  assumes "0 \<in> set cs" "length cs \<le> 4294967296"
  shows "vstr (vwrite b cs V) b (takeWhile (\<lambda>c. c \<noteq> 0) cs)" "length (takeWhile (\<lambda>c. c \<noteq> 0) cs) < length cs"
proof -
  let ?t = "takeWhile (\<lambda>c. c \<noteq> 0) cs"
  show len: "length ?t < length cs" using assms(1) by (induction cs) auto
  then have "cs ! length ?t = 0" using nth_length_takeWhile [of "\<lambda>c. c \<noteq> 0" cs] by simp
  moreover have "cs ! i = ?t ! i" if "i < length ?t" for i using that by (simp add: takeWhile_nth)
  moreover have "0 \<notin> set ?t" by (auto dest: set_takeWhileD)
  moreover have "vwrite b cs V (b + of_nat i) = cs ! i" if "i < length cs" for i
    using that assms(2) by (simp add: vwrite_def addr_nat block_mem)
  ultimately show "vstr (vwrite b cs V) b ?t" using len by (simp add: vstr_def)
qed

text \<open>The function pointers of the nodes, and where they lead.\<close>

definition pointers_ok :: "program \<Rightarrow> bool" where
  "pointers_ok p \<longleftrightarrow> finddir_addr p \<noteq> 0 \<and> readdir_addr p \<noteq> 0 \<and> read_addr p \<noteq> 0"

lemma truncated [simp]:
  "finddir_addr (linkage.truncate p) = finddir_addr p" "readdir_addr (linkage.truncate p) = readdir_addr p"
  "read_addr (linkage.truncate p) = read_addr p"
  by (simp_all add: linkage.truncate_def)

lemma pointer_runs:
  "run_finddir p (finddir_addr p) = finddir (linkage.truncate p)"
  "run_readdir p (readdir_addr p) = readdir (linkage.truncate p)" "run_read p (read_addr p) = read"
  by (simp_all add: run_finddir_def run_readdir_def run_read_def)

text \<open>The head of a round: the name is printed and looked up.\<close>

lemma entry_head:
  fixes s :: "'a kernel_st_scheme" and nm :: "u8 list"
  assumes lk: "lk = linkage.truncate p"
    and full: "disk_full D tr lk addr r names datas W s" and b: "buffers_ok D lk (buf_at p) addr r datas"
    and ptr: "pointers_ok p" "fs_root s = r" and nm: "vstr W (dentry lk) nm" "length nm < 64"
  defines "s' \<equiv> s\<lparr>con := show_text (''Found file '' @ text_of nm @ [CHR 0x0A]) (con s)\<rparr>"
  shows "string_from (dentry lk) s = Inr (text_of nm, s)"
    "k_printfln (Some ''Found file %s'') [VStr (text_of nm)] s = Inr ((), s')"
    "finddir_fs (run_finddir p) r (dentry lk) s' = Inr (node_of r names nm, s')"
    "disk_full D tr lk addr r names datas W s'"
proof -
  have up: "disk_up D tr lk addr r names W s" using full by (simp add: disk_full_def)
  have blk: "block (dentry lk) (Suc (length nm)) \<subseteq> D" "unat (dentry lk) + length nm < 4294967296"
    using b nm(2) block_mono [of "Suc (length nm)" 68 "dentry lk"] by (auto simp: buffers_ok_def dentry_placed_def)
  show "string_from (dentry lk) s = Inr (text_of nm, s)"
    using up by (intro string_from_view [where D = D and tr = tr, OF _ nm(1) blk]) (simp add: disk_up_def)
  show "k_printfln (Some ''Found file %s'') [VStr (text_of nm)] s = Inr ((), s')"
    using k_printfln_shows [OF render_texts(1), of "text_of nm" s] nm(2) by (simp add: s'_def)
  show full': "disk_full D tr lk addr r names datas W s'"
    using full by (rule disk_full_frame) (use up in \<open>auto simp: s'_def disk_up_def disk_state_def intro: view_frame\<close>)
  then have up': "disk_up D tr lk addr r names W s'" by (simp add: disk_full_def)
  have at: "name_at D W (dentry lk) nm" using nm blk(1) by (simp add: name_at_def)
  show "finddir_fs (run_finddir p) r (dentry lk) s' = Inr (node_of r names nm, s')"
    using finddir_fs_run [where run = "run_finddir p", OF up' at] ptr(1)
    by (simp add: lk pointers_ok_def pointer_runs)
qed

lemma show_entry_dev:
  fixes s :: "'a kernel_st_scheme"
  assumes lk: "lk = linkage.truncate p"
    and full: "disk_full D tr lk addr r names datas W s" and b: "buffers_ok D lk (buf_at p) addr r datas"
    and ptr: "pointers_ok p" "fs_root s = r" "vstr W (dentry lk) (ascii ''dev'')"
  shows "show_entry p (dentry lk) s = Inr ((), s\<lparr>con := show_text (entry_text addr names datas 0) (con s)\<rparr>)"
proof -
  let ?nm = "ascii ''dev''"
  have len: "length ?nm < 64" by (simp add: ascii_names)
  let ?s = "s\<lparr>con := show_text (''Found file '' @ text_of ?nm @ [CHR 0x0A]) (con s)\<rparr>"
  note hd = entry_head [OF lk full b ptr len]
  have "disk_up D tr lk addr r names W ?s" using hd(4) by (simp add: disk_full_def)
  then have fl: "load32 (inode_flags (r + 4096)) ?s = Inr (FS_DIRECTORY, ?s)"
    unfolding inode_layout_nat by (rule dir_load(2)) (simp add: dir_fields_def)
  have "node_of r names ?nm = r + 4096" by (simp add: node_of_def)
  moreover have "k_printfln (Some ''(directory)'') [] ?s = Inr ((), ?s\<lparr>con := show_text (''(directory)'' @ [CHR 0x0A]) (con ?s)\<rparr>)"
    by (rule k_printfln_shows [OF render_texts(3)])
  ultimately show ?thesis
    using hd(1-3) fl ptr(2) by (simp add: show_entry_def entry_text_def listed_def flip: show_text_append)
qed

text \<open>Reading a part of a file into memory of the caller.\<close>

lemma file_read:
  fixes s :: "'a kernel_st_scheme" and i :: nat
  assumes lk: "lk = linkage.truncate p" and full: "disk_full D tr lk addr r names datas W s" and ptr: "pointers_ok p"
    and i: "i < length datas" and sz: "unat off + unat n < 4294967296"
    and b: "block b (unat n) \<subseteq> D" "block b (unat n) \<inter> disk_range lk addr r datas = {}"
  defines "part \<equiv> take (unat n) (drop (unat off) (datas ! i))"
    and "c \<equiv> if length (datas ! i) < unat off then con s else show_text (byte_text (addr + of_nat (start_of datas i))) (con s)"
  shows "\<exists>mm. read_fs (run_read p) (nod (r + 8192) i) off n b s = Inr (of_nat (length part), s\<lparr>con := c, mem := mm\<rparr>)
    \<and> disk_full D tr lk addr r names datas (vwrite b part W) (s\<lparr>con := c, mem := mm\<rparr>)"
proof -
  let ?node = "nod (r + 8192) i"
  have up: "disk_up D tr lk addr r names W s" and n: "length names = length datas" "length datas \<le> 64"
    and D: "block addr (start_of datas (length datas)) \<subseteq> D"
    and fl0: "get32 W (file_offset (hdr addr i)) = addr + of_nat (start_of datas i)"
      "unat (get32 W (file_length (hdr addr i))) = length (datas ! i)"
      "vread W (addr + of_nat (start_of datas i)) (length (datas ! i)) = datas ! i"
    using full i by (simp_all add: disk_full_def)
  have i': "i < length names" using i n by simp
  note nd = disk_node [OF up i']
  have data: "block (addr + of_nat (start_of datas i)) (length (datas ! i)) \<subseteq> block addr (start_of datas (length datas))"
    by (rule sub_block [OF start_of_fits [OF i]])
  then have node: "node_header s W ?node = hdr addr i" "node_in D s W ?node"
    using disk_file_holds(2,4) [OF up i'] D unfolding fl0 by blast+
  then have st: "file_start s W ?node = addr + of_nat (start_of datas i)" "unat (file_count s W ?node) = length (datas ! i)"
    using fl0 by (simp_all add: file_start_def file_count_def)
  have "footprint s W ?node \<subseteq> disk_range lk addr r datas"
    unfolding footprint_def st node(1)
    using inode_fields_block(5) [of ?node] header_fields(3,4) [OF nd(4)] nd(1,3) data disk_range_memory [OF n(2), of addr r lk]
    unfolding n(1) by (auto simp: disk_range_def)
  then have room: "block b (unat n) \<inter> footprint s W ?node = {}" using b(2) by blast
  have ld: "load32 (inode_read ?node) s = Inr (read_addr p, s)"
    unfolding inode_layout_nat by (rule file_load [OF up i']) (simp add: file_fields_def lk)
  have v: "view D tr W s" using up by (simp add: disk_up_def)
  have "file_count s W ?node < off \<longleftrightarrow> length (datas ! i) < unat off" by (simp add: word_less_nat_alt st)
  then obtain mm where mm: "read ?node off n b s = Inr (of_nat (length part), s\<lparr>con := c, mem := mm\<rparr>)"
      "view D tr (vwrite b part W) (s\<lparr>con := c, mem := mm\<rparr>)"
    using read_part [OF v node(2) sz b(1) room] unfolding st(1) by (auto simp: st(2) fl0(3) part_def c_def)
  have "disk_full D tr lk addr r names datas (vwrite b part W) (s\<lparr>con := c, mem := mm\<rparr>)"
  proof (rule disk_full_frame [OF full mm(2)])
    show "disk_state addr r (length names) (s\<lparr>con := c, mem := mm\<rparr>)" using up by (simp add: disk_up_def disk_state_def)
    have "block b (length part) \<subseteq> block b (unat n)" by (rule block_mono) (simp add: part_def)
    then show "vwrite b part W x = W x" if "x \<in> disk_range lk addr r datas" for x
      using that b(2) by (intro vwrite_other) blast
  qed
  then show ?thesis using mm(1) ld ptr by (auto simp: read_fs_def pointers_ok_def pointer_runs)
qed

text \<open>Reading the content of a file into the buffer.\<close>

lemma entry_read:
  fixes s :: "'a kernel_st_scheme" and i :: nat
  assumes lk: "lk = linkage.truncate p"
    and full: "disk_full D tr lk addr r names datas W s" and b: "buffers_ok D lk (buf_at p) addr r datas"
    and ptr: "pointers_ok p" and i: "i < length datas" and fit: "length (datas ! i) \<le> 256"
  defines "W' \<equiv> vwrite (buf_at p) (datas ! i) W"
  shows "\<exists>mm. read_fs (run_read p) (nod (r + 8192) i) 0 256 (buf_at p) s = Inr (of_nat (length (datas ! i)),
      s\<lparr>con := show_text (byte_text (addr + of_nat (start_of datas i))) (con s), mem := mm\<rparr>)
    \<and> disk_full D tr lk addr r names datas W'
        (s\<lparr>con := show_text (byte_text (addr + of_nat (start_of datas i))) (con s), mem := mm\<rparr>)"
proof -
  have "block (buf_at p) (unat (256 :: u32)) \<subseteq> D" "block (buf_at p) (unat (256 :: u32)) \<inter> disk_range lk addr r datas = {}"
    using b by (auto simp: buffers_ok_def)
  from file_read [OF lk full ptr i _ this, of 0] fit show ?thesis by (simp add: W'_def)
qed

lemma show_entry_file:
  fixes s :: "'a kernel_st_scheme" and i :: nat
  assumes lk: "lk = linkage.truncate p"
    and full: "disk_full D tr lk addr r names datas W s" and b: "buffers_ok D lk (buf_at p) addr r datas"
    and ptr: "pointers_ok p" "fs_root s = r" and dn: "vstr W (dentry lk) (names ! i)" and i: "i < length datas"
    and fl0: "0 \<in> set (datas ! i)" "length (datas ! i) \<le> 256"
    and first: "names ! i \<noteq> ascii ''dev''" "\<forall>j<i. names ! j \<noteq> names ! i"
  shows "\<exists>mm W'. show_entry p (dentry lk) s =
      Inr ((), s\<lparr>con := show_text (entry_text addr names datas (Suc i)) (con s), mem := mm\<rparr>)
    \<and> disk_full D tr lk addr r names datas W' (s\<lparr>con := show_text (entry_text addr names datas (Suc i)) (con s), mem := mm\<rparr>)"
proof -
  let ?node = "nod (r + 8192) i" and ?nm = "names ! i" and ?t = "takeWhile (\<lambda>c. c \<noteq> 0) (datas ! i)"
  let ?s = "s\<lparr>con := show_text (''Found file '' @ text_of ?nm @ [CHR 0x0A]) (con s)\<rparr>"
  have i': "i < length names" using full i by (simp add: disk_full_def)
  have len: "length ?nm < 64" using full i' by (simp add: disk_full_def disk_up_def)
  note hd = entry_head [OF lk full b ptr dn len]
  have up: "disk_up D tr lk addr r names W ?s" using hd(4) by (simp add: disk_full_def)
  have fl: "load32 (inode_flags ?node) ?s = Inr (FS_FILE, ?s)"
    unfolding inode_layout_nat by (rule file_load [OF up i']) (simp add: file_fields_def)
  let ?c = "show_text (byte_text (addr + of_nat (start_of datas i))) (con ?s)"
  obtain mm where mm: "read_fs (run_read p) ?node 0 256 (buf_at p) ?s =
        Inr (of_nat (length (datas ! i)), ?s\<lparr>con := ?c, mem := mm\<rparr>)"
      "disk_full D tr lk addr r names datas (vwrite (buf_at p) (datas ! i) W) (?s\<lparr>con := ?c, mem := mm\<rparr>)"
    using entry_read [OF lk hd(4) b ptr(1) i fl0(2)] by blast
  let ?t1 = "?s\<lparr>con := ?c, mem := mm\<rparr>"
  have small: "length (datas ! i) \<le> 4294967296" using fl0(2) by simp
  note tv = terminated_vstr(1) [OF fl0(1) small, of "buf_at p" W] terminated_vstr(2) [OF fl0(1) small]
  have "string_from (buf_at p) ?t1 = Inr (text_of ?t, ?t1)"
  proof (rule string_from_view [OF _ tv(1)])
    show "view D tr (vwrite (buf_at p) (datas ! i) W) ?t1" using mm(2) by (simp add: disk_full_def disk_up_def)
    show "block (buf_at p) (Suc (length ?t)) \<subseteq> D" "unat (buf_at p) + length ?t < 4294967296"
      using b tv(2) fl0(2) block_mono [of "Suc (length ?t)" 256 "buf_at p"] by (auto simp: buffers_ok_def)
  qed
  moreover have "(of_nat (length (datas ! i)) :: u32) \<noteq> 0"
    using of_nat_u32_inj [of "length (datas ! i)" 0] fl0(2) tv(2) by auto
  moreover have "k_printfln (Some ''content: %s'') [VStr (text_of ?t)] ?t1 =
      Inr ((), ?t1\<lparr>con := show_text ((''content: '' @ text_of ?t) @ [CHR 0x0A]) (con ?t1)\<rparr>)" (is "_ = Inr ((), ?u)")
    using tv(2) fl0(2) by (intro k_printfln_shows [OF render_texts(2)]) simp
  moreover have "FS_FILE \<noteq> FS_DIRECTORY" by (simp add: FS_FILE_def FS_DIRECTORY_def)
  ultimately have "show_entry p (dentry lk) s = Inr ((), ?u)"
    using hd(1-3) fl mm(1) ptr(2) node_of_first [OF i' first] by (simp add: show_entry_def)
  moreover have "?u = s\<lparr>con := show_text (entry_text addr names datas (Suc i)) (con s), mem := mm\<rparr>"
    by (simp add: entry_text_def listed_def flip: show_text_append)
  moreover have "disk_full D tr lk addr r names datas (vwrite (buf_at p) (datas ! i) W) ?u"
    by (rule disk_full_frame [OF mm(2)]) (use mm(2) in \<open>auto simp: disk_full_def disk_up_def disk_state_def intro: view_frame\<close>)
  ultimately show ?thesis by auto
qed

section \<open>The loop\<close>

lemma readdir_full:
  fixes s :: "'a kernel_st_scheme"
  assumes lk: "lk = linkage.truncate p"
    and full: "disk_full D tr lk addr r names datas W s" and b: "dentry_placed D lk addr r datas"
    and ptr: "pointers_ok p" and k: "k \<le> length datas"
  shows "\<exists>mm W'. readdir_fs (run_readdir p) r (of_nat k) s = Inr (dentry lk, s\<lparr>mem := mm\<rparr>)
    \<and> disk_full D tr lk addr r names datas W' (s\<lparr>mem := mm\<rparr>) \<and> vstr W' (dentry lk) (fst (listed names k))
    \<and> (\<forall>x. x \<notin> block (dentry lk) 68 \<longrightarrow> W' x = W x)"
proof -
  have up: "disk_up D tr lk addr r names W s" and n: "length names = length datas" "length datas \<le> 64"
    using full by (simp_all add: disk_full_def)
  have d: "dentry_ok D lk addr r (length names)" using buffers_dentry [OF b n(2)] n(1) by simp
  have k': "k \<le> length names" using k n(1) by simp
  let ?W = "dentry_view (dentry lk) (fst (listed names k)) (snd (listed names k)) W"
  obtain mm where mm: "readdir lk r (of_nat k) s = Inr (dentry lk, s\<lparr>mem := mm\<rparr>)"
      "disk_up D tr lk addr r names ?W (s\<lparr>mem := mm\<rparr>)"
    using readdir_run [OF up d k'] by blast
  note len = listed_name [OF up k']
  have "disk_full D tr lk addr r names datas ?W (s\<lparr>mem := mm\<rparr>)"
  proof (rule disk_full_frame [OF full])
    show "view D tr ?W (s\<lparr>mem := mm\<rparr>)" "disk_state addr r (length names) (s\<lparr>mem := mm\<rparr>)"
      using mm(2) by (simp_all add: disk_up_def)
    show "?W x = W x" if "x \<in> disk_range lk addr r datas" for x
      using that b by (intro dentry_view_other [OF len(1)]) (auto simp: dentry_placed_def)
  qed
  moreover have "readdir_fs (run_readdir p) r (of_nat k) s = readdir lk r (of_nat k) s"
    using ptr by (intro readdir_fs_eq [OF up]) (simp_all add: lk pointers_ok_def pointer_runs)
  ultimately show ?thesis using mm(1) dentry_view_shows(1) [OF len, of "dentry lk" "snd (listed names k)" W] dentry_view_other [OF len(1)] by metis
qed

text \<open>Files that the loop can print: short, terminated, and not empty.\<close>

definition printable_files :: "u8 list list \<Rightarrow> u8 list list \<Rightarrow> bool" where
  "printable_files names datas \<longleftrightarrow> distinct (ascii ''dev'' # names)
     \<and> (\<forall>cs \<in> set datas. 0 \<in> set cs \<and> length cs \<le> 256)"

lemma show_entry_run:
  fixes s :: "'a kernel_st_scheme"
  assumes lk: "lk = linkage.truncate p"
    and full: "disk_full D tr lk addr r names datas W s" and b: "buffers_ok D lk (buf_at p) addr r datas"
    and ptr: "pointers_ok p" "fs_root s = r" and k: "k \<le> length datas" "vstr W (dentry lk) (fst (listed names k))"
    and pf: "printable_files names (take k datas)"
  shows "\<exists>mm W'. show_entry p (dentry lk) s =
      Inr ((), s\<lparr>con := show_text (entry_text addr names datas k) (con s), mem := mm\<rparr>)
    \<and> disk_full D tr lk addr r names datas W' (s\<lparr>con := show_text (entry_text addr names datas k) (con s), mem := mm\<rparr>)"
proof (cases k)
  case 0
  then have "show_entry p (dentry lk) s = Inr ((), s\<lparr>con := show_text (entry_text addr names datas k) (con s), mem := mem s\<rparr>)"
    using show_entry_dev [OF lk full b ptr] k(2) by (simp add: listed_def)
  moreover have "disk_full D tr lk addr r names datas W (s\<lparr>con := show_text (entry_text addr names datas k) (con s), mem := mem s\<rparr>)"
    by (rule disk_full_frame [OF full]) (use full in \<open>auto simp: disk_full_def disk_up_def disk_state_def intro: view_frame\<close>)
  ultimately show ?thesis by blast
next
  case (Suc i)
  then have i: "i < length datas" "i < length names" and nm: "vstr W (dentry lk) (names ! i)"
    using k full by (simp_all add: listed_def disk_full_def)
  have "names ! i \<noteq> ascii ''dev''" using pf nth_mem [OF i(2)] unfolding printable_files_def by (metis distinct.simps(2))
  moreover have "\<forall>j<i. names ! j \<noteq> names ! i" using pf i(2) by (auto simp: printable_files_def nth_eq_iff_index_eq)
  moreover have "0 \<in> set (datas ! i)" "length (datas ! i) \<le> 256"
    using pf i(1) by (simp_all add: printable_files_def Suc take_Suc_conv_app_nth)
  ultimately show ?thesis using show_entry_file [OF lk full b ptr nm i(1)] Suc by simp
qed

text \<open>The loop shows the entries from one index to another and goes on behind them.\<close>

lemma list_files_run:
  fixes s :: "'a kernel_st_scheme"
  assumes lk: "lk = linkage.truncate p" and b: "buffers_ok D lk (buf_at p) addr r datas"
    and ptr: "pointers_ok p" and pf: "printable_files names (take e datas)" and e: "e \<le> length datas"
    and "disk_full D tr lk addr r names datas W s" "fs_root s = r" "k + m = Suc e"
  shows "\<exists>mm W'. list_files (m + j) p (of_nat k) s = list_files j p (of_nat (Suc e))
      (s\<lparr>con := show_text (concat (map (entry_text addr names datas) [k..<Suc e])) (con s), mem := mm\<rparr>)
    \<and> disk_full D tr lk addr r names datas W'
        (s\<lparr>con := show_text (concat (map (entry_text addr names datas) [k..<Suc e])) (con s), mem := mm\<rparr>)"
  using assms(6-8)
proof (induction m arbitrary: k s W)
  case 0
  have k: "k = Suc e" using 0 by simp
  have eq: "s\<lparr>con := show_text (concat (map (entry_text addr names datas) [Suc e..<Suc e])) (con s), mem := mem s\<rparr> = s"
    by (simp add: show_text_def)
  show ?case unfolding k by (rule exI [of _ "mem s"], rule exI [of _ W]) (simp only: eq 0(1) add_0 simp_thms)
next
  case (Suc m)
  then have k: "k \<le> e" "k \<le> length datas" using e by simp_all
  have pf': "printable_files names (take k datas)"
    using pf set_take_subset_set_take [OF k(1), of datas] by (auto simp: printable_files_def)
  obtain mm1 W1 where 1: "readdir_fs (run_readdir p) r (of_nat k) s = Inr (dentry lk, s\<lparr>mem := mm1\<rparr>)"
      "disk_full D tr lk addr r names datas W1 (s\<lparr>mem := mm1\<rparr>)" "vstr W1 (dentry lk) (fst (listed names k))"
    using readdir_full [OF lk Suc.prems(1) _ ptr k(2)] b by (auto simp: buffers_ok_def)
  have r: "fs_root (s\<lparr>mem := mm1\<rparr>) = r" using Suc.prems(2) by simp
  let ?c = "show_text (entry_text addr names datas k) (con s)"
  obtain mm2 W2 where 2: "show_entry p (dentry lk) (s\<lparr>mem := mm1\<rparr>) = Inr ((), s\<lparr>con := ?c, mem := mm2\<rparr>)"
      "disk_full D tr lk addr r names datas W2 (s\<lparr>con := ?c, mem := mm2\<rparr>)"
    using show_entry_run [OF lk 1(2) b ptr r k(2) 1(3) pf'] by auto
  have root: "fs_root (s\<lparr>con := ?c, mem := mm2\<rparr>) = r" and next': "Suc k + m = Suc e"
    using Suc.prems(2,3) by simp_all
  have "dentry lk \<noteq> 0" using b by (simp add: buffers_ok_def dentry_placed_def)
  then have "list_files (Suc m + j) p (of_nat k) s = list_files (m + j) p (of_nat (Suc k)) (s\<lparr>con := ?c, mem := mm2\<rparr>)"
    using 1(1) 2(1) Suc.prems(2) by (simp add: add.commute)
  moreover have "[k..<Suc e] = k # [Suc k..<Suc e]" using k(1) by (simp add: upt_conv_Cons)
  ultimately show ?case
    using Suc.IH [OF 2(2) root next'] by (simp add: show_text_append)
qed

text \<open>Behind the last entry the loop ends.\<close>

lemma list_files_end:
  fixes s :: "'a kernel_st_scheme"
  assumes "disk_full D tr (linkage.truncate p) addr r names datas W s" "pointers_ok p" "fs_root s = r"
  shows "list_files (Suc j) p (of_nat (Suc (length datas))) s = Inr ((), s)"
proof -
  have up: "disk_up D tr (linkage.truncate p) addr r names W s" and n: "length names = length datas"
    using assms(1) by (simp_all add: disk_full_def)
  have "readdir_fs (run_readdir p) r (of_nat (Suc (length names))) s = readdir (linkage.truncate p) r (of_nat (Suc (length names))) s"
    using assms(2) by (intro readdir_fs_eq [OF up]) (simp_all add: pointers_ok_def pointer_runs)
  then show ?thesis using readdir_end [OF up] assms(3) n by simp
qed

lemma list_files_complete:
  fixes s :: "'a kernel_st_scheme"
  assumes "lk = linkage.truncate p" "buffers_ok D lk (buf_at p) addr r datas" "pointers_ok p" "printable_files names datas"
    and full: "disk_full D tr lk addr r names datas W s" and "fs_root s = r"
  shows "\<exists>mm. list_files 2147483648 p 0 s =
      Inr ((), s\<lparr>con := show_text (concat (map (entry_text addr names datas) [0..<Suc (length datas)])) (con s), mem := mm\<rparr>)"
proof -
  let ?e = "length datas"
  have "Suc ?e + 1 \<le> 2147483648" using full by (simp add: disk_full_def)
  then obtain j where j: "2147483648 = Suc ?e + Suc j" unfolding le_iff_add by auto
  have pf: "printable_files names (take ?e datas)" using assms(4) by simp
  obtain mm W' where run: "list_files (Suc ?e + Suc j) p (of_nat 0) s = list_files (Suc j) p (of_nat (Suc ?e))
        (s\<lparr>con := show_text (concat (map (entry_text addr names datas) [0..<Suc ?e])) (con s), mem := mm\<rparr>)"
      "disk_full D tr lk addr r names datas W'
        (s\<lparr>con := show_text (concat (map (entry_text addr names datas) [0..<Suc ?e])) (con s), mem := mm\<rparr>)"
    using list_files_run [where k = 0 and m = "Suc ?e" and j = "Suc j", OF assms(1-3) pf order_refl full assms(6)] by auto
  have "list_files (Suc j) p (of_nat (Suc ?e))
      (s\<lparr>con := show_text (concat (map (entry_text addr names datas) [0..<Suc ?e])) (con s), mem := mm\<rparr>) =
    Inr ((), s\<lparr>con := show_text (concat (map (entry_text addr names datas) [0..<Suc ?e])) (con s), mem := mm\<rparr>)"
    by (rule list_files_end [OF run(2) [unfolded assms(1)] assms(3)]) (simp add: assms(6))
  then show ?thesis unfolding j using run(1) [unfolded of_nat_0] by auto
qed

text \<open>Mounting an image leads to a mounted disk with the files' contents.\<close>

lemma mounted_full:
  fixes s :: "'a kernel_st_scheme"
  assumes ld: "image_loaded D lk V addr r img (length names)" and im: "image_of names datas img"
    and names: "names \<noteq> []" "\<forall>cs \<in> set names. good_name cs"
    and up: "disk_up D tr lk addr r names W s" and mt: "mounted lk addr r names V W"
  shows "disk_full D tr lk addr r names datas W s"
  using up mounted_file_data(1-3) [OF ld im names mt] ld im
  by (simp add: disk_full_def image_of_def image_loaded_def)

section \<open>Properties\<close>

text \<open>
  C10: what the user sees. An image of the build tool is in memory when \<open>ramdisk_init\<close> runs; its names are
  distinct and its files end in a zero byte within 256 bytes. Then the loop of \<open>kmain\<close> comes to its end, and it has
  shown the entry of \<open>dev\<close> and, in the order of the image, the name and the content of every file, as one text and
  nothing else; only the console and memory have changed.
\<close>

theorem kmain_lists_files:
  fixes s :: "'a kernel_st_scheme"
  assumes image: "image_of names datas img" "names \<noteq> []" "\<forall>cs \<in> set names. good_name cs" "printable_files names datas"
    and boot: "view D tr V s" "image_loaded D (linkage.truncate p) V addr r img (length names)" "arena_ok s"
      "page_up (currentBase s) = r" "unat r + 8192 + 184 * length names \<le> unat (maxBase s)"
    and prog: "buffers_ok D (linkage.truncate p) (buf_at p) addr r datas" "pointers_ok p"
  shows "\<exists>s1 mm. ramdisk_init (linkage.truncate p) addr n s = Inr (r, s1)
    \<and> list_files 2147483648 p 0 (s1\<lparr>fs_root := r\<rparr>) = Inr ((), s1\<lparr>fs_root := r,
        con := show_text (concat (map (entry_text addr names datas) [0..<Suc (length datas)])) (con s1), mem := mm\<rparr>)"
proof -
  let ?lk = "linkage.truncate p"
  have m: "mountable D ?lk V addr r names" by (rule image_mountable [OF boot(2) image(1-3)])
  obtain s1 W where s1: "ramdisk_init ?lk addr n s = Inr (r, s1)" "disk_up D tr ?lk addr r names W s1"
      "mounted ?lk addr r names V W"
    using ramdisk_init_up [OF boot(1) m boot(3-5)] by blast
  let ?s = "s1\<lparr>fs_root := r\<rparr>"
  have "disk_full D tr ?lk addr r names datas W s1" by (rule mounted_full [OF boot(2) image(1-3) s1(2,3)])
  then have "disk_full D tr ?lk addr r names datas W ?s"
    by (rule disk_full_frame) (use s1(2) in \<open>auto simp: disk_up_def disk_state_def intro: view_frame\<close>)
  from list_files_complete [OF refl prog image(4) this] s1(1) show ?thesis by auto
qed

section \<open>The small disk in the kernel\<close>

definition sample_mounting :: kernel_st where
  "sample_mounting = ramdisk_st.extend sample_disk \<lparr>fs_root = 0\<rparr>"

lemma sample_mounting_fields [simp]:
  "mem sample_mounting = sample_V" "cr0 sample_mounting = 0" "initialized sample_mounting = 1"
  "initialBase sample_mounting = 0x300000" "currentBase sample_mounting = 0x300000" "maxBase sample_mounting = 0x400000"
  using sample_disk_fields by (simp_all add: sample_mounting_def ramdisk_st.defs)

lemma sample_linkage: "linkage.truncate sample_program = sample_lk" "buf_at sample_program = 0xC0109000"
  by (simp_all add: sample_program_def linkage.defs sample_lk_def)

lemma sample_buffers: "buffers_ok UNIV sample_lk 0xC0109000 0x100000 0x300000 sample_datas"
proof -
  have "start_of sample_datas (length sample_datas) = 4872" "length sample_datas = 2"
    by (simp_all add: start_of_def sample_datas_def)
  moreover have "block 0xC0109000 256 \<inter> (heap_for 0x300000 2 \<union> block 0x100000 4872 \<union> block 0x200010 4 \<union> block 0x200100 68) = {}"
    by (auto simp: sample_blocks mem_block_iff)
  ultimately show ?thesis
    using sample_apart(3,4) by (auto simp: buffers_ok_def dentry_placed_def disk_range_def sample_lk_def aligned4_def)
qed

text \<open>The text of the first file, as it appears on the screen.\<close>

lemma sample_entry:
  "entry_text 0x100000 sample_names sample_datas 1 = ''Found file a'' @ [CHR 0x0A, CHR 0x04] @ ''content: Hi'' @ [CHR 0x0A]"
  by (simp add: entry_text_def listed_def sample_names_def sample_datas_def text_of_def byte_text_def start_of_def Let_def
      char_of_def bit_0)

theorem kmain_lists_files_witness:
  "\<exists>s1 mm. ramdisk_init sample_lk 0x100000 4872 sample_mounting = Inr (0x300000, s1)
    \<and> list_files 2147483648 sample_program 0 (s1\<lparr>fs_root := 0x300000\<rparr>) = Inr ((), s1\<lparr>fs_root := 0x300000,
        con := show_text (entry_text 0x100000 sample_names sample_datas 0 @
          (''Found file a'' @ [CHR 0x0A, CHR 0x04] @ ''content: Hi'' @ [CHR 0x0A]) @
          entry_text 0x100000 sample_names sample_datas 2) (con s1), mem := mm\<rparr>)"
proof -
  have v: "view UNIV (\<lambda>va. va) sample_V sample_mounting"
    by (auto simp: view_def mapped_def mmu_walk_def walk_reads_def paging_on_def)
  have arena: "arena_ok sample_mounting" "page_up (currentBase sample_mounting) = 0x300000"
      "unat (0x300000 :: u32) + 8192 + 184 * length sample_names \<le> unat (maxBase sample_mounting)"
    by (simp_all add: arena_ok_def page_up_def PAGE_ALIGN_def sample_count)
  have files: "printable_files sample_names sample_datas" "pointers_ok sample_program"
    by (simp_all add: printable_files_def sample_names_def sample_datas_def ascii_names pointers_ok_def
        sample_program_def linkage.defs sample_lk_def)
  have upto: "[0..<Suc (length sample_datas)] = [0, 1, 2]" by (simp add: sample_datas_def upt_rec)
  from kmain_lists_files [where p = sample_program and n = 4872, unfolded sample_linkage,
      OF sample_image(2) sample_good files(1) v sample_loaded arena sample_buffers files(2)]
  show ?thesis unfolding upto sample_entry [symmetric] by simp
qed

end
