(* ===== verification/Idle.thy ===== *)
theory Idle
  imports Kernel
begin

text \<open>
  The kernel after \<open>kmain\<close> (\<^verbatim>\<open>src/kernel.c\<close>): interrupts are enabled and the processor halts between them for ever. The
  hardware interrupts that arrive are the steps of a transition system; its invariant says that the kernel stays up,
  counts the timer's interrupts and comes back to the halted loop with its registers unchanged.
\<close>

section \<open>The transition system\<close>

text \<open>\<open>idle run cs ns ct\<close>: from \<open>cs\<close> the lines \<open>ns\<close> have been served, one after the other, and left \<open>ct\<close>.\<close>

inductive idle ::
  "(u32 \<Rightarrow> registers \<Rightarrow> ('a kernel_st_scheme, unit) kernel) \<Rightarrow> cpu \<times> 'a kernel_st_scheme \<Rightarrow> nat list \<Rightarrow> cpu \<times> 'a kernel_st_scheme \<Rightarrow> bool"
  for run :: "u32 \<Rightarrow> registers \<Rightarrow> ('a kernel_st_scheme, unit) kernel" and cs :: "cpu \<times> 'a kernel_st_scheme"
where
  halted: "idle run cs [] cs"
| served: "idle run cs ns (c, t) \<Longrightarrow> n < 16 \<Longrightarrow> interrupt run (32 + n) n c t = Inr (c', u) \<Longrightarrow> idle run cs (ns @ [n]) (c', u)"

section \<open>One interrupt\<close>

lemma serves_frame:
  "kernel_serves p (s\<lparr>g_ticks := k, con := c\<rparr>) \<longleftrightarrow> kernel_serves p s"
  "no_timer_functions (s\<lparr>g_ticks := k, con := c\<rparr>) \<longleftrightarrow> no_timer_functions s"
  "mmu_walk (s\<lparr>g_ticks := k, con := c\<rparr>) = mmu_walk s"
  by (simp_all add: kernel_serves_def no_timer_functions_def mmu_walk_def walk_reads_def paging_on_def fun_eq_iff cong: if_cong)

text \<open>A line without a handler is acknowledged and nothing else happens.\<close>

lemma interrupt_unhandled:
  fixes s :: "'a kernel_st_scheme"
  assumes "kernel_serves p s" "n < 16" "bit (c_eflags c) 9" "intf s" "g_interrupt_handlers s ! (32 + n) = 0"
  shows "interrupt run (32 + n) n c s = Inr (c, s\<lparr>con := pic8259_eoi (of_nat (32 + n)) (con s)\<rparr>)"
proof -
  let ?f = "entry_frame (32 + of_nat n) 0 c s"
  let ?s = "s\<lparr>seg_cs := 0x08, intf := False, seg_data := 0x10\<rparr>"
  note num = line_number [OF assms(2)]
  have i: "int_no ?f = 32 + of_nat n" by (simp add: entry_frame_def)
  have "isr_irq_handler run ?f ?s = Inr ((), ?s\<lparr>con := pic8259_eoi (of_nat (32 + n)) (con s)\<rparr>)"
    using isr_irq_handler_run [of ?f run ?s] assms(2,5) by (simp add: i num del: of_nat_add)
  then show ?thesis
    unfolding interrupt_def up_gate [OF assms(1,2)] interrupt_path [OF assms(3)] using assms(4) by simp
qed

lemma interrupt_any:
  fixes s :: "'a kernel_st_scheme"
  assumes "kernel_serves p s" "no_timer_functions s" "timer_handler_at p \<noteq> 0" "bit (c_eflags c) 9" "intf s"
    and "run (timer_handler_at p) = (\<lambda>_. timer_handler call)" and n: "n < 16"
  shows "interrupt run (32 + n) n c s = Inr (c, s\<lparr>g_ticks := g_ticks s + (if n = 0 then 1 else 0),
    con := pic8259_eoi (of_nat (32 + n)) (con s)\<rparr>)"
proof (cases "n = 0")
  case True
  then show ?thesis using interrupt_timer [where run = run, OF assms(1-6)] by simp
next
  case False
  then show ?thesis
    using interrupt_unhandled [OF assms(1) n assms(4,5)] up_handlers [OF assms(1) n] by (simp del: of_nat_add)
qed

section \<open>Reachable states\<close>

lemma idle_states:
  fixes s :: "'a kernel_st_scheme"
  assumes "idle run (c, s) ns ct" "kernel_serves p s" "no_timer_functions s" "timer_handler_at p \<noteq> 0" "bit (c_eflags c) 9" "intf s"
    and "run (timer_handler_at p) = (\<lambda>_. timer_handler call)"
  shows "\<exists>k. ct = (c, s\<lparr>g_ticks := g_ticks s + of_nat (count_list ns 0), con := k\<rparr>)"
  using assms(1)
proof (induction rule: idle.induct)
  case halted
  show ?case by (rule exI [of _ "con s"]) simp
next
  case (served ns c1 t n c' u)
  then obtain k where t: "c1 = c" "t = s\<lparr>g_ticks := g_ticks s + of_nat (count_list ns 0), con := k\<rparr>" by auto
  have "interrupt run (32 + n) n c t = Inr (c, t\<lparr>g_ticks := g_ticks t + (if n = 0 then 1 else 0),
      con := pic8259_eoi (of_nat (32 + n)) (con t)\<rparr>)"
    using assms(2-6) served.hyps(2) unfolding t
    by (intro interrupt_any [where run = run and call = call and p = p]) (simp_all add: serves_frame assms(7))
  with served.hyps(3) t show ?case by (auto simp: add.assoc)
qed

lemma idle_goes_on:
  fixes s :: "'a kernel_st_scheme"
  assumes "kernel_serves p s" "no_timer_functions s" "timer_handler_at p \<noteq> 0" "bit (c_eflags c) 9" "intf s"
    and "run (timer_handler_at p) = (\<lambda>_. timer_handler call)" and "\<forall>n \<in> set ns. n < 16"
  shows "\<exists>ct. idle run (c, s) ns ct"
  using assms(7)
proof (induction ns rule: rev_induct)
  case Nil
  then show ?case using idle.halted by blast
next
  case (snoc n ns)
  then obtain ct where ct: "idle run (c, s) ns ct" by auto
  from idle_states [where run = run, OF this assms(1-6)] obtain k where
    k: "ct = (c, s\<lparr>g_ticks := g_ticks s + of_nat (count_list ns 0), con := k\<rparr>)" by blast
  have "interrupt run (32 + n) n c (s\<lparr>g_ticks := g_ticks s + of_nat (count_list ns 0), con := k\<rparr>) =
      Inr (c, s\<lparr>g_ticks := g_ticks s + of_nat (count_list ns 0), con := k,
        g_ticks := g_ticks s + of_nat (count_list ns 0) + (if n = 0 then 1 else 0), con := pic8259_eoi (of_nat (32 + n)) k\<rparr>)"
    using interrupt_any [where run = run and call = call and p = p and n = n and c = c
        and s = "s\<lparr>g_ticks := g_ticks s + of_nat (count_list ns 0), con := k\<rparr>"] assms(1-6) snoc.prems
    by (simp add: serves_frame)
  from idle.served [OF ct [unfolded k] _ this] snoc.prems show ?case by auto
qed

section \<open>Properties\<close>



end
