(* ===== verification/Run.thy ===== *)
theory Run
  imports Launch Listing Idle
begin

text \<open>
  The whole run of the kernel: from the loader, through the boot code and \<open>kmain\<close>, to the halted loop that serves
  interrupts. With the boot module as \<open>kmain\<close> maps it, the listing finds every file and no content.
\<close>

section \<open>What the run needs and shows\<close>

text \<open>The linker puts \<open>dentry\<close> into \<^verbatim>\<open>.bss\<close>, where the stack is too; the buffer of \<open>kmain\<close> is on the stack.\<close>

definition buffers_placed :: "boot_program \<Rightarrow> bool" where
  "buffers_placed p \<longleftrightarrow> aligned4 (dentry p) \<and> unat (BSS_START p) \<le> unat (dentry p)
     \<and> unat (dentry p) + 68 \<le> unat (BSS_START p) + unat (BSS_SIZE p)
     \<and> unat (stack p) \<le> unat (buf_at p) \<and> unat (buf_at p) + 256 \<le> unat (stack p) + 16384
     \<and> (unat (dentry p) + 68 \<le> unat (stack p) \<or> unat (stack p) + 16384 \<le> unat (dentry p))"

text \<open>Files with different names, none of them larger than the buffer, in an image of two pages; and such files when none of them is empty.\<close>

definition short_files :: "u8 list list \<Rightarrow> u8 list list \<Rightarrow> bool" where
  "short_files names datas \<longleftrightarrow> distinct (ascii ''dev'' # names) \<and> (\<forall>cs \<in> set datas. length cs \<le> 256)
     \<and> start_of datas (length datas) \<le> 8192"

definition small_files :: "u8 list list \<Rightarrow> u8 list list \<Rightarrow> bool" where
  "small_files names datas \<longleftrightarrow> short_files names datas \<and> (\<forall>cs \<in> set datas. cs \<noteq> [])"

text \<open>The text of the listing: the names, the bytes that the driver prints, and nothing of the contents.\<close>

definition bare_listing :: "u8 list list \<Rightarrow> u8 list list \<Rightarrow> string" where
  "bare_listing names datas =
     ''Found file dev'' @ [CHR 0x0A] @ ''(directory)'' @ [CHR 0x0A] @
     concat (map (\<lambda>i. ''Found file '' @ text_of (names ! i) @ [CHR 0x0A] @
       byte_text (of_nat (start_of datas i)) @ ''content: '' @ [CHR 0x0A]) [0..<length datas])"

section \<open>Lemmas\<close>

text \<open>The contents of the files after the mount.\<close>

definition zeroed :: "u8 list list \<Rightarrow> u8 list list" where
  "zeroed datas = map (\<lambda>cs. replicate (length cs) 0) datas"

lemma zeroed_simps [simp]:
  "length (zeroed datas) = length datas" "i < length datas \<Longrightarrow> zeroed datas ! i = replicate (length (datas ! i)) 0"
  "start_of (zeroed datas) = start_of datas"
  by (auto simp: zeroed_def start_of_def fun_eq_iff take_map comp_def)

lemma byte_text_page: "page_aligned a \<Longrightarrow> byte_text (a + of_nat k) = byte_text (of_nat k)"
proof -
  assume "page_aligned a"
  then obtain q where "unat a = 4096 * q" by (auto simp: page_aligned_def)
  then have "(unat a + unat (of_nat k :: u32)) mod 256 = unat (of_nat k :: u32) mod 256" by (subst mod_add_left_eq [symmetric]) simp
  then have "unat (a + of_nat k) mod 256 = unat (of_nat k :: u32) mod 256"
    using unat_word_ariths(1) [of a "of_nat k"] mod_mod_cancel [of 256 4294967296 "unat a + unat (of_nat k :: u32)"] by simp
  then have "(ucast (a + of_nat k) :: u8) = ucast (of_nat k :: u32)"
    by (simp only: word_unat_eq_iff) (simp add: unsigned_ucast_eq take_bit_eq_mod)
  then show "byte_text (a + of_nat k) = byte_text (of_nat k)" by (simp add: byte_text_def)
qed

lemma bare_listing_entries:
  assumes "page_aligned addr" and k: "k \<le> length datas"
  shows "concat (map (entry_text addr names (zeroed datas)) [0..<Suc k]) = bare_listing names (take k datas)"
proof -
  have dev: "entry_text addr names (zeroed datas) 0 = ''Found file dev'' @ [CHR 0x0A] @ ''(directory)'' @ [CHR 0x0A]"
    by (simp add: entry_text_def listed_def ascii_names text_of_def char_of_def bit_simps)
  have entry: "entry_text addr names (zeroed datas) (Suc i) = ''Found file '' @ text_of (names ! i) @ [CHR 0x0A] @
       byte_text (of_nat (start_of (take k datas) i)) @ ''content: '' @ [CHR 0x0A]" if "i < k" for i
  proof -
    have "start_of (take k datas) i = start_of datas i" using that by (simp add: start_of_def min_absorb1)
    then show ?thesis using that k by (simp add: entry_text_def listed_def byte_text_page [OF assms(1)] text_of_def)
  qed
  have "[0..<Suc k] = 0 # map Suc [0..<k]" by (simp add: map_Suc_upt upt_conv_Cons del: upt_Suc)
  moreover have "map (\<lambda>i. entry_text addr names (zeroed datas) (Suc i)) [0..<k] =
      map (\<lambda>i. ''Found file '' @ text_of (names ! i) @ [CHR 0x0A] @
       byte_text (of_nat (start_of (take k datas) i)) @ ''content: '' @ [CHR 0x0A]) [0..<k]"
    by (rule map_cong [OF refl]) (use entry in simp)
  moreover have "length (take k datas) = k" using k by simp
  ultimately show ?thesis unfolding bare_listing_def by (simp only: list.map map_map comp_def concat.simps dev append.assoc)
qed

text \<open>The buffers, apart from the disk.\<close>

lemma placed_buffers:
  assumes pl: "placed p" and b: "buffers_placed p"
  shows "block (dentry p) 68 \<union> block (buf_at p) 256 \<subseteq> block (BSS_START p) (unat (BSS_SIZE p))"
    "block (dentry p) 68 \<inter> block (buf_at p) 256 = {}" "dentry p \<noteq> 0"
    "unat (dentry p) + 68 \<le> 4294967296" "unat (buf_at p) + 256 \<le> 4294967296"
proof -
  note pd = placedD [OF pl]
  have q: "unat (BSS_START p) \<le> unat (dentry p)" "unat (dentry p) + 68 \<le> unat (BSS_START p) + unat (BSS_SIZE p)"
      "unat (BSS_START p) \<le> unat (buf_at p)" "unat (buf_at p) + 256 \<le> unat (BSS_START p) + unat (BSS_SIZE p)"
      "unat (dentry p) + 68 \<le> unat (buf_at p) \<or> unat (buf_at p) + 256 \<le> unat (dentry p)"
    using b pd(20,21) by (auto simp: buffers_placed_def)
  have top: "unat (BSS_START p) + unat (BSS_SIZE p) \<le> 4294967296"
    using pd(14) u32_less [of "EARLY_KMALLOC_START p"] by linarith
  then show r: "unat (dentry p) + 68 \<le> 4294967296" "unat (buf_at p) + 256 \<le> 4294967296" using q by linarith+
  note m = mem_block_iff [OF r(1)] mem_block_iff [OF r(2)] mem_block_iff [OF top]
  show "block (dentry p) 68 \<union> block (buf_at p) 256 \<subseteq> block (BSS_START p) (unat (BSS_SIZE p))"
      "block (dentry p) 68 \<inter> block (buf_at p) 256 = {}"
    using q by (auto simp: m)
  have "0 < unat (dentry p)" using q(1) pd(7,8,13) by linarith
  then show "dentry p \<noteq> 0" by auto
qed

lemma launch_buffers:
  assumes pl: "placed p" and b: "buffers_placed p" and lit: "literal_loaded p (dev_str p) (ascii ''dev'') s"
    and h: "heap_for (addr + 4096) (length names) \<subseteq> kernel_heap p" "block addr 4096 \<subseteq> kernel_heap p"
    and n: "length names = length datas" "start_of datas (length datas) \<le> 8192"
  shows "block addr (start_of datas (length datas)) \<subseteq> mount_region (linkage.truncate p) addr (length names)"
    "buffers_ok (mount_region (linkage.truncate p) addr (length names) \<union> (block (dentry p) 68 \<union> block (buf_at p) 256))
       (linkage.truncate p) (buf_at p) addr (addr + 4096) datas"
proof -
  let ?S = "block (BSS_START p) (unat (BSS_SIZE p))"
  note pb = placed_buffers [OF pl b]
  have "block addr 8192 \<subseteq> block addr 4096 \<union> heap_for (addr + 4096) (length names)"
  proof
    fix x
    assume "x \<in> block addr 8192"
    then obtain k where k: "k < 8192" "x = addr + of_nat k" by (auto simp: block_def)
    show "x \<in> block addr 4096 \<union> heap_for (addr + 4096) (length names)"
    proof (cases "k < 4096")
      case True
      then show ?thesis using k(2) block_mem by blast
    next
      case False
      then have "x = addr + 4096 + of_nat (k - 4096)" using k(2) by (simp add: of_nat_diff)
      moreover have "k - 4096 < 8192 + 184 * length names" using k(1) by simp
      ultimately show ?thesis unfolding heap_for_def using block_mem by blast
    qed
  qed
  moreover have "block addr (start_of datas (length datas)) \<subseteq> block addr 8192" by (rule block_mono [OF n(2)])
  ultimately have data: "block addr (start_of datas (length datas)) \<subseteq> block addr 4096 \<union> heap_for (addr + 4096) (length names)" by blast
  then show "block addr (start_of datas (length datas)) \<subseteq> mount_region (linkage.truncate p) addr (length names)"
    by (auto simp: mount_region_def)
  have "kernel_heap p \<inter> ?S = {}"
    using bss_not_heap [OF pl, of "undefined\<lparr>initialBase := EARLY_KMALLOC_START p, maxBase := EARLY_KMALLOC_END p\<rparr>"]
    by (auto simp: kernel_heap_def heap_def)
  moreover have "block (dev_str p) 4 \<inter> ?S = {}"
  proof -
    have d: "unat (dev_str p) + 3 < unat (BSS_START p)" using lit by (simp add: literal_loaded_def ascii_names)
    then have "unat (dev_str p) + 4 \<le> 4294967296" using u32_less [of "BSS_START p"] by linarith
    then have "x \<notin> ?S" if "x \<in> block (dev_str p) 4" for x
      using that d mem_block_iff [of "dev_str p" 4 x] placedD(14) [OF pl] u32_less [of "EARLY_KMALLOC_START p"]
        mem_block_iff [of "BSS_START p" "unat (BSS_SIZE p)" x] by (simp del: u32_less)
    then show ?thesis by blast
  qed
  ultimately have "disk_range (linkage.truncate p) addr (addr + 4096) datas \<inter> ?S = {}"
    using data h by (simp add: disk_range_def n(1) [symmetric]) blast
  then show "buffers_ok (mount_region (linkage.truncate p) addr (length names) \<union> (block (dentry p) 68 \<union> block (buf_at p) 256))
       (linkage.truncate p) (buf_at p) addr (addr + 4096) datas"
    using pb b by (auto simp: buffers_ok_def dentry_placed_def buffers_placed_def)
qed

text \<open>The mounted disk, with files of zeros.\<close>

lemma zeroed_disk:
  assumes mt: "mountable (mount_region lk addr (length names)) lk V addr (addr + 4096) names"
    and up: "disk_up (mount_region lk addr (length names) \<union> E) tr lk addr (addr + 4096) names W t"
    and md: "mounted lk addr (addr + 4096) names V W"
    and V: "\<forall>va \<in> mount_region lk addr (length names). V va = m (mount_tr addr load va)"
    and im: "image_of names datas img" "loaded m load (take 4096 img)" "short_files names datas"
    and fits: "4 + 76 * length names \<le> 4096" "unat addr + (12288 + 184 * length names) < 4294967296"
    and data: "block addr (start_of datas (length datas)) \<subseteq> mount_region lk addr (length names)"
  shows "disk_full (mount_region lk addr (length names) \<union> E) tr lk addr (addr + 4096) names (zeroed datas) W t"
proof -
  have n: "length names = length datas" "length datas \<le> 64" using im(1) by (simp_all add: image_of_def)
  have "get32 W (file_offset (hdr addr i)) = addr + of_nat (start_of datas i)
      \<and> unat (get32 W (file_length (hdr addr i))) = length (datas ! i)
      \<and> vread W (addr + of_nat (start_of datas i)) (length (datas ! i)) = replicate (length (datas ! i)) 0"
    if i: "i < length datas" for i
  proof -
    have "start_of datas i + length (datas ! i) \<le> 8192"
      using start_of_fits [OF i] im(3) unfolding short_files_def by linarith
    from lost_file [OF mt md V im(1,2) fits i this] show ?thesis by blast
  qed
  then show ?thesis using up n data by (auto simp: disk_full_def)
qed

lemma program_truncate [simp]:
  "buf_at (program.truncate p) = buf_at p" "timer_handler_at (program.truncate p) = timer_handler_at p"
  by (simp_all add: program.defs)

text \<open>The run from the loader to the listing, with the disk that the listing finds.\<close>

lemma start_listing:
  fixes s :: "'a kernel_st_scheme"
  assumes "linked z p" "one_table z" "\<not> paging_on s" "module_loaded p mbi load names s"
    and im: "image_of names datas img" "loaded (mem s) load (take 4096 img)" "short_files names datas"
    and prog: "buffers_placed p"
  shows "\<exists>t addr D W. start p eax mbi s = kthen (list_files 2147483648 (program.truncate p) 0) (kmodify (\<lambda>s. s\<lparr>intf := True\<rparr>)) t
    \<and> disk_full D (mount_tr addr load) (linkage.truncate p) addr (addr + 4096) names (zeroed datas) W t
    \<and> buffers_ok D (linkage.truncate p) (buf_at p) addr (addr + 4096) (zeroed datas)
    \<and> fs_root t = addr + 4096 \<and> page_aligned addr \<and> kernel_serves (program.truncate p) t \<and> no_timer_functions t"
proof -
  have pl: "placed p" by (rule linked_placed [OF assms(1,2)])
  let ?lk = "linkage.truncate p" and ?n = "length names" and ?E = "block (dentry p) 68 \<union> block (buf_at p) 256"
  have small: "4 + 76 * ?n \<le> 4096" and lit: "literal_loaded p (dev_str p) (ascii ''dev'') s"
    using assms(4) by (simp_all add: module_loaded_def)
  have n: "?n = length datas" and size: "start_of datas (length datas) \<le> 8192"
    using im(1,3) by (simp_all add: image_of_def short_files_def)
  obtain t addr V W where t: "start p eax mbi s =
      kthen (list_files 2147483648 (program.truncate p) 0) (kmodify (\<lambda>s. s\<lparr>intf := True\<rparr>)) t"
    "fs_root t = addr + 4096" "unat addr + (12288 + 184 * ?n) < 4294967296"
    "mountable (mount_region ?lk addr ?n) ?lk V addr (addr + 4096) names"
    "disk_up (mount_region ?lk addr ?n \<union> ?E) (mount_tr addr load) ?lk addr (addr + 4096) names W t"
    "mounted ?lk addr (addr + 4096) names V W" "\<forall>va \<in> mount_region ?lk addr ?n. V va = mem s (mount_tr addr load va)"
    "heap_for (addr + 4096) ?n \<subseteq> kernel_heap p" "block addr 4096 \<subseteq> kernel_heap p" "page_aligned addr"
    "kernel_serves (program.truncate p) t" "no_timer_functions t"
    using start_mounted [OF assms(1-4) placed_buffers(1) [OF pl prog], of eax] by blast
  note lb = launch_buffers [OF pl prog lit t(8,9) n size]
  have "disk_full (mount_region ?lk addr ?n \<union> ?E) (mount_tr addr load) ?lk addr (addr + 4096) names (zeroed datas) W t"
    by (rule zeroed_disk [OF t(4-7) im small t(3) lb(1)])
  moreover have "buffers_ok (mount_region ?lk addr ?n \<union> ?E) ?lk (buf_at p) addr (addr + 4096) (zeroed datas)"
    using lb(2) by (simp add: buffers_ok_def dentry_placed_def disk_range_def)
  ultimately show ?thesis using t(1,2,10-12) by blast
qed

lemma start_ended:
  fixes s :: "'a kernel_st_scheme"
  assumes "linked z p" "one_table z" "\<not> paging_on s" "module_loaded p mbi load names s"
    and im: "image_of names datas img" "loaded (mem s) load (take 4096 img)" "small_files names datas"
    and prog: "buffers_placed p" "pointers_ok (program.truncate p)"
  shows "\<exists>u t. start p eax mbi s = kthen (list_files 2147483648 (program.truncate p) 0) (kmodify (\<lambda>s. s\<lparr>intf := True\<rparr>)) u
    \<and> start p eax mbi s = Inr ((), t) \<and> con t = show_text (bare_listing names datas) (con u)
    \<and> intf t \<and> kernel_serves (program.truncate p) t \<and> no_timer_functions t"
proof -
  let ?lk = "linkage.truncate p"
  have short: "short_files names datas" using im(3) by (simp add: small_files_def)
  obtain t addr D W where t: "start p eax mbi s = kthen (list_files 2147483648 (program.truncate p) 0) (kmodify (\<lambda>s. s\<lparr>intf := True\<rparr>)) t"
    "disk_full D (mount_tr addr load) ?lk addr (addr + 4096) names (zeroed datas) W t"
    "buffers_ok D ?lk (buf_at p) addr (addr + 4096) (zeroed datas)"
    "fs_root t = addr + 4096" "page_aligned addr" "kernel_serves (program.truncate p) t" "no_timer_functions t"
    using start_listing [OF assms(1-4) im(1,2) short prog(1), of eax] by blast
  have files: "printable_files names (zeroed datas)"
    using im(3) by (auto simp: printable_files_def small_files_def short_files_def zeroed_def)
  obtain mm where "list_files 2147483648 (program.truncate p) 0 t =
      Inr ((), t\<lparr>con := show_text (bare_listing names datas) (con t), mem := mm\<rparr>)"
    using list_files_complete [of ?lk "program.truncate p", OF _ _ prog(2) files t(2,4)] t(3)
    unfolding zeroed_simps(1) bare_listing_entries [OF t(5) order_refl] by auto
  then have "start p eax mbi s = Inr ((), t\<lparr>con := show_text (bare_listing names datas) (con t), mem := mm, intf := True\<rparr>)"
      (is "_ = Inr ((), ?t)")
    using t(1) by simp
  moreover have "kernel_serves (program.truncate p) ?t" "no_timer_functions ?t"
    using t(6,7) by (simp_all add: kernel_serves_def no_timer_functions_def)
  ultimately show ?thesis using t(1) by (intro exI [of _ t] exI [of _ ?t]) simp
qed

section \<open>Properties\<close>

text \<open>
  C2: the whole program, from the loader to the end of \<open>kmain\<close>. With a module whose files fit the driver's limits
  \<open>_start\<close> comes to its end without an error: the listing has found every file of the image by name and shown no byte of its contents,
  interrupts are enabled, and the kernel is ready to serve them.
\<close>

theorem start_runs_kmain:
  fixes s :: "'a kernel_st_scheme"
  assumes "linked z p" "one_table z" "\<not> paging_on s" "module_loaded p mbi load names s"
    and "image_of names datas img" "loaded (mem s) load (take 4096 img)" "small_files names datas"
    and "buffers_placed p" "pointers_ok (program.truncate p)"
  shows "\<exists>u t. start p eax mbi s = kthen (list_files 2147483648 (program.truncate p) 0) (kmodify (\<lambda>s. s\<lparr>intf := True\<rparr>)) u
    \<and> start p eax mbi s = Inr ((), t) \<and> con t = show_text (bare_listing names datas) (con u)
    \<and> intf t \<and> kernel_serves (program.truncate p) t \<and> no_timer_functions t"
  by (rule start_ended [OF assms])


section \<open>The small disk, from the loader on\<close>

lemma launch_buffers_placed: "buffers_placed launch_program" "pointers_ok (program.truncate launch_program)"
    "timer_handler_at launch_program \<noteq> 0"
  by (simp_all add: buffers_placed_def pointers_ok_def launch_program_def image_of_sizes_def link_script_def align_to_def
      sample_sizes_def Let_def program.defs aligned4_def sample_program_def linkage.defs sample_lk_def)

lemma launch_small: "small_files sample_names sample_datas"
  by (simp add: small_files_def short_files_def sample_names_def sample_datas_def ascii_names start_of_def)

lemma launch_listing:
  "bare_listing sample_names sample_datas =
     ''Found file dev'' @ [CHR 0x0A] @ ''(directory)'' @ [CHR 0x0A] @
     ''Found file a'' @ [CHR 0x0A, CHR 0x04] @ ''content: '' @ [CHR 0x0A] @
     ''Found file bc'' @ [CHR 0x0A, CHR 0x07] @ ''content: '' @ [CHR 0x0A]"
  by (simp add: bare_listing_def sample_names_def sample_datas_def text_of_def byte_text_def start_of_def Let_def
      char_of_def bit_0 upt_rec)

theorem start_runs_kmain_witness:
  "\<exists>u t. start launch_program 0x2BADB002 0x9000 launch_state = Inr ((), t) \<and> intf t
     \<and> con t = show_text (''Found file dev'' @ [CHR 0x0A] @ ''(directory)'' @ [CHR 0x0A] @
         ''Found file a'' @ [CHR 0x0A, CHR 0x04] @ ''content: '' @ [CHR 0x0A] @
         ''Found file bc'' @ [CHR 0x0A, CHR 0x07] @ ''content: '' @ [CHR 0x0A]) u"
  unfolding launch_listing [symmetric]
  using start_runs_kmain [OF launch_linked sample_linked(2) launch_off launch_module sample_image(2) launch_image launch_small
      launch_buffers_placed(1,2), of "0x2BADB002"] by blast


end
