(* ===== verification/Faults.thy ===== *)
theory Faults
  imports Kernel
begin

unbundle bit_operations_syntax

text \<open>
  Exceptions of the processor in the running kernel (\<^verbatim>\<open>src/kernel/isr.c\<close>, \<^verbatim>\<open>src/mm/paging.c\<close>): the way through the gate and
  the stub to the handler, and the text of the report with which the kernel stops.
\<close>

section \<open>Numbers in a report\<close>

definition hex_text :: "u32 \<Rightarrow> string" where
  "hex_text w = (if w = 0 then ''0'' else digits w 16 (CHR ''a'') [])"

definition signed_text :: "u32 \<Rightarrow> string" where
  "signed_text w = (if sint w < 0 then CHR ''-'' # decimal (- w) else decimal w)"

lemma hex_text_denotes: "read_num 16 (hex_text w) = unat w"
  using digits_value [of 16 "CHR ''a''" w] by (simp add: hex_text_def read_num_def digit_val_def)

lemma number_text_hex: "number_text w 16 False 0 0 (CHR ''a'') = hex_text w"
  using digits_length_hex [of w "CHR ''a''"]
  by (simp add: number_text_def hex_text_def Let_def layout_plain)

lemma conv_int_text:
  "conv_text (CHR ''x'') 0 0 0 (arg_units (VInt w) @ ap) = Some (hex_text w, ap)"
  "conv_text (CHR ''d'') 0 0 0 (arg_units (VInt w) @ ap) = Some (signed_text w, ap)"
  "conv_text (CHR ''p'') 0 0 0 (arg_units (VInt w) @ ap) = Some (''0x'' @ hex8 w, ap)"
  using int_arg_full [of 0 False w ap] int_arg_full [of 0 True w ap]
  by (simp_all add: conv_text_def number_text_hex number_text_signed number_text_pointer signed_text_def del: arg_units.simps)

lemmas conv_last_text = conv_int_text [where ap = "[]", simplified append_Nil2]

section \<open>The dump of the registers\<close>

definition dump_text :: "u32 \<Rightarrow> registers \<Rightarrow> string" where
  "dump_text word_above reg =
     ''eax=0x'' @ hex_text (r_eax reg) @ '', ebx=0x'' @ hex_text (r_ebx reg) @ '', ecx=0x'' @ hex_text (r_ecx reg) @
     '', edx=0x'' @ hex_text (r_edx reg) @ [CHR 0x0A] @
     ''edi=0x'' @ hex_text (r_edi reg) @ '', esi=0x'' @ hex_text (r_esi reg) @ '', ebp=0x'' @ hex_text (r_ebp reg) @
     '', esp=0x'' @ hex_text (r_esp reg) @ [CHR 0x0A] @
     ''eip=0x'' @ hex_text (r_eip reg) @ '', cs=0x'' @ hex_text (r_ss reg) @ '', ss=0x'' @ hex_text (r_eflags reg) @
     '', eflags=0x'' @ hex_text (r_useresp reg) @ '', useresp=0x'' @ hex_text word_above @ [CHR 0x0A]"

lemma print_registers_shows: "print_registers word_above reg s = Inr ((), s\<lparr>con := show_text (dump_text word_above reg) (con s)\<rparr>)"
proof -
  let ?n = "[CHR 0x0A]"
  let ?a = "''eax=0x'' @ hex_text (r_eax reg) @ '', ebx=0x'' @ hex_text (r_ebx reg) @ '', ecx=0x'' @ hex_text (r_ecx reg) @
     '', edx=0x'' @ hex_text (r_edx reg) @ ?n"
  let ?b = "''edi=0x'' @ hex_text (r_edi reg) @ '', esi=0x'' @ hex_text (r_esi reg) @ '', ebp=0x'' @ hex_text (r_ebp reg) @
     '', esp=0x'' @ hex_text (r_esp reg) @ ?n"
  let ?c = "''eip=0x'' @ hex_text (r_eip reg) @ '', cs=0x'' @ hex_text (r_ss reg) @ '', ss=0x'' @ hex_text (r_eflags reg) @
     '', eflags=0x'' @ hex_text (r_useresp reg) @ '', useresp=0x'' @ hex_text word_above @ ?n"
  have a: "render (''eax=0x%x, ebx=0x%x, ecx=0x%x, edx=0x%x'' @ ?n)
      (va_start [VInt (r_eax reg), VInt (r_ebx reg), VInt (r_ecx reg), VInt (r_edx reg)]) = Inr ?a"
    by (simp add: conv_int_text conv_last_text del: arg_units.simps)
  have b: "render (''edi=0x%x, esi=0x%x, ebp=0x%x, esp=0x%x'' @ ?n)
      (va_start [VInt (r_edi reg), VInt (r_esi reg), VInt (r_ebp reg), VInt (r_esp reg)]) = Inr ?b"
    by (simp add: conv_int_text conv_last_text del: arg_units.simps)
  have c: "render (''eip=0x%x, cs=0x%x, ss=0x%x, eflags=0x%x, useresp=0x%x'' @ ?n)
      (va_start [VInt (r_eip reg), VInt (r_ss reg), VInt (r_eflags reg), VInt (r_useresp reg), VInt word_above]) = Inr ?c"
    by (simp add: conv_int_text conv_last_text del: arg_units.simps)
  have d: "dump_text word_above reg = ?a @ ?b @ ?c" by (simp add: dump_text_def)
  show ?thesis
    unfolding print_registers_def d by (simp add: k_printf_shows [OF a] k_printf_shows [OF b] k_printf_shows [OF c] show_text_append
      del: append.simps append_assoc)
qed

section \<open>Panics\<close>

definition panic_text :: "string \<Rightarrow> string" where
  "panic_text cs = ''[PANIC] Halt and catch fire'' @ [CHR 0x0A] @ cs"

lemma panic_shows:
  assumes "render reason (va_start args) = Inr cs"
  shows "panic reason args s = Inl (Panic reason, s\<lparr>intf := False, con := show_text (panic_text cs) (con s)\<rparr>)"
proof -
  have p: "render ''[PANIC] Halt and catch fire'' (va_start []) = Inr ''[PANIC] Halt and catch fire''" by simp
  have v: "vprintf (Some reason) (Some (va_start args)) t = Inr ((), t\<lparr>con := show_text cs (con t)\<rparr>)" for t :: "'a kcore_scheme"
    using assms by (simp add: vprintf_def lift_console_def con_vprintf_def print_screen_render)
  show ?thesis
    unfolding panic_def panic_text_def by (simp add: disable_interupts_def k_printfln_shows [OF p] v show_text_append
      del: append.simps append_assoc)
qed

section \<open>Reports\<close>

text \<open>The report of an exception without a handler.\<close>

definition exception_text :: "u32 \<Rightarrow> registers \<Rightarrow> string" where
  "exception_text word_above reg = dump_text word_above reg @
     panic_text (''received pointer: '' @ exception_messages ! unat (int_no reg) @ [CHR 0x0A])"

lemma exception_message_length: "n < 32 \<Longrightarrow> length (exception_messages ! n) < 100"
proof -
  assume "n < 32"
  then have "n < length exception_messages" by (simp add: exception_messages_def)
  moreover have "\<forall>m \<in> set exception_messages. length m < 100" by (simp add: exception_messages_def)
  ultimately show ?thesis by simp
qed

lemma unhandled_text:
  assumes "unat (int_no reg) < 32" "g_interrupt_handlers s ! unat (int_no reg) = 0"
  shows "isr_exception_handler run w reg s =
    Inl (Panic exception_reason, s\<lparr>intf := False, con := show_text (exception_text w reg) (con s)\<rparr>)"
proof -
  let ?m = "exception_messages ! unat (int_no reg)"
  have "conv_text (CHR ''s'') 0 0 0 (arg_units (VStr ?m)) = Some (?m, [])"
    using exception_message_length [OF assms(1)] by (intro conv_text_s) simp
  then have r: "render exception_reason (va_start [VStr ?m]) = Inr (''received pointer: '' @ ?m @ [CHR 0x0A])"
    by (simp add: exception_reason_def del: arg_units.simps)
  show ?thesis
    using assms unfolding exception_text_def
    by (simp add: isr_exception_handler_def handler_at_def NO_INTERRUPT_HANDLERS_def print_registers_shows panic_shows [OF r] show_text_append
        del: append.simps append_assoc)
qed

text \<open>The report of a page fault: the handler prints the fault with the bits of the error code under their masks, the first one inverted.\<close>

definition fault_text :: "u32 \<Rightarrow> u32 \<Rightarrow> string" where
  "fault_text a code =
     ''Page fault at address=0x'' @ hex8 a @ '' | present='' @ (if bit code 0 then ''0'' else ''1'') @
     '' read-only='' @ (if bit code 1 then ''2'' else ''0'') @ '' user-mode='' @ (if bit code 2 then ''4'' else ''0'') @ [CHR 0x0A] @
     ''reserved='' @ (if bit code 3 then ''8'' else ''0'') @ '' instruction-fetch='' @ (if bit code 4 then ''16'' else ''0'') @ [CHR 0x0A]"

lemma and_bit: "(w :: u32) AND 2 ^ k = (if bit w k then 2 ^ k else 0)"
  by (rule bit_word_eqI) (auto simp: bit_simps)

lemma signed_text_bits:
  "signed_text (w AND 2) = (if bit w 1 then ''2'' else ''0'')" "signed_text (w AND 4) = (if bit w 2 then ''4'' else ''0'')"
  "signed_text (w AND 8) = (if bit w 3 then ''8'' else ''0'')" "signed_text (w AND 0x10) = (if bit w 4 then ''16'' else ''0'')"
  "signed_text (if w AND 1 = 0 then 1 else 0) = (if bit w 0 then ''0'' else ''1'')"
proof -
  have d: "signed_text 0 = ''0''" "signed_text 1 = ''1''" "signed_text 2 = ''2''" "signed_text 4 = ''4''" "signed_text 8 = ''8''"
      "signed_text 0x10 = ''16''"
    by (simp_all add: signed_text_def decimal_def digits.simps char_of_def bit_0 word_le_nat_alt)
  show "signed_text (w AND 2) = (if bit w 1 then ''2'' else ''0'')" "signed_text (w AND 4) = (if bit w 2 then ''4'' else ''0'')"
    "signed_text (w AND 8) = (if bit w 3 then ''8'' else ''0'')" "signed_text (w AND 0x10) = (if bit w 4 then ''16'' else ''0'')"
    "signed_text (if w AND 1 = 0 then 1 else 0) = (if bit w 0 then ''0'' else ''1'')"
    using and_bit [of w 0] and_bit [of w 1] and_bit [of w 2] and_bit [of w 3] and_bit [of w 4] d by simp_all
qed

lemma page_fault_text:
  "page_fault_handler regs s = Inl (Panic ''here'', s\<lparr>intf := False,
     con := show_text (fault_text (cr2 s) (err_code regs) @ panic_text ''here'') (con s)\<rparr>)"
proof -
  let ?e = "err_code regs"
  let ?f = "''Page fault at address=%p | present=%d read-only=%d user-mode=%d'' @ [CHR 0x0A]
              @ ''reserved=%d instruction-fetch=%d''"
  let ?t = "''Page fault at address=0x'' @ hex8 (cr2 s) @ '' | present='' @ (if bit ?e 0 then ''0'' else ''1'') @
     '' read-only='' @ (if bit ?e 1 then ''2'' else ''0'') @ '' user-mode='' @ (if bit ?e 2 then ''4'' else ''0'') @ [CHR 0x0A] @
     ''reserved='' @ (if bit ?e 3 then ''8'' else ''0'') @ '' instruction-fetch='' @ (if bit ?e 4 then ''16'' else ''0'')"
  have r: "render ?f (va_start [VInt (cr2 s), VInt (if ?e AND 1 = 0 then 1 else 0), VInt (?e AND 2), VInt (?e AND 4), VInt (?e AND 8),
      VInt (?e AND 0x10)]) = Inr ?t"
    by (simp only: signed_text_bits [symmetric]) (simp add: conv_int_text conv_last_text del: arg_units.simps)
  have h: "render ''here'' (va_start []) = Inr ''here''" by simp
  have t: "fault_text (cr2 s) ?e = ?t @ [CHR 0x0A]" by (simp add: fault_text_def)
  show ?thesis
    unfolding page_fault_handler_def t
    by (simp add: k_printfln_shows [OF r] panic_shows [OF h] show_text_append del: append.simps append_assoc)
qed

lemma handled_text:
  assumes "unat (int_no reg) < 256" "g_interrupt_handlers s ! unat (int_no reg) = h" "h \<noteq> 0" "run h = page_fault_handler"
  shows "isr_exception_handler run w reg s = Inl (Panic ''here'', s\<lparr>intf := False,
     con := show_text (dump_text w reg @ fault_text (cr2 s) (err_code reg) @ panic_text ''here'') (con s)\<rparr>)"
  using assms by (simp add: isr_exception_handler_def handler_at_def NO_INTERRUPT_HANDLERS_def print_registers_shows page_fault_text
      show_text_append del: append.simps append_assoc)

section \<open>Exceptions while the kernel runs\<close>

text \<open>An exception: the processor goes through the gate of its vector, with an error code for some, and runs the stub.\<close>

definition raise ::
  "(u32 \<Rightarrow> registers \<Rightarrow> ('a idt_st_scheme, unit) kernel) \<Rightarrow> u32 \<Rightarrow> nat \<Rightarrow> u32 option \<Rightarrow> cpu \<Rightarrow> ('a idt_st_scheme, cpu) kernel" where
  "raise run word_above n code c s =
     kbind (deliver (segment_selector (g_idt s ! n)) (gate_target (g_idt s ! n)) code c) (exception_entry run word_above n) s"

lemma exception_gate:
  assumes "kernel_serves p s" "n < 32"
  shows "gate_target (g_idt s ! n) = exception_stub p n" "segment_selector (g_idt s ! n) = 0x08"
    "g_interrupt_handlers s ! n = (if n = 14 then page_fault_handler_at p else 0)"
proof -
  have "idt_vectors (exception_stub p) (irq_stub p) n = Some (exception_stub p n)"
    using assms(2) by (simp add: idt_vectors_def)
  then show "gate_target (g_idt s ! n) = exception_stub p n" "segment_selector (g_idt s ! n) = 0x08"
    using assms(1) by (simp_all add: kernel_serves_def)
  show "g_interrupt_handlers s ! n = (if n = 14 then page_fault_handler_at p else 0)"
    using assms by (simp add: kernel_serves_def)
qed

lemma raise_reports:
  fixes s :: "'a kernel_st_scheme"
  assumes "kernel_serves p s" "n < 32" "n \<notin> {17, 21, 29, 30}" "pushes_code n \<longleftrightarrow> code \<noteq> None"
    and "isr_exception_handler run w (entry_frame (of_nat n) (case code of None \<Rightarrow> 0 | Some e \<Rightarrow> e) c s)
      (s\<lparr>seg_cs := 0x08, intf := False, seg_data := 0x10\<rparr>) = Inl et"
  shows "raise run w n code c s = Inl et"
  using exception_path [of n code run w c s "0x08" "exception_stub p n"] own_code_pushed [OF assms(3)] assms(4,5)
  unfolding raise_def exception_gate [OF assms(1,2)] by auto

section \<open>Properties\<close>

text \<open>
  C17: an exception in the running kernel is reported in full. The processor goes through the gate of the exception to its
  stub, and the kernel stops with interrupts masked, its memory as it was, and this text on the screen: the registers of the faulting code, then the panic with the name
  of the exception. The text shows what the report has wrong: the dump has no \<open>cs\<close>, so that \<open>ss\<close>, \<open>eflags\<close> and \<open>useresp\<close> are shown under the
  name before theirs.
\<close>

theorem exception_text_shown:
  fixes s :: "'a kernel_st_scheme"
  assumes "kernel_serves p s" "n < 32" "n \<notin> {14, 17, 21, 29, 30}" "pushes_code n \<longleftrightarrow> code \<noteq> None"
  shows "raise run w n code c s = Inl (Panic exception_reason, s\<lparr>seg_cs := 0x08, seg_data := 0x10, intf := False,
    con := show_text (dump_text w (entry_frame (of_nat n) (case code of None \<Rightarrow> 0 | Some e \<Rightarrow> e) c s) @
      panic_text (''received pointer: '' @ exception_messages ! n @ [CHR 0x0A])) (con s)\<rparr>)"
proof (rule raise_reports [OF assms(1,2)])
  let ?f = "entry_frame (of_nat n) (case code of None \<Rightarrow> 0 | Some e \<Rightarrow> e) c s"
  have n: "unat (int_no ?f) = n" using assms(2) by (simp add: entry_frame_def unat_of_nat)
  have "g_interrupt_handlers s ! n = 0" using exception_gate(3) [OF assms(1,2)] assms(3) by simp
  then show "isr_exception_handler run w ?f (s\<lparr>seg_cs := 0x08, intf := False, seg_data := 0x10\<rparr>) =
      Inl (Panic exception_reason, s\<lparr>seg_cs := 0x08, seg_data := 0x10, intf := False,
        con := show_text (dump_text w ?f @ panic_text (''received pointer: '' @ exception_messages ! n @ [CHR 0x0A])) (con s)\<rparr>)"
    using unhandled_text [of ?f "s\<lparr>seg_cs := 0x08, intf := False, seg_data := 0x10\<rparr>" run w] assms(2)
    unfolding exception_text_def n by simp
qed (use assms in auto)

text \<open>
  C18: an access to an address without a mapping stops the running kernel with a report. The access does not come to its end;
  the processor raises a page fault with the address in \<open>cr2\<close>, and the handler that \<open>init_paging\<close> registered shows this address and the error code.
  The text shows what the report has wrong: \<open>present=1\<close> stands for a page that is not present.
\<close>

theorem page_fault_shown:
  fixes s :: "'a kernel_st_scheme"
  assumes "kernel_serves p s" "page_fault_handler_at p \<noteq> 0" "run (page_fault_handler_at p) = page_fault_handler" "mmu_walk s va = None"
  shows "load8 va s = Inl (PageFault va, s) \<and> store8 va b s = Inl (PageFault va, s)
    \<and> raise run w 14 (Some code) c (s\<lparr>cr2 := va\<rparr>) = Inl (Panic ''here'', s\<lparr>cr2 := va, seg_cs := 0x08, seg_data := 0x10, intf := False,
        con := show_text (dump_text w (entry_frame 14 code c s) @ fault_text va code @ panic_text ''here'') (con s)\<rparr>)"
proof -
  let ?s = "s\<lparr>cr2 := va\<rparr>"
  let ?f = "entry_frame (of_nat 14) (case Some code of None \<Rightarrow> 0 | Some e \<Rightarrow> e) c ?s"
  have up: "kernel_serves p ?s" using assms(1) by (simp add: kernel_serves_def)
  have n: "unat (int_no ?f) = 14" and f: "err_code ?f = code" "?f = entry_frame 14 code c s" by (simp_all add: entry_frame_def)
  have "g_interrupt_handlers ?s ! 14 = page_fault_handler_at p" using exception_gate(3) [OF up, of 14] by simp
  then have "isr_exception_handler run w ?f (?s\<lparr>seg_cs := 0x08, intf := False, seg_data := 0x10\<rparr>) =
      Inl (Panic ''here'', s\<lparr>cr2 := va, seg_cs := 0x08, seg_data := 0x10, intf := False,
        con := show_text (dump_text w (entry_frame 14 code c s) @ fault_text va code @ panic_text ''here'') (con s)\<rparr>)"
    using handled_text [where run = run, of ?f "?s\<lparr>seg_cs := 0x08, intf := False, seg_data := 0x10\<rparr>", OF _ _ assms(2,3), of w] n f by simp
  from raise_reports [OF up _ _ _ this] show ?thesis using assms(4) by (simp add: pushes_code_def load8_def store8_def)
qed

section \<open>A fault in the small kernel\<close>

theorem exception_text_shown_witness:
  "\<exists>(s :: kernel_st) t. raise (\<lambda>_ _. kreturn ()) 0 6 None sample_cpu s = Inl (Panic exception_reason, t) \<and> \<not> intf t \<and> mem t = mem s
     \<and> con t = show_text (dump_text 0 (entry_frame 6 0 sample_cpu s) @ panic_text (''received pointer: Invalid Opcode'' @ [CHR 0x0A])) (con s)"
proof -
  obtain s :: kernel_st where s: "kernel_serves sample_program s" using sample_kernel_serves by blast
  have "pushes_code 6 \<longleftrightarrow> (None :: u32 option) \<noteq> None" "exception_messages ! 6 = ''Invalid Opcode''"
    by (simp_all add: pushes_code_def exception_messages_def)
  with exception_text_shown [OF s, of 6 None "\<lambda>_ _. kreturn ()" 0 sample_cpu] show ?thesis by - (rule exI [of _ s], simp)
qed

text \<open>Writing to the first address behind the kernel.\<close>

theorem page_fault_shown_witness:
  "\<exists>(s :: kernel_st) t. store8 0xC0208000 1 s = Inl (PageFault 0xC0208000, s)
     \<and> raise (\<lambda>_. page_fault_handler) 0 14 (Some 2) sample_cpu (s\<lparr>cr2 := 0xC0208000\<rparr>) = Inl (Panic ''here'', t) \<and> \<not> intf t
     \<and> con t = show_text (dump_text 0 (entry_frame 14 2 sample_cpu s) @
         (''Page fault at address=0xC0208000 | present=1 read-only=2 user-mode=0'' @ [CHR 0x0A] @
          ''reserved=0 instruction-fetch=0'' @ [CHR 0x0A]) @ panic_text ''here'') (con s)"
proof -
  obtain s :: kernel_st where up: "kernel_up sample_program s" using kmain_init_up [OF sample_kernel_ready] by blast
  have "PAGE_ALIGN_UP 0xC0208000 = 0xC0208000" by (simp add: PAGE_ALIGN_UP_def NOT_ALIGNED_def PAGE_ALIGN_def PAGE_SIZE_def)
  then have none: "mmu_walk s 0xC0208000 = None" using up by (simp add: kernel_up_def)
  have h: "page_fault_handler_at sample_program \<noteq> 0" by (simp add: sample_program_def linkage.defs)
  have "hex8 0xC0208000 = ''C0208000''"
    by (simp add: hex8_def digits.simps char_of_def bit_0 word_le_nat_alt Let_def)
  then have "fault_text 0xC0208000 2 = ''Page fault at address=0xC0208000 | present=1 read-only=2 user-mode=0'' @ [CHR 0x0A] @
          ''reserved=0 instruction-fetch=0'' @ [CHR 0x0A]"
    by (simp add: fault_text_def bit_0 bit_numeral_rec)
  with page_fault_shown [OF kernel_up_serves [OF up] h refl none, of 1 0 2 sample_cpu] show ?thesis by - (rule exI [of _ s], simp)
qed

end
