(* ===== verification/Failure.thy ===== *)
theory Failure
  imports Run Faults
begin

text \<open>
  Runs of the kernel that end in a panic: a module list that is not on a page boundary, and a file without bytes.
\<close>

section \<open>A file without bytes\<close>

lemma null_size_render:
  "length nm < 2147483648 \<Longrightarrow> render null_size_reason (va_start [VStr nm]) = Inr (''NULL size file '' @ nm)"
  by (simp add: null_size_reason_def directive_letter conv_text_s del: arg_units.simps)

text \<open>What the round of such a file shows: its name, the byte that the driver prints, and the panic.\<close>

definition null_text :: "u32 \<Rightarrow> u8 list list \<Rightarrow> u8 list list \<Rightarrow> nat \<Rightarrow> string" where
  "null_text addr names datas i = ''Found file '' @ text_of (names ! i) @ [CHR 0x0A] @
     byte_text (addr + of_nat (start_of datas i)) @ panic_text (''NULL size file '' @ text_of (names ! i))"

lemma show_entry_null:
  fixes s :: "'a kernel_st_scheme" and i :: nat
  assumes lk: "lk = linkage.truncate p"
    and full: "disk_full D tr lk addr r names datas W s" and b: "buffers_ok D lk (buf_at p) addr r datas"
    and ptr: "pointers_ok p" "fs_root s = r" and dn: "vstr W (dentry lk) (names ! i)" and i: "i < length datas" "datas ! i = []"
    and first: "names ! i \<noteq> ascii ''dev''" "\<forall>j<i. names ! j \<noteq> names ! i"
  shows "\<exists>mm. show_entry p (dentry lk) s =
      Inl (Panic null_size_reason, s\<lparr>con := show_text (null_text addr names datas i) (con s), mem := mm, intf := False\<rparr>)"
proof -
  let ?node = "nod (r + 8192) i" and ?nm = "names ! i"
  let ?s = "s\<lparr>con := show_text (''Found file '' @ text_of ?nm @ [CHR 0x0A]) (con s)\<rparr>"
  have i': "i < length names" using full i by (simp add: disk_full_def)
  have len: "length ?nm < 64" using full i' by (simp add: disk_full_def disk_up_def)
  note hd = entry_head [OF lk full b ptr dn len]
  have up: "disk_up D tr lk addr r names W ?s" using hd(4) by (simp add: disk_full_def)
  have fl: "load32 (inode_flags ?node) ?s = Inr (FS_FILE, ?s)"
    unfolding inode_layout_nat by (rule file_load [OF up i']) (simp add: file_fields_def)
  let ?c = "show_text (byte_text (addr + of_nat (start_of datas i))) (con ?s)"
  have fit: "length (datas ! i) \<le> 256" using i(2) by simp
  obtain mm where mm: "read_fs (run_read p) ?node 0 256 (buf_at p) ?s = Inr (0, ?s\<lparr>con := ?c, mem := mm\<rparr>)"
      "disk_full D tr lk addr r names datas (vwrite (buf_at p) [] W) (?s\<lparr>con := ?c, mem := mm\<rparr>)"
    using entry_read [OF lk hd(4) b ptr(1) i(1) fit] unfolding i(2) by auto
  let ?t = "?s\<lparr>con := ?c, mem := mm\<rparr>"
  have "vwrite (buf_at p) [] W = W" by (simp add: vwrite_def fun_eq_iff)
  then have again: "string_from (dentry lk) ?t = Inr (text_of ?nm, ?t)"
    using entry_head(1) [where s = ?t, OF lk _ b ptr(1) _ dn len] mm(2) ptr(2) by simp
  have kind: "FS_FILE \<noteq> FS_DIRECTORY" by (simp add: FS_FILE_def FS_DIRECTORY_def)
  have "render null_size_reason (va_start [VStr (text_of ?nm)]) = Inr (''NULL size file '' @ text_of ?nm)"
    using len by (intro null_size_render) simp
  then obtain u where u: "(panic null_size_reason [VStr (text_of ?nm)] :: (_, unit) kernel) ?t = Inl (Panic null_size_reason, u)"
      "u = ?t\<lparr>intf := False, con := show_text (panic_text (''NULL size file '' @ text_of ?nm)) (con ?t)\<rparr>"
    using panic_shows [where s = ?t] by blast
  have "show_entry p (dentry lk) s = Inl (Panic null_size_reason, u)"
    unfolding show_entry_def using again u(1) kind hd(1-3) fl mm(1) ptr(2) node_of_first [OF i' first] by simp
  moreover have "u = s\<lparr>con := show_text (null_text addr names datas i) (con s), mem := mm, intf := False\<rparr>"
    by (simp add: u(2) null_text_def flip: show_text_append)
  ultimately show ?thesis by blast
qed

lemma list_files_null:
  fixes s :: "'a kernel_st_scheme"
  assumes lk: "lk = linkage.truncate p" and b: "buffers_ok D lk (buf_at p) addr r datas"
    and ptr: "pointers_ok p" and pf: "printable_files names (take i datas)" and i: "i < length datas" "datas ! i = []"
    and full: "disk_full D tr lk addr r names datas W s" and root: "fs_root s = r"
  shows "\<exists>t. list_files 2147483648 p 0 s = Inl (Panic null_size_reason, t) \<and> \<not> intf t
    \<and> con t = show_text (concat (map (entry_text addr names datas) [0..<Suc i]) @ null_text addr names datas i) (con s)"
proof -
  have n: "length names = length datas" "length datas \<le> 64" using full by (simp_all add: disk_full_def)
  then have "Suc i + 1 \<le> 2147483648" using i(1) by simp
  then obtain j where j: "2147483648 = Suc i + Suc j" unfolding le_iff_add by auto
  let ?s = "\<lambda>mm. s\<lparr>con := show_text (concat (map (entry_text addr names datas) [0..<Suc i])) (con s), mem := mm\<rparr>"
  obtain mm W1 where run: "list_files (Suc i + Suc j) p 0 s = list_files (Suc j) p (of_nat (Suc i)) (?s mm)"
      "disk_full D tr lk addr r names datas W1 (?s mm)"
    using list_files_run [where k = 0 and m = "Suc i" and j = "Suc j", unfolded of_nat_0,
        OF lk b ptr pf less_imp_le [OF i(1)] full root] by auto
  have k: "Suc i \<le> length datas" using i(1) by simp
  obtain mm2 W2 where rd: "readdir_fs (run_readdir p) r (of_nat (Suc i)) (?s mm) = Inr (dentry lk, ?s mm\<lparr>mem := mm2\<rparr>)"
      "disk_full D tr lk addr r names datas W2 (?s mm\<lparr>mem := mm2\<rparr>)" "vstr W2 (dentry lk) (fst (listed names (Suc i)))"
    using readdir_full [OF lk run(2) _ ptr k] b by (auto simp: buffers_ok_def)
  have nm: "vstr W2 (dentry lk) (names ! i)" using rd(3) by (simp add: listed_def)
  have i': "i < length names" using i n by simp
  have "names ! i \<noteq> ascii ''dev''" using pf nth_mem [OF i'] unfolding printable_files_def by (metis distinct.simps(2))
  moreover have "\<forall>j<i. names ! j \<noteq> names ! i" using pf i' by (auto simp: printable_files_def nth_eq_iff_index_eq)
  moreover have "fs_root (?s mm\<lparr>mem := mm2\<rparr>) = r" using root by simp
  ultimately obtain mm3 where "show_entry p (dentry lk) (?s mm\<lparr>mem := mm2\<rparr>) = Inl (Panic null_size_reason,
      ?s mm\<lparr>mem := mm2\<rparr>\<lparr>con := show_text (null_text addr names datas i) (con (?s mm)), mem := mm3, intf := False\<rparr>)"
    using show_entry_null [OF lk rd(2) b ptr _ nm i] by auto
  moreover have "dentry lk \<noteq> 0" using b by (simp add: buffers_ok_def dentry_placed_def)
  ultimately have "list_files (Suc j) p (of_nat (Suc i)) (?s mm) = Inl (Panic null_size_reason,
      ?s mm\<lparr>mem := mm2\<rparr>\<lparr>con := show_text (null_text addr names datas i) (con (?s mm)), mem := mm3, intf := False\<rparr>)"
    using rd(1) root by simp
  then show ?thesis unfolding j run(1) by (simp add: show_text_append del: upt_Suc)
qed

section \<open>A failed assertion\<close>

lemma conv_str_text:
  "length str < 2147483648 \<Longrightarrow> conv_text (CHR ''s'') 0 0 0 (arg_units (VStr str) @ ap) = Some (str, ap)"
  by (simp add: conv_text_def layout_plain del: arg_units.simps)

lemma assert_render:
  "render assert_reason (va_start [VStr paging_c, VStr ''page_map'', VInt 79]) =
     Inr (''Assertion failed in '' @ paging_c @ '':page_map() at line 79'')"
proof -
  have "signed_text 79 = ''79''"
    by (simp add: signed_text_def decimal_def digits.simps char_of_def bit_0 word_le_nat_alt)
  then show ?thesis
    by (simp add: assert_reason_def paging_c_def directive_letter conv_str_text conv_last_text del: arg_units.simps)
qed

section \<open>The run that reaches such a file\<close>

lemma null_text_page: "page_aligned addr \<Longrightarrow> null_text addr names datas i = null_text 0 names datas i"
  by (simp add: null_text_def byte_text_page)

lemma null_text_zeroed: "null_text addr names (zeroed datas) i = null_text addr names datas i"
  by (simp add: null_text_def)

section \<open>Properties\<close>

text \<open>
  C14: a file without bytes stops the kernel. When the module is an image of the build tool in which a file is empty, the run from
  the loader ends in a panic with interrupts masked: the screen shows the listing up to that file, its name, and the reason with the name; the files
  behind it are never listed and no interrupt is ever served.
\<close>

theorem start_stops_at_empty_file:
  fixes s :: "'a kernel_st_scheme"
  assumes "linked z p" "one_table z" "\<not> paging_on s" "module_loaded p mbi load names s"
    and "image_of names datas img" "loaded (mem s) load (take 4096 img)" "short_files names datas"
    and "buffers_placed p" "pointers_ok (program.truncate p)"
    and "i < length datas" "datas ! i = []" "\<forall>j<i. datas ! j \<noteq> []"
  shows "\<exists>u t. start p eax mbi s = kthen (list_files 2147483648 (program.truncate p) 0) (kmodify (\<lambda>s. s\<lparr>intf := True\<rparr>)) u
    \<and> start p eax mbi s = Inl (Panic null_size_reason, t) \<and> \<not> intf t
    \<and> con t = show_text (bare_listing names (take i datas) @ null_text 0 names datas i) (con u)"
proof -
  let ?lk = "linkage.truncate p"
  obtain u addr D W where u: "start p eax mbi s = kthen (list_files 2147483648 (program.truncate p) 0) (kmodify (\<lambda>s. s\<lparr>intf := True\<rparr>)) u"
    "disk_full D (mount_tr addr load) ?lk addr (addr + 4096) names (zeroed datas) W u"
    "buffers_ok D ?lk (buf_at p) addr (addr + 4096) (zeroed datas)" "fs_root u = addr + 4096" "page_aligned addr"
    using start_listing [OF assms(1-8), of eax] by blast
  have "cs \<noteq> [] \<and> length cs \<le> 256" if "cs \<in> set (take i datas)" for cs
    using that assms(7,10,12) in_set_takeD [of cs i datas] by (auto simp: in_set_conv_nth short_files_def)
  then have files: "printable_files names (take i (zeroed datas))"
    using assms(7) by (fastforce simp: printable_files_def short_files_def zeroed_def take_map)
  have i: "i < length (zeroed datas)" "zeroed datas ! i = []" using assms(10,11) by simp_all
  obtain t where t: "list_files 2147483648 (program.truncate p) 0 u = Inl (Panic null_size_reason, t)" "\<not> intf t"
      "con t = show_text (concat (map (entry_text addr names (zeroed datas)) [0..<Suc i]) @ null_text addr names (zeroed datas) i) (con u)"
    using list_files_null [of ?lk "program.truncate p", OF _ _ assms(9) files i u(2,4)] u(3) by auto
  have le: "i \<le> length datas" using assms(10) by simp
  have "con t = show_text (bare_listing names (take i datas) @ null_text 0 names datas i) (con u)"
    using t(3) unfolding bare_listing_entries [OF u(5) le] null_text_zeroed null_text_page [OF u(5)] .
  moreover have "start p eax mbi s = Inl (Panic null_size_reason, t)" using u(1) t(1) by simp
  ultimately show ?thesis using u(1) t(2) by blast
qed

text \<open>
  C15: a loader that puts the list of its modules anywhere but on a page boundary stops the kernel. The components come up, and then
  \<open>kmain\<close> asks \<open>page_map\<close> for the address of the list as it is; its first assertion fails, and the run from the loader ends in a
  panic with interrupts masked, before any file is mounted.
\<close>

theorem start_rejects_module_list:
  fixes s :: "'a kernel_st_scheme"
  assumes "linked z p" "one_table z" "\<not> paging_on s"
    and "aligned4 (mbi_mods_addr mbi)" "unat (mbi_mods_addr mbi) < 0x100000"
    and "\<not> page_aligned (get32 (mem s) (mbi_mods_addr mbi))"
  shows "\<exists>u t. start p eax mbi s = kthen (kmain_mount (program.truncate p) mbi)
       (kthen (list_files 2147483648 (program.truncate p) 0) (kmodify (\<lambda>s. s\<lparr>intf := True\<rparr>))) u
    \<and> kernel_up (program.truncate p) u \<and> start p eax mbi s = Inl (Panic assert_reason, t) \<and> \<not> intf t
    \<and> con t = show_text (panic_text (''Assertion failed in '' @ paging_c @ '':page_map() at line 79'')) (con u)"
proof -
  have pl: "placed p" by (rule linked_placed [OF assms(1,2)])
  note pd = placedD [OF pl]
  let ?mods = "get32 (mem s) (mbi_mods_addr mbi)"
  obtain u where u: "start p eax mbi s = kthen (kmain_mount (program.truncate p) mbi)
       (kthen (list_files 2147483648 (program.truncate p) 0) (kmodify (\<lambda>s. s\<lparr>intf := True\<rparr>))) u"
    "kernel_up (program.truncate p) u" "arena_ok u" "initialBase u = EARLY_KMALLOC_START p" "maxBase u = EARLY_KMALLOC_END p"
    "unat (currentBase u) \<le> unat (EARLY_KMALLOC_START p) + 20480"
    "\<forall>x. x \<notin> boot_writes p \<longrightarrow> x \<notin> kphys ` allocated u \<longrightarrow> mem u x = mem s x"
    using start_up [OF assms(1-3), of eax mbi] by blast
  let ?p = "page_up (currentBase u)"
  let ?v = "u\<lparr>currentBase := ?p + 16\<rparr>"
  have "unat (currentBase u) \<le> 4294963200" using u(3) by (auto simp: arena_ok_def word_le_nat_alt)
  moreover have "(unat (EARLY_KMALLOC_START p) + 20480) mod 4096 = 0" using pd(15) by (simp add: page_aligned_def mod_eq_0_iff_dvd)
  ultimately have "unat ?p \<le> unat (EARLY_KMALLOC_START p) + 20480" using u(6) by (intro page_up_below)
  then have fit: "unat ?p + 4096 \<le> unat (maxBase u)" using pd(16) by (simp add: u(5))
  have "(16 :: u32) \<noteq> 0" "unat (16 :: u32) \<le> 4096" by simp_all
  then have kmalloc: "kmalloc_early_align multiboot_module_size u = Inr (?p, ?v)"
    using fresh_page(1) [OF u(3) refl _ _ fit] by (simp add: multiboot_module_size_def)
  have "allocated u \<subseteq> kernel_range p" using heap_in_kernel [OF pl u(4,5)] u(3) by (auto simp: allocated_def heap_def arena_ok_def)
  then have "mem u x = mem s x" if "x \<in> word_bytes (mbi_mods_addr mbi)" for x
    using low_word [OF pl assms(4,5) that] u(7) by blast
  then have "get32 (mem u) (mbi_mods_addr mbi) = ?mods" by (rule get32_cong)
  moreover have "mmu_walk ?v (mbi_mods_addr mbi) = mmu_walk u (mbi_mods_addr mbi)" by (simp add: mmu_walk_def paging_on_def cong: if_cong)
  moreover have "mmu_walk u (mbi_mods_addr mbi) = Some (mbi_mods_addr mbi)" using u(2) assms(5) by (simp add: kernel_up_def)
  ultimately have mods: "load32 (mbi_mods_addr mbi) ?v = Inr (?mods, ?v)" using load32_walk [of ?v, OF _ assms(4)] by simp
  let ?a = "''Assertion failed in '' @ paging_c @ '':page_map() at line 79''"
  let ?t = "?v\<lparr>intf := False, con := show_text (panic_text ?a) (con ?v)\<rparr>"
  have "?mods AND NOT_ALIGNED \<noteq> 0" using assms(6) by (simp add: NOT_ALIGNED_def NOT_PAGE_ALIGN offset_zero_iff page_aligned_def)
  moreover have "ASSERT False paging_c ''page_map'' 79 ?v = Inl (Panic assert_reason, ?t)"
    unfolding ASSERT_def using panic_shows [where s = ?v, OF assert_render] by simp
  ultimately have "page_map ?p ?mods PAGE_ENTRY_RW ?v = Inl (Panic assert_reason, ?t)" by (simp add: page_map_def)
  then have "kmain_mount (program.truncate p) mbi u = Inl (Panic assert_reason, ?t)"
    using kmalloc mods by (simp add: kmain_mount_def)
  then have "start p eax mbi s = Inl (Panic assert_reason, ?t)" using u(1) by simp
  moreover have "con ?t = show_text (panic_text ?a) (con u)" "\<not> intf ?t" by simp_all
  ultimately show ?thesis using u(1,2) by blast
qed

section \<open>Runs of the small kernel\<close>

definition null_datas :: "u8 list list" where "null_datas = [[72, 105, 0], []]"

lemma null_image: "\<exists>img. image_of sample_names null_datas img \<and> length img \<le> 4872"
proof -
  have "args_ok [[1] \<mapsto> [72, 105, 0], [2] \<mapsto> []] sample_argv null_datas"
    by (simp add: args_ok_def sample_argv_def null_datas_def less_Suc_eq)
  from initrd_main_image [OF this this, of "replicate 4864 0" "\<lambda>_. 0"] obtain img where "image_of sample_names null_datas img"
    by (auto simp: null_datas_def start_of_def arg_names_def sample_argv_def sample_names_def)
  moreover from this have "length img \<le> 4872" by (simp add: image_of_def null_datas_def start_of_def)
  ultimately show ?thesis by blast
qed

theorem start_stops_at_empty_file_witness:
  "\<exists>s u t. start launch_program 0x2BADB002 0x9000 (s :: kernel_st) = Inl (Panic null_size_reason, t) \<and> \<not> intf t
     \<and> con t = show_text ((''Found file dev'' @ [CHR 0x0A] @ ''(directory)'' @ [CHR 0x0A] @
         ''Found file a'' @ [CHR 0x0A, CHR 0x04] @ ''content: '' @ [CHR 0x0A]) @
         (''Found file bc'' @ [CHR 0x0A, CHR 0x07] @ ''[PANIC] Halt and catch fire'' @ [CHR 0x0A] @ ''NULL size file bc'')) u"
proof -
  obtain img where img: "image_of sample_names null_datas img" "length img \<le> 4872" using null_image by blast
  have d: "short_files sample_names null_datas" "1 < length null_datas" "null_datas ! 1 = []" "\<forall>j<1. null_datas ! j \<noteq> []"
    by (simp_all add: short_files_def sample_names_def null_datas_def ascii_names start_of_def)
  have t: "bare_listing sample_names (take 1 null_datas) = ''Found file dev'' @ [CHR 0x0A] @ ''(directory)'' @ [CHR 0x0A] @
       ''Found file a'' @ [CHR 0x0A, CHR 0x04] @ ''content: '' @ [CHR 0x0A]"
    "null_text 0 sample_names null_datas 1 =
       ''Found file bc'' @ [CHR 0x0A, CHR 0x07] @ ''[PANIC] Halt and catch fire'' @ [CHR 0x0A] @ ''NULL size file bc''"
    by (simp_all add: bare_listing_def null_text_def panic_text_def sample_names_def null_datas_def text_of_def byte_text_def start_of_def Let_def
        char_of_def bit_0 upt_rec)
  show ?thesis
    using start_stops_at_empty_file [OF launch_linked sample_linked(2) launch_off launch_module_with [OF img] img(1) launch_image
        d(1) launch_buffers_placed(1,2) d(2-4), of "0x2BADB002"] unfolding t by blast
qed

theorem start_rejects_module_list_witness:
  "\<exists>t. start (image_of_sizes sample_sizes) 0x2BADB002 0x9000 (loaded_kernel\<lparr>mem := put32 (\<lambda>_. 0) 0x9018 4\<rparr>) =
      Inl (Panic assert_reason, t) \<and> \<not> intf t"
proof -
  let ?s = "loaded_kernel\<lparr>mem := put32 (\<lambda>_. 0) 0x9018 4\<rparr>"
  have off: "\<not> paging_on ?s" using loaded_off by simp
  have m: "aligned4 (mbi_mods_addr 0x9000)" "unat (mbi_mods_addr 0x9000) < 0x100000"
      "\<not> page_aligned (get32 (mem ?s) (mbi_mods_addr 0x9000))"
    by (simp_all add: mbi_mods_addr_def aligned4_def page_aligned_def)
  from start_rejects_module_list [OF sample_linked off m, of "0x2BADB002"] show ?thesis by blast
qed

end
