(* ===== verification/Simulation.thy ===== *)
theory Simulation
  imports Prelude
begin

text \<open>
  Sequences of calls. The operations of a component are a function from requests to computations; what they promise is a relation between
  abstract states. A simulation of one request extends to every sequence of requests, with the same answers.
\<close>

text \<open>The computations for a list of requests, one after the other, with the list of their answers.\<close>

primrec run_all :: "('q \<Rightarrow> ('s, 'a) kernel) \<Rightarrow> 'q list \<Rightarrow> ('s, 'a list) kernel" where
  "run_all c [] = kreturn []"
| "run_all c (q # qs) = kbind (c q) (\<lambda>a. kbind (run_all c qs) (\<lambda>as. kreturn (a # as)))"

inductive steps :: "('m \<Rightarrow> 'q \<Rightarrow> 'a \<Rightarrow> 'm \<Rightarrow> bool) \<Rightarrow> 'm \<Rightarrow> 'q list \<Rightarrow> 'a list \<Rightarrow> 'm \<Rightarrow> bool"
  for step :: "'m \<Rightarrow> 'q \<Rightarrow> 'a \<Rightarrow> 'm \<Rightarrow> bool"
where
  none [intro!]: "steps step m [] [] m"
| more [intro]: "step m q a m' \<Longrightarrow> steps step m' qs as m'' \<Longrightarrow> steps step m (q # qs) (a # as) m''"

inductive_simps steps_simps [simp]: "steps step m [] as m'" "steps step m (q # qs) as m'"

locale forward_simulation =
  fixes run :: "'q \<Rightarrow> ('s, 'a) kernel"
    and step :: "'m \<Rightarrow> 'q \<Rightarrow> 'a \<Rightarrow> 'm \<Rightarrow> bool"
    and rel :: "'m \<Rightarrow> 's \<Rightarrow> bool"
  assumes simulates: "step m q a m' \<Longrightarrow> rel m s \<Longrightarrow> \<exists>s'. run q s = Inr (a, s') \<and> rel m' s'"
begin

lemma run_all_simulates:
  assumes "steps step m qs as m'" "rel m s"
  shows "\<exists>s'. run_all run qs s = Inr (as, s') \<and> rel m' s'"
  using assms
proof (induction arbitrary: s rule: steps.induct)
  case (more m q a m1 qs as m2)
  then obtain s1 where "run q s = Inr (a, s1)" "rel m1 s1" using simulates by blast
  moreover from more.IH [OF this(2)] obtain s2 where "run_all run qs s1 = Inr (as, s2)" "rel m2 s2" by blast
  ultimately show ?case by auto
qed auto

text \<open>What the client sees is determined: related states give every sequence of requests one list of answers.\<close>

lemma answers_determined:
  assumes "steps step m qs as m'" "steps step m qs bs m''" "rel m s"
  shows "as = bs"
  using run_all_simulates [OF assms(1,3)] run_all_simulates [OF assms(2,3)] by auto

end

end
