(* ===== verification/Client.thy ===== *)
theory Client
  imports Listing Simulation
begin

text \<open>
  The file system as its clients see it. A client calls the operations of \<^verbatim>\<open>src/fs/vfs.c\<close> on a mounted disk in any order and uses memory
  of its own in between; what it observes is an abstract file system, a list of names and a list of contents that never change.
\<close>

section \<open>Requests and answers\<close>

text \<open>
  The request for the entry of the root at an index, whose name the client reads; the request for a name at an address; the request for a part
  of a file, with the address of its node, the offset, the size and the buffer; and a store into memory of the client.
\<close>

datatype request = Entry u32 | Find u32 | Fetch u32 u32 u32 u32 | Poke u32 u8

datatype answer = Name "string option" | Node u32 | Count u32 | Poked

definition serve :: "program \<Rightarrow> request \<Rightarrow> ('a kernel_st_scheme, answer) kernel" where
  "serve p q = kbind (kgets fs_root) (\<lambda>r. case q of
     Entry k \<Rightarrow> kbind (readdir_fs (run_readdir p) r k) (\<lambda>d.
       if d = 0 then kreturn (Name None) else kbind (string_from d) (\<lambda>cs. kreturn (Name (Some cs))))
   | Find a \<Rightarrow> kbind (finddir_fs (run_finddir p) r a) (\<lambda>n. kreturn (Node n))
   | Fetch node off n b \<Rightarrow> kbind (read_fs (run_read p) node off n b) (\<lambda>c. kreturn (Count c))
   | Poke a v \<Rightarrow> kthen (store8 a v) (kreturn Poked))"

section \<open>The abstract file system\<close>

text \<open>
  The state is the client's memory \<open>C\<close>. A name is looked up among the names; a part of a file is copied
  into the buffer; a listing changes nothing that the client sees.
\<close>

inductive fs_step ::
  "u32 set \<Rightarrow> u32 \<Rightarrow> u8 list list \<Rightarrow> u8 list list \<Rightarrow> (u32 \<Rightarrow> u8) \<Rightarrow> request \<Rightarrow> answer \<Rightarrow> (u32 \<Rightarrow> u8) \<Rightarrow> bool"
  for C :: "u32 set" and r :: u32 and names datas :: "u8 list list"
where
  entry: "k \<le> length datas \<Longrightarrow> fs_step C r names datas M (Entry (of_nat k)) (Name (Some (text_of (fst (listed names k))))) M"
| no_entry: "length datas < unat k \<Longrightarrow> fs_step C r names datas M (Entry k) (Name None) M"
| find: "vstr M a nm \<Longrightarrow> block a (Suc (length nm)) \<subseteq> C \<Longrightarrow> length nm \<le> 2147483647 \<Longrightarrow>
    fs_step C r names datas M (Find a) (Node (node_of r names nm)) M"
| fetch: "i < length datas \<Longrightarrow> part = take (unat n) (drop (unat off) (datas ! i)) \<Longrightarrow> unat off + unat n < 4294967296 \<Longrightarrow>
    block b (unat n) \<subseteq> C \<Longrightarrow>
    fs_step C r names datas M (Fetch (nod (r + 8192) i) off n b) (Count (of_nat (length part))) (vwrite b part M)"
| poke: "a \<in> C \<Longrightarrow> fs_step C r names datas M (Poke a v) Poked (M(a := v))"

section \<open>The simulation\<close>

text \<open>Memory of the client: behind the view, apart from the disk and from the driver's directory entry.\<close>

definition client_memory :: "u32 set \<Rightarrow> linkage \<Rightarrow> u32 \<Rightarrow> u32 \<Rightarrow> u8 list list \<Rightarrow> u32 set \<Rightarrow> bool" where
  "client_memory D lk addr r datas C \<longleftrightarrow> dentry_placed D lk addr r datas \<and> C \<subseteq> D
     \<and> C \<inter> (disk_range lk addr r datas \<union> block (dentry lk) 68) = {}"

definition client_sees ::
  "program \<Rightarrow> u32 set \<Rightarrow> (u32 \<Rightarrow> u32) \<Rightarrow> u32 \<Rightarrow> u32 \<Rightarrow> u8 list list \<Rightarrow> u8 list list \<Rightarrow> u32 set \<Rightarrow> (u32 \<Rightarrow> u8) \<Rightarrow> 'a kernel_st_scheme \<Rightarrow> bool" where
  "client_sees p D tr addr r names datas C M s \<longleftrightarrow> client_memory D (linkage.truncate p) addr r datas C \<and> pointers_ok p \<and> fs_root s = r
     \<and> (\<exists>W. disk_full D tr (linkage.truncate p) addr r names datas W s \<and> (\<forall>x \<in> C. W x = M x))"

lemma readdir_beyond:
  assumes "disk_up D tr lk addr r names W s" "length names < unat k"
  shows "readdir lk r k s = Inr (0, s)"
proof -
  have st: "disk_state addr r (length names) s" and n: "length names < 2147483648"
    using assms(1) by (simp_all add: disk_up_def)
  have "k \<noteq> 0" using assms(2) by auto
  moreover have "1 \<le> k" using assms(2) by (simp add: word_le_nat_alt)
  then have "unat (k - 1) = unat k - 1" by (simp add: unat_sub_le)
  then have "of_nat (length names) \<le> k - 1"
    using assms(2) n by (simp add: word_le_nat_alt unat_of_nat_u32)
  ultimately show ?thesis using st by (simp add: readdir_def disk_state_def Let_def)
qed

lemma disk_full_store:
  fixes s :: "'a kernel_st_scheme"
  assumes full: "disk_full D tr lk addr r names datas W s" and a: "a \<in> D" "a \<notin> disk_range lk addr r datas"
  shows "\<exists>mm. store8 a v s = Inr ((), s\<lparr>mem := mm\<rparr>) \<and> disk_full D tr lk addr r names datas (W(a := v)) (s\<lparr>mem := mm\<rparr>)"
proof -
  have "disk_up D tr lk addr r names W s" and n: "length names = length datas" using full by (simp_all add: disk_full_def)
  then have up: "view D tr W s" "disk_state addr r (length datas) s" by (simp_all add: disk_up_def)
  obtain mm where mm: "store8 a v s = Inr ((), s\<lparr>mem := mm\<rparr>)" "view D tr (W(a := v)) (s\<lparr>mem := mm\<rparr>)"
    by (rule writesE [OF writes_store8 [OF a(1)] up(1)]) blast
  have "disk_full D tr lk addr r names datas (W(a := v)) (s\<lparr>mem := mm\<rparr>)"
    by (rule disk_full_frame [OF full mm(2)]) (use a(2) up(2) n in \<open>auto simp: disk_state_def\<close>)
  with mm(1) show ?thesis by blast
qed

lemma client_seesE:
  assumes "client_sees p D tr addr r names datas C M s"
  obtains W where "disk_full D tr (linkage.truncate p) addr r names datas W s" "\<forall>x \<in> C. W x = M x"
    "dentry_placed D (linkage.truncate p) addr r datas" "C \<subseteq> D" "C \<inter> disk_range (linkage.truncate p) addr r datas = {}"
    "C \<inter> block (dentry (linkage.truncate p)) 68 = {}" "pointers_ok p" "fs_root s = r"
  using assms unfolding client_sees_def client_memory_def by blast

lemma client_seesI:
  assumes "client_sees p D tr addr r names datas C M s" "disk_full D tr (linkage.truncate p) addr r names datas W t"
    and "\<forall>x \<in> C. W x = M' x" "fs_root t = fs_root s"
  shows "client_sees p D tr addr r names datas C M' t"
  using assms unfolding client_sees_def by auto

lemma serve_entry:
  fixes s :: "'a kernel_st_scheme"
  assumes "client_sees p D tr addr r names datas C M s" "k \<le> length datas"
  shows "\<exists>s'. serve p (Entry (of_nat k)) s = Inr (Name (Some (text_of (fst (listed names k)))), s')
    \<and> client_sees p D tr addr r names datas C M s'"
proof -
  let ?lk = "linkage.truncate p" and ?nm = "fst (listed names k)"
  obtain W where W: "disk_full D tr ?lk addr r names datas W s" "\<forall>x \<in> C. W x = M x" "dentry_placed D ?lk addr r datas"
      "C \<inter> block (dentry ?lk) 68 = {}" "pointers_ok p" "fs_root s = r"
    by (rule client_seesE [OF assms(1)]) blast
  obtain mm W' where r: "readdir_fs (run_readdir p) r (of_nat k) s = Inr (dentry ?lk, s\<lparr>mem := mm\<rparr>)"
      "disk_full D tr ?lk addr r names datas W' (s\<lparr>mem := mm\<rparr>)" "vstr W' (dentry ?lk) ?nm"
      "\<forall>x. x \<notin> block (dentry ?lk) 68 \<longrightarrow> W' x = W x"
    using readdir_full [OF refl W(1,3,5) assms(2)] by blast
  have up: "disk_up D tr ?lk addr r names W' (s\<lparr>mem := mm\<rparr>)" "k \<le> length names" using r(2) assms(2) by (simp_all add: disk_full_def)
  have len: "length ?nm < 64" using listed_name(1) [OF up] .
  have "string_from (dentry ?lk) (s\<lparr>mem := mm\<rparr>) = Inr (text_of ?nm, s\<lparr>mem := mm\<rparr>)"
  proof (rule string_from_view [OF _ r(3)])
    show "view D tr W' (s\<lparr>mem := mm\<rparr>)" using up(1) by (simp add: disk_up_def)
    show "block (dentry ?lk) (Suc (length ?nm)) \<subseteq> D" "unat (dentry ?lk) + length ?nm < 4294967296"
      using W(3) len block_mono [of "Suc (length ?nm)" 68 "dentry ?lk"] by (auto simp: dentry_placed_def)
  qed
  moreover have "dentry ?lk \<noteq> 0" using W(3) by (simp add: dentry_placed_def)
  ultimately have "serve p (Entry (of_nat k)) s = Inr (Name (Some (text_of ?nm)), s\<lparr>mem := mm\<rparr>)"
    using r(1) W(6) by (simp add: serve_def)
  moreover have "W' x = M x" if "x \<in> C" for x
  proof -
    have "x \<notin> block (dentry ?lk) 68" using W(4) that by blast
    then show ?thesis using r(4) W(2) that by simp
  qed
  then have "client_sees p D tr addr r names datas C M (s\<lparr>mem := mm\<rparr>)"
    by (intro client_seesI [OF assms(1) r(2)]) simp_all
  ultimately show ?thesis by blast
qed

lemma serve_simulates:
  fixes s :: "'a kernel_st_scheme"
  assumes "fs_step C r names datas M q a M'" "client_sees p D tr addr r names datas C M s"
  shows "\<exists>s'. serve p q s = Inr (a, s') \<and> client_sees p D tr addr r names datas C M' s'"
proof -
  let ?lk = "linkage.truncate p"
  obtain W where W: "disk_full D tr ?lk addr r names datas W s" "\<forall>x \<in> C. W x = M x"
      "C \<subseteq> D" "C \<inter> disk_range ?lk addr r datas = {}" "pointers_ok p" "fs_root s = r"
    by (rule client_seesE [OF assms(2)]) blast
  have up: "disk_up D tr ?lk addr r names W s" and n: "length names = length datas" using W(1) by (simp_all add: disk_full_def)
  from assms(1) show ?thesis
  proof cases
    case (entry k)
    then show ?thesis using serve_entry [OF assms(2)] by blast
  next
    case (no_entry k)
    have "readdir_fs (run_readdir p) r k s = Inr (0, s)"
      using readdir_fs_eq [OF up, of "run_readdir p" k] readdir_beyond [OF up] no_entry(4) W(5) n
      by (simp add: pointers_ok_def pointer_runs)
    then have "serve p q s = Inr (a, s)" using no_entry W(6) by (simp add: serve_def)
    then show ?thesis using assms(2) no_entry by blast
  next
    case (find b nm)
    have "vstr W b nm" by (rule vstr_cong [OF find(4)]) (use find(5) W(2) in blast)
    then have "name_at D W b nm" using find(5,6) W(3) by (auto simp: name_at_def)
    then have "finddir_fs (run_finddir p) r b s = Inr (node_of r names nm, s)"
      using finddir_fs_run [where run = "run_finddir p", OF up] W(5) by (simp add: pointers_ok_def pointer_runs)
    then have "serve p q s = Inr (a, s)" using find W(6) by (simp add: serve_def)
    then show ?thesis using assms(2) find by blast
  next
    case (fetch i part n off b)
    have blk: "block b (unat n) \<subseteq> D" "block b (unat n) \<inter> disk_range ?lk addr r datas = {}"
      using fetch(7) W(3,4) by blast+
    obtain c mm where rd: "read_fs (run_read p) (nod (r + 8192) i) off n b s = Inr (of_nat (length part), s\<lparr>con := c, mem := mm\<rparr>)"
        "disk_full D tr ?lk addr r names datas (vwrite b part W) (s\<lparr>con := c, mem := mm\<rparr>)"
      using file_read [OF refl W(1,5) fetch(4,6) blk] unfolding fetch(5) [symmetric] by blast
    have "\<forall>x \<in> C. vwrite b part W x = M' x" using W(2) fetch(3) by (simp add: vwrite_def)
    then have "client_sees p D tr addr r names datas C M' (s\<lparr>con := c, mem := mm\<rparr>)"
      by (intro client_seesI [OF assms(2) rd(2)]) simp_all
    moreover have "serve p q s = Inr (a, s\<lparr>con := c, mem := mm\<rparr>)"
      using rd(1) W(6) unfolding fetch(1,2) serve_def by simp
    ultimately show ?thesis by blast
  next
    case (poke b v)
    have "b \<in> D" "b \<notin> disk_range ?lk addr r datas" using poke(4) W(3,4) by blast+
    from disk_full_store [OF W(1) this]
    obtain mm where st: "store8 b v s = Inr ((), s\<lparr>mem := mm\<rparr>)"
        "disk_full D tr ?lk addr r names datas (W(b := v)) (s\<lparr>mem := mm\<rparr>)" by blast
    have "\<forall>x \<in> C. (W(b := v)) x = M' x" using W(2) poke(3) by simp
    then have "client_sees p D tr addr r names datas C M' (s\<lparr>mem := mm\<rparr>)"
      by (intro client_seesI [OF assms(2) st(2)]) simp_all
    moreover have "serve p q s = Inr (a, s\<lparr>mem := mm\<rparr>)" using st(1) unfolding poke(1,2) serve_def by simp
    ultimately show ?thesis by blast
  qed
qed

interpretation session: forward_simulation "serve p" "fs_step C r names datas"
  "client_sees p D tr addr r names datas C :: _ \<Rightarrow> 'a kernel_st_scheme \<Rightarrow> bool" for p C r names datas D tr addr
  by unfold_locales (rule serve_simulates)

lemma mounted_client_sees:
  fixes s1 :: "'a kernel_st_scheme"
  assumes c: "client_memory D (linkage.truncate p) addr r datas C" and ptr: "pointers_ok p"
    and full: "disk_full D tr (linkage.truncate p) addr r names datas W s1"
    and mt: "mounted (linkage.truncate p) addr r names V W" and al: "aligned4 addr"
  shows "client_sees p D tr addr r names datas C V (s1\<lparr>fs_root := r\<rparr>)"
proof -
  let ?lk = "linkage.truncate p"
  have n: "length names = length datas" "length datas \<le> 64" and up: "disk_up D tr ?lk addr r names W s1"
    using full by (simp_all add: disk_full_def)
  have "disk_full D tr ?lk addr r names datas W (s1\<lparr>fs_root := r\<rparr>)"
    by (rule disk_full_frame [OF full]) (use up n in \<open>auto simp: disk_up_def disk_state_def intro: view_frame\<close>)
  moreover have "W x = V x" if "x \<in> C" for x
  proof (rule mounted_outside [OF mt al])
    have "x \<notin> disk_range ?lk addr r datas" using that c unfolding client_memory_def by blast
    then show "x \<notin> disk_memory addr r (length names)" using disk_range_memory [OF n(2), of addr r ?lk] n(1) by auto
  qed
  ultimately show ?thesis using c ptr unfolding client_sees_def by auto
qed

section \<open>Properties\<close>


section \<open>A session on the small disk\<close>

text \<open>
  The client writes the name \<open>a\<close> into its memory, looks it up, reads the second byte of the file it finds, and lists
  an entry of the root and one that is not there.
\<close>

definition sample_session :: "request list" where
  "sample_session = [Poke 0x500000 97, Poke 0x500001 0, Find 0x500000, Fetch 0x302000 1 1 0x500010, Entry 1, Entry 3]"

definition sample_answers :: "answer list" where
  "sample_answers = [Poked, Poked, Node 0x302000, Count 1, Name (Some ''a''), Name None]"

definition sample_memory :: "u32 \<Rightarrow> u8" where
  "sample_memory = vwrite 0x500010 [105] (sample_V(0x500000 := 97, 0x500001 := 0))"

lemma sample_client: "client_memory UNIV sample_lk 0x100000 0x300000 sample_datas (block 0x500000 64)"
proof -
  have "start_of sample_datas (length sample_datas) = 4872" "length sample_datas = 2"
    by (simp_all add: start_of_def sample_datas_def)
  moreover have "block 0x500000 64 \<inter> (heap_for 0x300000 2 \<union> block 0x100000 4872 \<union> block 0x200010 4 \<union> block 0x200100 68) = {}"
    by (auto simp: sample_blocks mem_block_iff)
  ultimately show ?thesis
    using sample_buffers by (auto simp: client_memory_def buffers_ok_def disk_range_def sample_lk_def)
qed

lemma sample_steps:
  "steps (fs_step (block 0x500000 64) 0x300000 sample_names sample_datas) sample_V sample_session sample_answers sample_memory"
proof -
  let ?st = "fs_step (block 0x500000 64) 0x300000 sample_names sample_datas" and ?M = "sample_V(0x500000 := 97, 0x500001 := 0)"
  have blk: "(0x500000 :: u32) \<in> block 0x500000 64" "(0x500001 :: u32) \<in> block 0x500000 64"
      "block 0x500000 (Suc (length [97 :: u8])) \<subseteq> block 0x500000 64" "block 0x500010 (unat (1 :: u32)) \<subseteq> block 0x500000 64"
    by (auto simp: mem_block_iff)
  have "?st sample_V (Poke 0x500000 97) Poked (sample_V(0x500000 := 97))"
      "?st (sample_V(0x500000 := 97)) (Poke 0x500001 0) Poked ?M"
    by (intro fs_step.poke blk)+
  moreover have "?st ?M (Find 0x500000) (Node (node_of 0x300000 sample_names [97])) ?M"
    by (rule fs_step.find [OF _ blk(3)]) (simp_all add: vstr_def)
  moreover have "node_of 0x300000 sample_names [97] = 0x302000"
    by (simp add: node_of_def sample_names_def ascii_names nod_def upt_rec)
  moreover have "?st ?M (Fetch (nod (0x300000 + 8192) 0) 1 1 0x500010) (Count (of_nat (length [105 :: u8]))) sample_memory"
    unfolding sample_memory_def by (rule fs_step.fetch [OF _ _ _ blk(4)]) (simp_all add: sample_datas_def)
  moreover have "?st sample_memory (Entry (of_nat 1)) (Name (Some (text_of (fst (listed sample_names 1))))) sample_memory"
    by (rule fs_step.entry) (simp add: sample_datas_def)
  moreover have "text_of (fst (listed sample_names 1)) = ''a''" by (simp add: listed_def sample_names_def text_of_def char_of_def bit_0)
  moreover have "?st sample_memory (Entry 3) (Name None) sample_memory"
    by (rule fs_step.no_entry) (simp add: sample_datas_def)
  ultimately show ?thesis by (simp add: sample_session_def sample_answers_def nod_def) blast
qed


end
