(* ===== verification/PageMaps.thy ===== *)
theory PageMaps
  imports Paging Simulation
begin

text \<open>
  Sequences of \<open>page_map\<close> calls while the tables are built: they refine updates of an abstract map from addresses to page table entries, within a
  budget for the page tables that they create.
\<close>

section \<open>Numbers of pages\<close>

definition PAGES_PER_KB :: "u32 \<Rightarrow> u32" where
  "PAGES_PER_KB kb = PAGE_ALIGN_UP (kb * 1024) div PAGE_SIZE"

definition PAGES_PER_GB :: "u32 \<Rightarrow> u32" where
  "PAGES_PER_GB gb = PAGE_ALIGN_UP (gb * 1024 * 1024 * 1024) div PAGE_SIZE"

text \<open>A number of kilobytes is rounded up to whole pages; all of the memory that the processor can address counts as no page.\<close>

lemma PAGES_PER_KB_pages:
  assumes "unat kb \<le> 4194300"
  shows "unat (PAGES_PER_KB kb) = (unat kb + 3) div 4"
proof -
  have c: "unat (1024 :: u32) = 1024" by simp
  have "unat kb * unat (1024 :: u32) < 2 ^ LENGTH(32)" unfolding c using assms by simp
  then have "unat (kb * 1024) = unat kb * unat (1024 :: u32)" by (simp only: unat_mult_lem)
  then have b: "unat (kb * 1024) = unat kb * 1024" by (simp only: c)
  then have "unat (kb * 1024) \<le> 4294963200" using assms by simp
  note up = page_up_bounds [OF this]
  obtain k where k: "unat (page_up (kb * 1024)) = 4096 * k" using up(3) by auto
  have "unat (PAGE_SIZE :: u32) = 4096" by (simp add: PAGE_SIZE_def)
  then have "unat (PAGES_PER_KB kb) = k" by (simp add: PAGES_PER_KB_def PAGE_ALIGN_UP_page_up unat_div k)
  moreover have "unat kb * 1024 \<le> 4096 * k" "4096 * k < unat kb * 1024 + 4096" using up(1,2) k b by simp_all
  then have "unat kb \<le> 4 * k" "4 * k < unat kb + 4" by linarith+
  then have "k = (unat kb + 3) div 4" by presburger
  ultimately show ?thesis by simp
qed

lemma PAGES_PER_GB_wraps: "PAGES_PER_GB 1 = 262144" "PAGES_PER_GB 4 = 0"
  by (simp_all add: PAGES_PER_GB_def PAGE_ALIGN_UP_def NOT_ALIGNED_def PAGE_ALIGN_def PAGE_SIZE_def)

section \<open>The abstract map\<close>

text \<open>A request is a virtual address, a physical address and permissions. It changes the entry of one page.\<close>

type_synonym map_request = "u32 \<times> u32 \<times> u32"

fun map_entry :: "map_request \<Rightarrow> (u32 \<Rightarrow> u32) \<Rightarrow> (u32 \<Rightarrow> u32)" where
  "map_entry (virt, phys, perm) E =
     (\<lambda>va. if unat va div 4096 = unat virt div 4096 then (E va AND 0xFFF) OR phys OR perm OR 1 else E va)"

fun map_allowed :: "u32 set \<Rightarrow> map_request \<Rightarrow> bool" where
  "map_allowed R (virt, phys, perm) \<longleftrightarrow> page_aligned virt \<and> page_aligned phys \<and> dir_index virt \<in> R"

inductive entry_step :: "u32 set \<Rightarrow> (u32 \<Rightarrow> u32) \<Rightarrow> map_request \<Rightarrow> unit \<Rightarrow> (u32 \<Rightarrow> u32) \<Rightarrow> bool" for R where
  "map_allowed R q \<Longrightarrow> entry_step R E q () (map_entry q E)"

lemma map_steps:
  "\<forall>q \<in> set qs. map_allowed R q \<Longrightarrow> steps (entry_step R) E qs (replicate (length qs) ()) (fold map_entry qs E)"
  by (induction qs arbitrary: E) (auto simp del: map_allowed.simps intro: entry_step.intros)

section \<open>The simulation\<close>

fun page_map_call :: "map_request \<Rightarrow> ('a paging_st_scheme, unit) kernel" where
  "page_map_call (virt, phys, perm) = kthen (page_map virt phys perm) (kreturn ())"

definition maps_entries :: "nat \<Rightarrow> u32 set \<Rightarrow> (u32 \<Rightarrow> u32) \<Rightarrow> 'a paging_st_scheme \<Rightarrow> bool" where
  "maps_entries L R E s \<longleftrightarrow> tables_ok s \<and> budget L s R \<and> R \<subseteq> {..<1024} \<and> (\<forall>va. page_entry s va = E va)"

lemma page_map_simulates:
  assumes "entry_step R E q a E'" "maps_entries L R E s"
  shows "\<exists>s'. page_map_call q s = Inr (a, s') \<and> maps_entries L R E' s'"
proof -
  obtain virt phys perm where q: "q = (virt, phys, perm)" by (cases q)
  have E': "map_allowed R q" "E' = map_entry q E" using assms(1) by (auto elim: entry_step.cases)
  have s: "tables_ok s" "budget L s R" "R \<subseteq> {..<1024}" "\<And>va. page_entry s va = E va"
    using assms(2) by (simp_all add: maps_entries_def)
  obtain b s' where s': "page_map virt phys perm s = Inr (b, s')"
      "built L R (\<lambda>va. if unat va div 4096 = unat virt div 4096
                   then pte_update phys perm (page_entry s va) else page_entry s va) s s'"
    using map_step [OF s(1-3), of virt phys perm] E'(1) by (auto simp: q)
  then have "maps_entries L R E' s'" using s(3,4) by (simp add: built_def maps_entries_def E'(2) q pte_update_def)
  with s'(1) show ?thesis by (simp add: q)
qed

interpretation page_maps: forward_simulation page_map_call "entry_step R"
  "maps_entries L R :: _ \<Rightarrow> 'a paging_st_scheme \<Rightarrow> bool" for L R
  by unfold_locales (rule page_map_simulates)

section \<open>Properties\<close>

text \<open>
  C8: any sequence of \<open>page_map\<close> calls on page boundaries whose page tables fit the early heap comes to its end. The
  tables then hold exactly the entries that the calls ask for, one after the other, and the old entries of all other pages; they stay
  well formed, and the heap is used up to the budget at most.
\<close>

theorem page_maps_refine:
  fixes s :: "'a paging_st_scheme"
  assumes "tables_ok s" "budget L s R" "R \<subseteq> {..<1024}" "\<forall>q \<in> set qs. map_allowed R q"
  shows "\<exists>s'. run_all page_map_call qs s = Inr (replicate (length qs) (), s') \<and> tables_ok s'
    \<and> (\<forall>va. page_entry s' va = fold map_entry qs (page_entry s) va) \<and> unat (currentBase s') \<le> L"
proof -
  have "maps_entries L R (page_entry s) s" using assms(1-3) by (simp add: maps_entries_def)
  from page_maps.run_all_simulates [OF map_steps [OF assms(4)] this] obtain s' where
    "run_all page_map_call qs s = Inr (replicate (length qs) (), s')" "maps_entries L R (fold map_entry qs (page_entry s)) s'" by blast
  then show ?thesis using budget_used [of s' L R] by (auto simp: maps_entries_def)
qed

text \<open>A page is mapped, another one is mapped, and the first one is moved to another frame.\<close>

theorem page_maps_refine_witness:
  "\<exists>s'. run_all page_map_call [(0x3000, 0x7000, 2), (0xC0000000, 0x100000, 0), (0x3000, 0x8000, 0)] (new_dirs sample_boot) =
      Inr ([(), (), ()], s') \<and> page_entry s' 0x3ABC = 0x8003 \<and> page_entry s' 0xC0000004 = 0x100001 \<and> page_entry s' 0x4000 = 0"
proof -
  let ?s = "new_dirs sample_boot" and ?qs = "[(0x3000, 0x7000, 2), (0xC0000000, 0x100000, 0), (0x3000, 0x8000, 0)] :: map_request list"
  have nt: "next_table sample_boot = 0xC0200000"
    by (simp add: next_table_def page_up_def PAGE_ALIGN_def PAGE_SIZE_def)
  have lo: "0xC0000000 \<le> initialBase sample_boot" by simp
  have room: "unat (next_table sample_boot) + 4096 * 5 \<le> unat (maxBase sample_boot)"
    unfolding nt by simp
  have slots: "boot_slots \<subseteq> {..<1024}" by (auto simp: boot_slots_def)
  have "\<forall>q \<in> set ?qs. map_allowed boot_slots q"
    by (simp add: boot_slots_def word_unat_eq_iff unat_dir_index page_aligned_def)
  moreover have "page_entry ?s va = 0" for va using new_dirs_budget(2) [OF sample_boot_ok lo room] .
  then have "fold map_entry ?qs (page_entry ?s) 0x3ABC = 0x8003" "fold map_entry ?qs (page_entry ?s) 0xC0000004 = 0x100001"
      "fold map_entry ?qs (page_entry ?s) 0x4000 = 0"
    by simp_all
  moreover have "length ?qs = 3" "replicate 3 () = [(), (), ()]" by (simp_all add: numeral_3_eq_3)
  ultimately show ?thesis
    using page_maps_refine [OF sample_tables_ok(1) new_dirs_budget(1) [OF sample_boot_ok lo room] slots, of ?qs]
    by (metis (no_types, lifting))
qed

end
