(* ===== verification/Layout.thy ===== *)
theory Layout
  imports BootUp
begin

unbundle bit_operations_syntax

text \<open>
  The layout of the program's structures: the rules of the i386 ABI for sizes, alignment and padding, the structures of the headers
  as the C code declares them, and the proof that the offsets used in this development are the ones the rules give. Also the
  Multiboot header of \<^verbatim>\<open>src/asm/boot.asm\<close> and the bit fields of \<^verbatim>\<open>include/paging.h\<close>.
\<close>

section \<open>Types and their layout\<close>

text \<open>An integer of a number of bytes, a pointer, an array, a structure (packed or not) and a union, with named members.\<close>

datatype ctype =
    CInt nat
  | CPtr
  | CArray nat ctype
  | CStruct bool "(string \<times> ctype) list"
  | CUnion "(string \<times> ctype) list"

text \<open>In a structure, an integer of eight bytes is aligned like one of four.\<close>

fun calign :: "ctype \<Rightarrow> nat" and members_align :: "(string \<times> ctype) list \<Rightarrow> nat" where
  "calign (CInt n) = min n 4"
| "calign CPtr = 4"
| "calign (CArray n t) = calign t"
| "calign (CStruct packed fs) = (if packed then 1 else members_align fs)"
| "calign (CUnion fs) = members_align fs"
| "members_align [] = 1"
| "members_align ((_, t) # fs) = max (calign t) (members_align fs)"

definition place_at :: "bool \<Rightarrow> nat \<Rightarrow> nat \<Rightarrow> nat" where
  "place_at packed al off = (if packed then off else align_to al off)"

fun csize :: "ctype \<Rightarrow> nat" and members_end :: "bool \<Rightarrow> nat \<Rightarrow> (string \<times> ctype) list \<Rightarrow> nat"
  and members_max :: "(string \<times> ctype) list \<Rightarrow> nat" where
  "csize (CInt n) = n"
| "csize CPtr = 4"
| "csize (CArray n t) = n * csize t"
| "csize (CStruct packed fs) = align_to (calign (CStruct packed fs)) (members_end packed 0 fs)"
| "csize (CUnion fs) = align_to (members_align fs) (members_max fs)"
| "members_end packed off [] = off"
| "members_end packed off ((_, t) # fs) =
     members_end packed (place_at packed (calign t) off + csize t) fs"
| "members_max [] = 0"
| "members_max ((_, t) # fs) = max (csize t) (members_max fs)"

text \<open>Where the members lie.\<close>

fun members_at :: "bool \<Rightarrow> nat \<Rightarrow> (string \<times> ctype) list \<Rightarrow> (string \<times> nat \<times> ctype) list" where
  "members_at packed off [] = []"
| "members_at packed off ((f, t) # fs) =
     (f, place_at packed (calign t) off, t) # members_at packed (place_at packed (calign t) off + csize t) fs"

fun layout :: "ctype \<Rightarrow> (string \<times> nat \<times> ctype) list" where
  "layout (CStruct packed fs) = members_at packed 0 fs"
| "layout (CUnion fs) = map (\<lambda>(f, t). (f, 0, t)) fs"
| "layout _ = []"

definition offset_of :: "ctype \<Rightarrow> string \<Rightarrow> nat option" where
  "offset_of t f = map_option fst (map_of (layout t) f)"

section \<open>The structures of the headers\<close>

definition c_uint8 :: ctype where "c_uint8 = CInt 1"
definition c_uint16 :: ctype where "c_uint16 = CInt 2"
definition c_uint32 :: ctype where "c_uint32 = CInt 4"

text \<open>\<open>long\<close> has four bytes on this processor, an enumeration is an \<open>int\<close>.\<close>

definition c_uint64 :: ctype where "c_uint64 = CInt 4"
definition c_int64 :: ctype where "c_int64 = CInt 4"
definition c_BOOL :: ctype where "c_BOOL = CInt 4"

definition c_dentry :: ctype where
  "c_dentry = CStruct False [(''name'', CArray 64 (CInt 1)), (''ino'', c_uint32)]"

definition c_inode :: ctype where
  "c_inode = CStruct False
     [(''name'', CArray 128 (CInt 1)), (''mask'', c_uint32), (''uid'', c_uint32), (''gid'', c_uint32), (''flags'', c_uint32),
      (''ino'', c_uint32), (''length'', c_uint32), (''impl'', c_uint32), (''read'', CPtr), (''write'', CPtr), (''open'', CPtr),
      (''close'', CPtr), (''readdir'', CPtr), (''finddir'', CPtr), (''ptr'', CPtr)]"

definition c_initrd_header :: ctype where
  "c_initrd_header = CStruct False [(''nfiles'', c_uint32)]"

definition c_initrd_file_header :: ctype where
  "c_initrd_file_header = CStruct False
     [(''magic'', c_uint8), (''name'', CArray 64 c_uint8), (''offset'', c_uint32), (''length'', c_uint32)]"

text \<open>The header of the host tool, which is compiled for another processor with the same rules for these types.\<close>

definition c_tool_header :: ctype where
  "c_tool_header = CStruct False
     [(''magic'', CInt 1), (''name'', CArray 64 (CInt 1)), (''offset'', CInt 4), (''length'', CInt 4)]"

definition c_REGISTERS :: ctype where
  "c_REGISTERS = CStruct False (map (\<lambda>f. (f, c_uint32))
     [''ds'', ''edi'', ''esi'', ''ebp'', ''esp'', ''ebx'', ''edx'', ''ecx'', ''eax'', ''int_no'', ''err_code'',
      ''eip'', ''cs'', ''eflags'', ''useresp'', ''ss''])"

definition c_REGISTERS16 :: ctype where
  "c_REGISTERS16 = CStruct False (map (\<lambda>f. (f, c_uint16))
     [''di'', ''si'', ''bp'', ''sp'', ''bx'', ''dx'', ''cx'', ''ax'', ''ds'', ''es'', ''fs'', ''gs'', ''ss'', ''eflags''])"

definition c_GDT :: ctype where
  "c_GDT = CStruct True
     [(''segment_limit'', c_uint16), (''base_low'', c_uint16), (''base_middle'', c_uint8), (''access'', c_uint8),
      (''granularity'', c_uint8), (''base_high'', c_uint8)]"

definition c_GDT_PTR :: ctype where
  "c_GDT_PTR = CStruct True [(''limit'', c_uint16), (''base_address'', c_uint32)]"

definition c_IDT :: ctype where
  "c_IDT = CStruct True
     [(''base_low'', c_uint16), (''segment_selector'', c_uint16), (''zero'', c_uint8), (''type'', c_uint8),
      (''base_high'', c_uint16)]"

definition c_IDT_PTR :: ctype where
  "c_IDT_PTR = CStruct True [(''limit'', c_uint16), (''base_address'', c_uint32)]"

definition c_TIMER_FUNC_ARGS :: ctype where
  "c_TIMER_FUNC_ARGS = CStruct False [(''timeout'', c_uint32), (''user'', CPtr)]"

definition c_TIMER_FUNCTION_MANAGER :: ctype where
  "c_TIMER_FUNCTION_MANAGER = CStruct False
     [(''current_index'', c_uint32), (''functions'', CArray 256 CPtr), (''func_args'', CArray 256 c_TIMER_FUNC_ARGS)]"

text \<open>The structures of \<^verbatim>\<open>include/multiboot.h\<close>.\<close>

definition c_multiboot_header :: ctype where
  "c_multiboot_header = CStruct False (map (\<lambda>f. (f, CInt 4))
     [''magic'', ''flags'', ''checksum'', ''header_addr'', ''load_addr'', ''load_end_addr'', ''bss_end_addr'', ''entry_addr'',
      ''mode_type'', ''width'', ''height'', ''depth''])"

definition c_aout_symbol_table :: ctype where
  "c_aout_symbol_table = CStruct False (map (\<lambda>f. (f, CInt 4)) [''tabsize'', ''strsize'', ''addr'', ''reserved''])"

definition c_elf_section_header_table :: ctype where
  "c_elf_section_header_table = CStruct False (map (\<lambda>f. (f, CInt 4)) [''num'', ''size'', ''addr'', ''shndx''])"

definition c_multiboot_info :: ctype where
  "c_multiboot_info = CStruct False
     (map (\<lambda>f. (f, CInt 4)) [''flags'', ''mem_lower'', ''mem_upper'', ''boot_device'', ''cmdline'', ''mods_count'', ''mods_addr'']
      @ [(''u'', CUnion [(''aout_sym'', c_aout_symbol_table), (''elf_sec'', c_elf_section_header_table)])]
      @ map (\<lambda>f. (f, CInt 4)) [''mmap_length'', ''mmap_addr'', ''drives_length'', ''drives_addr'', ''config_table'',
          ''boot_loader_name'', ''apm_table'', ''vbe_control_info'', ''vbe_mode_info'']
      @ map (\<lambda>f. (f, CInt 2)) [''vbe_mode'', ''vbe_interface_seg'', ''vbe_interface_off'', ''vbe_interface_len''])"

definition c_mmap_entry :: ctype where
  "c_mmap_entry = CStruct True [(''size'', CInt 4), (''addr'', CInt 8), (''len'', CInt 8), (''type'', CInt 4)]"

definition c_mod_list :: ctype where
  "c_mod_list = CStruct False (map (\<lambda>f. (f, CInt 4)) [''mod_start'', ''mod_end'', ''cmdline'', ''pad''])"

text \<open>The tables of \<^verbatim>\<open>include/paging.h\<close>; a page entry is a word of bit fields.\<close>

definition c_page_table :: ctype where
  "c_page_table = CStruct False [(''pages'', CArray 1024 (CInt 4))]"

definition c_page_directory :: ctype where
  "c_page_directory = CStruct False
     [(''tables'', CArray 1024 CPtr), (''tablesPhysical'', CArray 1024 c_uint32), (''physicalAddr'', c_uint32)]"

section \<open>Soundness of the rules\<close>

text \<open>Integers have one, two, four or eight bytes.\<close>

fun good_ctype :: "ctype \<Rightarrow> bool" and good_members :: "(string \<times> ctype) list \<Rightarrow> bool" where
  "good_ctype (CInt n) \<longleftrightarrow> n \<in> {1, 2, 4, 8}"
| "good_ctype CPtr \<longleftrightarrow> True"
| "good_ctype (CArray n t) \<longleftrightarrow> good_ctype t"
| "good_ctype (CStruct packed fs) \<longleftrightarrow> good_members fs"
| "good_ctype (CUnion fs) \<longleftrightarrow> good_members fs"
| "good_members [] \<longleftrightarrow> True"
| "good_members ((_, t) # fs) \<longleftrightarrow> good_ctype t \<and> good_members fs"

lemma align_to_le: "0 < n \<Longrightarrow> a \<le> align_to n a"
  using div_mult_mod_eq [of "a + (n - 1)" n] mod_less_divisor [of n "a + (n - 1)"] unfolding align_to_def by linarith

lemma place_at_le: "0 < n \<Longrightarrow> a \<le> place_at packed n a"
  by (simp add: place_at_def align_to_le)

lemma align_to_dvd: "n dvd align_to n a"
  by (simp add: align_to_def)

text \<open>Alignments are 1, 2 or 4, and the alignment of a structure is a multiple of that of its members.\<close>

lemma good_aligns:
  "good_ctype t \<Longrightarrow> calign t \<in> {1, 2, 4}"
  "good_members fs \<Longrightarrow> members_align fs \<in> {1, 2, 4} \<and> (\<forall>(f, t) \<in> set fs. calign t dvd members_align fs)"
proof (induction t and fs rule: calign_members_align.induct)
  case (7 f t fs)
  then have "calign t \<in> {1, 2, 4}" "members_align fs \<in> {1, 2, 4}" by simp_all
  moreover have "\<forall>(f, t) \<in> set fs. calign t dvd members_align fs" using 7 by simp
  moreover have "calign t dvd max (calign t) (members_align fs)" "members_align fs dvd max (calign t) (members_align fs)"
    using calculation(1,2) by auto
  ultimately show ?case by (auto simp: max_def intro: dvd_trans)
qed auto

text \<open>The size of a type is a multiple of its alignment, so the elements of an array are aligned.\<close>

lemma size_aligned: "good_ctype t \<Longrightarrow> calign t dvd csize t"
proof (induction t)
  case (CArray n t)
  then show ?case by simp
qed (auto simp: align_to_dvd)

lemma calign_pos: "good_ctype t \<Longrightarrow> 0 < calign t"
  using good_aligns(1) [of t] by auto

lemma members_end_le: "good_members fs \<Longrightarrow> off \<le> members_end packed off fs"
proof (induction fs arbitrary: off)
  case (Cons x fs)
  obtain g u where x: "x = (g, u)" by (cases x)
  have "0 < calign u" using Cons.prems by (simp add: x calign_pos)
  then have "off \<le> place_at packed (calign u) off + csize u" by (simp add: place_at_le trans_le_add1)
  also have "\<dots> \<le> members_end packed \<dots> fs" using Cons.prems by (intro Cons.IH) (simp add: x)
  finally show ?case by (simp add: x)
qed simp

lemma members_at_props:
  assumes "good_members fs" "(f, at, t) \<in> set (members_at packed off fs)"
  shows "off \<le> at \<and> at + csize t \<le> members_end packed off fs \<and> (\<not> packed \<longrightarrow> calign t dvd at) \<and> (f, t) \<in> set fs"
  using assms
proof (induction fs arbitrary: off)
  case (Cons x fs)
  obtain g u where x: "x = (g, u)" by (cases x)
  let ?at = "place_at packed (calign u) off"
  have u: "good_ctype u" "good_members fs" using Cons.prems by (simp_all add: x)
  from calign_pos [OF u(1)] have le: "off \<le> ?at" by (simp add: place_at_le)
  have mono: "?at + csize u \<le> members_end packed (?at + csize u) fs" by (rule members_end_le [OF u(2)])
  consider "f = g" "at = ?at" "t = u" | "(f, at, t) \<in> set (members_at packed (?at + csize u) fs)"
    using Cons.prems(2) by (auto simp: x)
  then show ?case
  proof cases
    case 1
    then show ?thesis using mono le by (simp add: x place_at_def align_to_dvd)
  next
    case 2
    from Cons.IH [OF u(2) this] le show ?thesis by (simp add: x)
  qed
qed simp

lemma members_at_sorted:
  assumes "good_members fs"
  shows "sorted_wrt (\<lambda>(f, a, t) (g, b, u). a + csize t \<le> b) (members_at packed off fs)"
  using assms
proof (induction fs arbitrary: off)
  case (Cons x fs)
  obtain g u where x: "x = (g, u)" by (cases x)
  have "good_members fs" using Cons.prems by (simp add: x)
  then show ?case using Cons.IH members_at_props [of fs] by (fastforce simp: x)
qed simp

section \<open>The program's structures\<close>

text \<open>All structures of the program, and the unions in them.\<close>

definition program_structs :: "ctype list" where
  "program_structs =
     [c_dentry, c_inode, c_initrd_header, c_initrd_file_header, c_tool_header, c_REGISTERS, c_REGISTERS16, c_GDT, c_GDT_PTR,
      c_IDT, c_IDT_PTR, c_TIMER_FUNC_ARGS, c_TIMER_FUNCTION_MANAGER, c_multiboot_header, c_aout_symbol_table,
      c_elf_section_header_table, c_multiboot_info, c_mmap_entry, c_mod_list, c_page_table, c_page_directory]"

lemmas scalar_types = c_uint8_def c_uint16_def c_uint32_def c_uint64_def c_int64_def c_BOOL_def

lemmas struct_types = c_dentry_def c_inode_def c_initrd_header_def c_initrd_file_header_def c_tool_header_def c_REGISTERS_def
  c_REGISTERS16_def c_GDT_def c_GDT_PTR_def c_IDT_def c_IDT_PTR_def c_TIMER_FUNC_ARGS_def c_TIMER_FUNCTION_MANAGER_def
  c_multiboot_header_def c_aout_symbol_table_def c_elf_section_header_table_def c_multiboot_info_def c_mmap_entry_def
  c_mod_list_def c_page_table_def c_page_directory_def

fun good_struct :: "ctype \<Rightarrow> bool" where
  "good_struct (CStruct packed fs) \<longleftrightarrow> good_members fs"
| "good_struct _ \<longleftrightarrow> False"

lemma program_structs_all: "list_all good_struct program_structs"
  by (simp add: program_structs_def struct_types scalar_types)

lemma program_structs_good:
  assumes "T \<in> set program_structs"
  shows "\<exists>packed fs. T = CStruct packed fs \<and> good_members fs"
proof -
  have "good_struct T" using program_structs_all assms by (simp add: list_all_iff)
  then show ?thesis by (cases T) simp_all
qed

text \<open>The place of a member in a structure at an address; \<open>None\<close> when there is no such member.\<close>

definition member_at :: "ctype \<Rightarrow> string \<Rightarrow> u32 \<Rightarrow> u32 option" where
  "member_at t f a = map_option (\<lambda>k. a + of_nat k) (offset_of t f)"

text \<open>
  The members of every structure of the program lie one after the other: in the order of their declaration without
  overlap, inside the structure, each at a multiple of its alignment unless the structure is packed; and the size of the structure is a
  multiple of its alignment, so that the same holds for the elements of an array of it.
\<close>

lemma struct_members_apart:
  assumes "T \<in> set program_structs"
  shows "sorted_wrt (\<lambda>(f, a, t) (g, b, u). a + csize t \<le> b) (layout T)
    \<and> (\<forall>(f, a, t) \<in> set (layout T). a + csize t \<le> csize T \<and> (calign T \<noteq> 1 \<longrightarrow> calign t dvd a)) \<and> calign T dvd csize T"
proof -
  obtain packed fs where T: "T = CStruct packed fs" "good_members fs" using program_structs_good [OF assms] by blast
  have "a + csize t \<le> csize T \<and> (calign T \<noteq> 1 \<longrightarrow> calign t dvd a)" if "(f, a, t) \<in> set (layout T)" for f a t
  proof -
    have m: "a + csize t \<le> members_end packed 0 fs" "\<not> packed \<longrightarrow> calign t dvd a"
      using members_at_props [OF T(2)] that by (auto simp: T(1))
    have "members_end packed 0 fs \<le> csize T"
      using calign_pos [of T] T by (simp add: align_to_le)
    with m show ?thesis by (auto simp: T(1))
  qed
  then show ?thesis using members_at_sorted [OF T(2)] size_aligned [of T] T by auto
qed

section \<open>The offsets of the development\<close>

lemma layout_places:
  "offset_of c_dentry ''ino'' = Some 64"
  "offset_of c_inode ''mask'' = Some 128" "offset_of c_inode ''uid'' = Some 132" "offset_of c_inode ''gid'' = Some 136" "offset_of c_inode ''flags'' = Some 140" "offset_of c_inode ''ino'' = Some 144" "offset_of c_inode ''length'' = Some 148" "offset_of c_inode ''impl'' = Some 152" "offset_of c_inode ''read'' = Some 156" "offset_of c_inode ''write'' = Some 160" "offset_of c_inode ''open'' = Some 164" "offset_of c_inode ''close'' = Some 168" "offset_of c_inode ''readdir'' = Some 172" "offset_of c_inode ''finddir'' = Some 176" "offset_of c_inode ''ptr'' = Some 180"
  "offset_of c_initrd_file_header ''name'' = Some 1" "offset_of c_initrd_file_header ''offset'' = Some 68" "offset_of c_initrd_file_header ''length'' = Some 72"
  "offset_of c_tool_header ''magic'' = Some 0" "offset_of c_tool_header ''name'' = Some 1" "offset_of c_tool_header ''offset'' = Some 68" "offset_of c_tool_header ''length'' = Some 72"
  "offset_of c_multiboot_info ''mods_addr'' = Some 24"
  "offset_of c_mod_list ''mod_start'' = Some 0" "offset_of c_mod_list ''mod_end'' = Some 4"
  "offset_of c_GDT_PTR ''base_address'' = Some 2"
  "offset_of c_IDT_PTR ''base_address'' = Some 2"
  "map (\<lambda>(_, k, _). k div 4) (layout c_REGISTERS) = [0, 1, 2, 3, 4, 5, 6, 7, 8, 9, 10, 11, 12, 13, 14, 15]"
  by code_simp+

lemma layout_sizes:
  "csize c_inode = 184" "csize c_initrd_header = 4" "csize c_initrd_file_header = 76" "csize c_mod_list = 16"
  "csize c_tool_header = 76" "csize c_GDT = 8" "csize c_IDT = 8" "csize c_GDT_PTR = 6" "csize c_IDT_PTR = 6"
  by code_simp+


text \<open>The widths of the model's words are those of the types; the types of 64 bits have 32.\<close>

lemma scalar_widths:
  "size (a :: u8) = 8 * csize c_uint8" "size (b :: u16) = 8 * csize c_uint16" "size (c :: u32) = 8 * csize c_uint32"
  "csize c_uint64 = 4" "csize c_int64 = 4"
  by (simp_all add: scalar_types word_size)

section \<open>The bit fields of a page\<close>

text \<open>Bit fields are allocated from the lowest bit of the word upwards.\<close>

definition page_t_fields :: "(string \<times> nat) list" where
  "page_t_fields =
     [(''present'', 1), (''rw'', 1), (''user'', 1), (''accessed'', 1), (''dirty'', 1), (''unused'', 7), (''frame'', 20)]"

fun field_bits :: "nat \<Rightarrow> (string \<times> nat) list \<Rightarrow> string \<Rightarrow> (nat \<times> nat) option" where
  "field_bits pos [] f = None"
| "field_bits pos ((g, w) # fs) f = (if f = g then Some (pos, w) else field_bits (pos + w) fs f)"

definition page_t_get :: "string \<Rightarrow> u32 \<Rightarrow> u32 option" where
  "page_t_get f v = map_option (\<lambda>(pos, w). drop_bit pos v AND mask w) (field_bits 0 page_t_fields f)"

definition PAGE_ENTRY_ACCESS :: u32 where "PAGE_ENTRY_ACCESS = 0x20"

lemma page_t_places:
  "page_t_get ''present'' v = Some (v AND mask 1)" "page_t_get ''rw'' v = Some (drop_bit 1 v AND mask 1)"
  "page_t_get ''accessed'' v = Some (drop_bit 3 v AND mask 1)" "page_t_get ''unused'' v = Some (drop_bit 5 v AND mask 7)"
  "page_t_get ''frame'' v = Some (drop_bit 12 v AND mask 20)"
  by (simp_all add: page_t_get_def page_t_fields_def eval_nat_numeral)

lemma page_aligned_push: "page_aligned a \<Longrightarrow> a = push_bit 12 (drop_bit 12 a)"
proof -
  assume "page_aligned a"
  then have "a AND 0xFFFFF000 = a" by (rule page_aligned_mask)
  moreover have "(0xFFFFF000 :: u32) = NOT (mask 12)" by (simp add: mask_eq_exp_minus_1)
  ultimately have "bit a n \<Longrightarrow> 12 \<le> n" for n by (metis bit_and_iff bit_mask_iff bit_not_iff not_less possible_bit_word)
  then show ?thesis by (intro bit_word_eqI) (auto simp: bit_simps)
qed



section \<open>The Multiboot header\<close>

definition MODULEALIGN :: u32 where "MODULEALIGN = push_bit 0 1"
definition MEMINFO :: u32 where "MEMINFO = push_bit 1 1"
definition FLAGS :: u32 where "FLAGS = MODULEALIGN OR MEMINFO"
definition MAGIC :: u32 where "MAGIC = 0x1BADB002"
definition CHECKSUM :: u32 where "CHECKSUM = - (MAGIC + FLAGS)"

definition mbHeader :: "u32 list" where "mbHeader = [MAGIC, FLAGS, CHECKSUM]"

definition MULTIBOOT_HEADER_MAGIC :: u32 where "MULTIBOOT_HEADER_MAGIC = 0x1BADB002"
definition MULTIBOOT_UNSUPPORTED :: u32 where "MULTIBOOT_UNSUPPORTED = 0x0000FFFC"
definition MULTIBOOT_PAGE_ALIGN :: u32 where "MULTIBOOT_PAGE_ALIGN = 0x00000001"
definition MULTIBOOT_MEMORY_INFO :: u32 where "MULTIBOOT_MEMORY_INFO = 0x00000002"
definition MULTIBOOT_VIDEO_MODE :: u32 where "MULTIBOOT_VIDEO_MODE = 0x00000004"
definition MULTIBOOT_AOUT_KLUDGE :: u32 where "MULTIBOOT_AOUT_KLUDGE = 0x00010000"

text \<open>A member of \<open>struct multiboot_header\<close>; the header of \<^verbatim>\<open>boot.asm\<close> has the first three.\<close>

definition header_word :: "string \<Rightarrow> u32 option" where
  "header_word f = (case offset_of c_multiboot_header f of
     None \<Rightarrow> None | Some k \<Rightarrow> if k div 4 < length mbHeader then Some (mbHeader ! (k div 4)) else None)"

text \<open>
  The header is valid: the magic number is the loader's, the three words add up to zero, only known requirements are
  asked for, modules on page boundaries among them, and the addresses and the video mode, which the header lacks, are not announced.
\<close>

lemma boot_header_valid:
  "header_word ''magic'' = Some MULTIBOOT_HEADER_MAGIC"
  "\<exists>fl c. header_word ''flags'' = Some fl \<and> header_word ''checksum'' = Some c \<and> MULTIBOOT_HEADER_MAGIC + fl + c = 0
    \<and> fl AND MULTIBOOT_UNSUPPORTED = 0 \<and> fl = MULTIBOOT_PAGE_ALIGN OR MULTIBOOT_MEMORY_INFO
    \<and> fl AND (MULTIBOOT_AOUT_KLUDGE OR MULTIBOOT_VIDEO_MODE) = 0"
  "header_word ''header_addr'' = None" "header_word ''mode_type'' = None"
proof -
  have at: "map (offset_of c_multiboot_header) [''magic'', ''flags'', ''checksum'', ''header_addr'', ''mode_type''] =
      [Some 0, Some 4, Some 8, Some 12, Some 32]"
    by code_simp
  show "header_word ''magic'' = Some MULTIBOOT_HEADER_MAGIC"
    "\<exists>fl c. header_word ''flags'' = Some fl \<and> header_word ''checksum'' = Some c \<and> MULTIBOOT_HEADER_MAGIC + fl + c = 0
      \<and> fl AND MULTIBOOT_UNSUPPORTED = 0 \<and> fl = MULTIBOOT_PAGE_ALIGN OR MULTIBOOT_MEMORY_INFO
      \<and> fl AND (MULTIBOOT_AOUT_KLUDGE OR MULTIBOOT_VIDEO_MODE) = 0"
    "header_word ''header_addr'' = None" "header_word ''mode_type'' = None"
    using at by (simp_all add: header_word_def mbHeader_def FLAGS_def MAGIC_def CHECKSUM_def MODULEALIGN_def MEMINFO_def
        MULTIBOOT_HEADER_MAGIC_def MULTIBOOT_UNSUPPORTED_def MULTIBOOT_PAGE_ALIGN_def MULTIBOOT_MEMORY_INFO_def
        MULTIBOOT_VIDEO_MODE_def MULTIBOOT_AOUT_KLUDGE_def)
qed

end
